(* ===== verification/GoPrelude.thy ===== *)
theory GoPrelude
  imports Main "HOL-Library.Word"
begin

text \<open>
  Shared vocabulary of the development: the machine integers the Go code uses, its error
  values with \<open>errors.Is\<close>, a result type for code that can panic, and the zero values of
  Go types. Nothing in this theory models a file of the repository by itself.
\<close>

section \<open>Machine integers\<close>

type_synonym u8 = "8 word"
type_synonym u16 = "16 word"
type_synonym u32 = "32 word"
type_synonym u64 = "64 word"
type_synonym i32 = "32 word"

section \<open>Collections of facts\<close>

named_theorems wire_simps \<open>executable equations of encoders and decoders\<close>
named_theorems outcome_simps \<open>shape of typed collection outcomes\<close>
named_theorems returns_intros \<open>calls that do not panic\<close>
named_theorems valid_intros \<open>facts that an observation passes its validator\<close>

section \<open>Error values\<close>

text \<open>
  A Go error is a value of a tree: a sentinel, a text error made by \<open>errors.New\<close> or
  \<open>fmt.Errorf\<close>, an operating-system errno, or a wrapper around one or several errors.
  A formatted error keeps its format string and arguments; no code of the repository looks
  into the formatted text. An argument of the verb \<open>%w\<close> is wrapped (\<open>Wrapf\<close>), and
  \<open>errors.Is\<close> finds it; one of the verb \<open>%v\<close>, which the code uses for recovered panics, only
  lends its text (\<open>Formatv\<close>), and \<open>errors.Is\<close> does not see it.
\<close>

datatype fmtarg = FInt int | FStr string

datatype goerror =
    New string
  | Errorf string "fmtarg list"
  | Wrapf string "fmtarg list" goerror
  | Formatv string goerror
  | NumError string string string
  | ErrPermission
  | ErrNotExist
  | Errno nat
  | PathError string string goerror
  | ContextCanceled
  | ContextDeadlineExceeded
  | ErrTooManyLinks
  | ErrMalformedFirmwareResponse
  | ErrNoUsefulSnapshot
  | ErrHelp
  | ErrServerClosed
  | NetErrClosed
  | IoEOF
  | IoErrShortWrite
  | InternalDefectError goerror
  | JoinError "goerror list"

text \<open>
  \<open>syscall.Errno.Is\<close> of the standard library: EPERM (1) and EACCES (13) are
  \<open>fs.ErrPermission\<close>, ENOENT (2) is \<open>fs.ErrNotExist\<close>.
\<close>

fun errno_is :: "nat \<Rightarrow> goerror \<Rightarrow> bool" where
  "errno_is n ErrPermission = (n = 1 \<or> n = 13)"
| "errno_is n ErrNotExist = (n = 2)"
| "errno_is n _ = False"

text \<open>\<open>errors.Is\<close>: the error itself or one of the errors it wraps is the target.\<close>

fun errors_is :: "goerror \<Rightarrow> goerror \<Rightarrow> bool" where
  "errors_is (Wrapf f as e) t = (Wrapf f as e = t \<or> errors_is e t)"
| "errors_is (PathError op p e) t = (PathError op p e = t \<or> errors_is e t)"
| "errors_is (InternalDefectError e) t = (InternalDefectError e = t \<or> errors_is e t)"
| "errors_is (JoinError es) t = (JoinError es = t \<or> (\<exists>e\<in>set es. errors_is e t))"
| "errors_is (Errno n) t = (Errno n = t \<or> errno_is n t)"
| "errors_is e t = (e = t)"

lemma errors_is_refl [simp]: "errors_is e e"
  by (cases e) auto

section \<open>Results\<close>

text \<open>
  A Go function with results \<open>(T, error)\<close> is modelled by a sum: \<open>Inl\<close> is a non-nil
  error, \<open>Inr\<close> the value returned with a nil error. Code that can panic returns a
  \<open>call\<close>: either the panic value, as an error text, or the ordinary result.
\<close>

type_synonym 'a go = "goerror + 'a"

datatype 'a call = Panic goerror | Return 'a

fun call_bind :: "'a call \<Rightarrow> ('a \<Rightarrow> 'b call) \<Rightarrow> 'b call" where
  "call_bind (Panic e) f = Panic e"
| "call_bind (Return x) f = f x"

lemma call_bind_Return_iff:
  "call_bind m f = Return y \<longleftrightarrow> (\<exists>x. m = Return x \<and> f x = Return y)"
  by (cases m) auto

lemma call_bind_assoc:
  "call_bind (call_bind m f) g = call_bind m (\<lambda>x. call_bind (f x) g)"
  by (cases m) auto

text \<open>A call that returns: it does not panic.\<close>

definition returns :: "'a call \<Rightarrow> bool" where
  "returns m \<longleftrightarrow> (\<exists>r. m = Return r)"

lemma returns_Return [simp, returns_intros]: "returns (Return x)"
  by (simp add: returns_def)

lemma returns_Panic [simp]: "\<not> returns (Panic e)"
  by (simp add: returns_def)

lemma returns_bind [returns_intros]:
  "returns m \<Longrightarrow> (\<And>x. m = Return x \<Longrightarrow> returns (f x)) \<Longrightarrow> returns (call_bind m f)"
  by (auto simp: returns_def)

lemma call_bind_cong [fundef_cong]:
  "m = m' \<Longrightarrow> (\<And>x. m' = Return x \<Longrightarrow> f x = g x) \<Longrightarrow> call_bind m f = call_bind m' g"
  by (cases m') auto

text \<open>A call that may also return an error: errors and panics end the sequence.\<close>

fun io_bind :: "('a go) call \<Rightarrow> ('a \<Rightarrow> ('b go) call) \<Rightarrow> ('b go) call" where
  "io_bind (Panic e) f = Panic e"
| "io_bind (Return (Inl e)) f = Return (Inl e)"
| "io_bind (Return (Inr x)) f = f x"

lemma returns_io_bind [returns_intros]:
  "returns m \<Longrightarrow> (\<And>x. m = Return (Inr x) \<Longrightarrow> returns (f x)) \<Longrightarrow> returns (io_bind m f)"
  by (cases "(m, f)" rule: io_bind.cases) (auto simp: returns_def)

lemma io_bind_Inr_iff:
  "io_bind m f = Return (Inr y) \<longleftrightarrow> (\<exists>x. m = Return (Inr x) \<and> f x = Return (Inr y))"
  by (cases "(m, f)" rule: io_bind.cases) auto

lemma returns_if [returns_intros]:
  "(b \<Longrightarrow> returns x) \<Longrightarrow> (\<not> b \<Longrightarrow> returns y) \<Longrightarrow> returns (if b then x else y)"
  by simp

fun go_bind :: "'a go \<Rightarrow> ('a \<Rightarrow> 'b go) \<Rightarrow> 'b go" where
  "go_bind (Inl e) f = Inl e"
| "go_bind (Inr x) f = f x"

lemma go_bind_Inr_iff: "go_bind m f = Inr y \<longleftrightarrow> (\<exists>x. m = Inr x \<and> f x = Inr y)"
  by (cases m) auto

lemma go_bind_Inl_iff:
  "go_bind m f = Inl e \<longleftrightarrow> m = Inl e \<or> (\<exists>x. m = Inr x \<and> f x = Inl e)"
  by (cases m) auto

text \<open>An early return: \<open>if err := ...; err != nil { return err }\<close>.\<close>

fun check :: "goerror option \<Rightarrow> 'a go \<Rightarrow> 'a go" where
  "check (Some e) r = Inl e"
| "check None r = r"

lemma check_Inl_iff: "check e r = Inl x \<longleftrightarrow> e = Some x \<or> (e = None \<and> r = Inl x)"
  by (cases e) auto

lemma check_Inr_iff: "check e r = Inr x \<longleftrightarrow> e = None \<and> r = Inr x"
  by (cases e) auto

section \<open>Zero values\<close>

text \<open>
  The zero value of a Go type is the constant \<open>0\<close> of the library's class \<open>zero\<close>; the
  model's own types are instantiated where they are declared.
\<close>

instantiation list :: (type) zero
begin
definition zero_list :: "'a list" where "zero_list = []"
instance by standard
end

instantiation unit :: zero
begin
definition zero_unit :: unit where "zero_unit = ()"
instance by standard
end

instantiation bool :: zero
begin
definition zero_bool :: bool where "zero_bool = False"
instance by standard
end

instantiation option :: (type) zero
begin
definition zero_option :: "'a option" where "zero_option = None"
instance by standard
end

lemmas go_zero_simps [simp] = zero_list_def zero_unit_def zero_bool_def zero_option_def

section \<open>Lists read by position\<close>

text \<open>A Go slice expression \<open>s[lo:hi]\<close>; it panics unless \<open>lo \<le> hi \<le> len s\<close>.\<close>

definition go_slice :: "'a list \<Rightarrow> nat \<Rightarrow> nat \<Rightarrow> 'a list" where
  "go_slice xs lo hi = take (hi - lo) (drop lo xs)"

definition checked_slice :: "'a list \<Rightarrow> nat \<Rightarrow> nat \<Rightarrow> 'a list call" where
  "checked_slice xs lo hi =
     (if lo \<le> hi \<and> hi \<le> length xs then Return (go_slice xs lo hi)
      else Panic (New ''slice bounds out of range''))"

lemma checked_slice_returns [returns_intros]:
  "lo \<le> hi \<Longrightarrow> hi \<le> length xs \<Longrightarrow> returns (checked_slice xs lo hi)"
  by (simp add: checked_slice_def)

lemma checked_slice_ok [simp]:
  "lo \<le> hi \<Longrightarrow> hi \<le> length xs \<Longrightarrow> checked_slice xs lo hi = Return (go_slice xs lo hi)"
  by (simp add: checked_slice_def)

lemma checked_slice_Return_D:
  "checked_slice xs lo hi = Return ys \<Longrightarrow> lo \<le> hi \<and> hi \<le> length xs \<and> ys = go_slice xs lo hi"
  by (simp add: checked_slice_def split: if_splits)

lemma length_go_slice [simp]: "hi \<le> length xs \<Longrightarrow> length (go_slice xs lo hi) = hi - lo"
  by (simp add: go_slice_def)

lemma go_slice_all [simp]: "go_slice xs 0 (length xs) = xs"
  by (simp add: go_slice_def)

lemma go_slice_append_left [simp]: "hi \<le> length xs \<Longrightarrow> go_slice (xs @ ys) lo hi = go_slice xs lo hi"
  by (cases "lo \<le> length xs") (simp_all add: go_slice_def)

lemma go_slice_append_right:
  "length xs \<le> lo \<Longrightarrow> go_slice (xs @ ys) lo hi = go_slice ys (lo - length xs) (hi - length xs)"
  by (simp add: go_slice_def)

end
