(* ===== verification/GoStrings.thy ===== *)
theory GoStrings
  imports GoPrelude "HOL-Library.Char_ord" "HOL-Library.List_Lexorder"
begin

text \<open>
  The parts of \<open>strings\<close>, \<open>bytes\<close>, \<open>unicode/utf8\<close> and \<open>strconv\<close> the program
  calls, on Go strings as byte strings (a \<open>char\<close> is a byte). With \<open>Char_ord\<close> and
  \<open>List_Lexorder\<close>, the order \<open><\<close> on strings is the bytewise order of
  \<open>strings.Compare\<close>.
\<close>

section \<open>Bytes and runes\<close>

definition byte :: "char \<Rightarrow> nat" where
  "byte c = of_char c"

definition of_byte :: "nat \<Rightarrow> char" where
  "of_byte n = char_of n"

lemma byte_of_byte [simp]: "n < 256 \<Longrightarrow> byte (of_byte n) = n"
  by (simp add: byte_def of_byte_def)

lemma of_byte_byte [simp]: "of_byte (byte c) = c"
  by (simp add: byte_def of_byte_def)

lemma byte_less [simp]: "byte c < 256"
  by (simp add: byte_def)

lemma byte_inj: "byte c = byte d \<Longrightarrow> c = d"
  by (simp add: byte_def)

lemma byte_Char [simp]:
  "byte (Char b0 b1 b2 b3 b4 b5 b6 b7) =
     horner_sum of_bool 2 [b0, b1, b2, b3, b4, b5, b6, b7]"
  by (simp add: byte_def)

definition byte_in :: "nat \<Rightarrow> nat \<Rightarrow> char \<Rightarrow> bool" where
  "byte_in lo hi c \<longleftrightarrow> lo \<le> byte c \<and> byte c \<le> hi"

abbreviation rune_error :: nat where "rune_error \<equiv> 0xFFFD"

text \<open>
  \<open>utf8.DecodeRuneInString\<close>: the first rune and its width in bytes; a byte that starts no
  well-formed sequence decodes to U+FFFD with width 1.
\<close>

fun decode_rune :: "string \<Rightarrow> nat \<times> nat" where
  "decode_rune [] = (rune_error, 0)"
| "decode_rune (c0 # cs) =
     (let b0 = byte c0 in
      if b0 < 0x80 then (b0, 1)
      else if 0xC2 \<le> b0 \<and> b0 \<le> 0xDF then
        (case cs of
           c1 # _ \<Rightarrow> if byte_in 0x80 0xBF c1 then ((b0 - 0xC0) * 64 + (byte c1 - 0x80), 2)
                     else (rune_error, 1)
         | _ \<Rightarrow> (rune_error, 1))
      else if 0xE0 \<le> b0 \<and> b0 \<le> 0xEF then
        (case cs of
           c1 # c2 # _ \<Rightarrow>
             if byte_in (if b0 = 0xE0 then 0xA0 else 0x80) (if b0 = 0xED then 0x9F else 0xBF) c1
                \<and> byte_in 0x80 0xBF c2
             then ((b0 - 0xE0) * 4096 + (byte c1 - 0x80) * 64 + (byte c2 - 0x80), 3)
             else (rune_error, 1)
         | _ \<Rightarrow> (rune_error, 1))
      else if 0xF0 \<le> b0 \<and> b0 \<le> 0xF4 then
        (case cs of
           c1 # c2 # c3 # _ \<Rightarrow>
             if byte_in (if b0 = 0xF0 then 0x90 else 0x80) (if b0 = 0xF4 then 0x8F else 0xBF) c1
                \<and> byte_in 0x80 0xBF c2 \<and> byte_in 0x80 0xBF c3
             then ((b0 - 0xF0) * 262144 + (byte c1 - 0x80) * 4096 + (byte c2 - 0x80) * 64
                     + (byte c3 - 0x80), 4)
             else (rune_error, 1)
         | _ \<Rightarrow> (rune_error, 1))
      else (rune_error, 1))"

lemma decode_rune_width:
  assumes "cs \<noteq> []"
  shows "1 \<le> snd (decode_rune cs)" and "snd (decode_rune cs) \<le> length cs"
  using assms by (cases cs; auto simp: Let_def split: list.splits)+

text \<open>The runes of a string, each with its bytes: what \<open>for _, r := range s\<close> visits.\<close>

function runes :: "string \<Rightarrow> (nat \<times> string) list" where
  "runes s =
     (if s = [] then []
      else (fst (decode_rune s), take (snd (decode_rune s)) s)
           # runes (drop (snd (decode_rune s)) s))"
  by pat_completeness auto
termination
proof (relation "measure length")
  fix s :: string
  assume "s \<noteq> []"
  then have "1 \<le> snd (decode_rune s)" "0 < length s"
    using decode_rune_width(1) [of s] by auto
  then show "(drop (snd (decode_rune s)) s, s) \<in> measure length"
    by simp
qed simp

declare runes.simps [simp del]

lemma runes_Nil [simp]: "runes [] = []"
  by (simp add: runes.simps)

lemma runes_ascii_Cons [simp]: "byte c < 128 \<Longrightarrow> runes (c # cs) = (byte c, [c]) # runes cs"
  by (subst runes.simps) (simp add: Let_def)

lemma runes_concat [simp]: "concat (map snd (runes s)) = s"
proof (induction s rule: runes.induct)
  case (1 s)
  then show ?case
    by (cases "s = []") (auto simp: runes.simps [of s])
qed

lemma runes_ascii: "\<forall>c\<in>set s. byte c < 128 \<Longrightarrow> runes s = map (\<lambda>c. (byte c, [c])) s"
  by (induction s) auto

definition valid_utf8 :: "string \<Rightarrow> bool" where
  "valid_utf8 s \<longleftrightarrow> list_all (\<lambda>(r, w). \<not> (r = rune_error \<and> length w = 1)) (runes s)"

lemma valid_utf8_ascii: "\<forall>c\<in>set s. byte c < 128 \<Longrightarrow> valid_utf8 s"
  by (auto simp: valid_utf8_def runes_ascii list_all_iff)

lemma valid_utf8_Cons_ascii [simp]: "byte c < 128 \<Longrightarrow> valid_utf8 (c # cs) = valid_utf8 cs"
  by (simp add: valid_utf8_def)

lemma valid_utf8_Nil [simp]: "valid_utf8 []"
  by (simp add: valid_utf8_def)

text \<open>\<open>unicode.IsSpace\<close>.\<close>

definition is_space :: "nat \<Rightarrow> bool" where
  "is_space r \<longleftrightarrow> (9 \<le> r \<and> r \<le> 13) \<or> r = 32 \<or> r = 0x85 \<or> r = 0xA0 \<or> r = 0x1680
     \<or> (0x2000 \<le> r \<and> r \<le> 0x200A) \<or> r = 0x2028 \<or> r = 0x2029 \<or> r = 0x202F \<or> r = 0x205F
     \<or> r = 0x3000"

section \<open>Cutting and splitting\<close>

text \<open>\<open>strings.Fields\<close> and \<open>bytes.Fields\<close>.\<close>

fun fields_from :: "(nat \<times> string) list \<Rightarrow> string \<Rightarrow> string list" where
  "fields_from [] cur = (if cur = [] then [] else [cur])"
| "fields_from ((r, w) # rs) cur =
     (if is_space r then (if cur = [] then fields_from rs [] else cur # fields_from rs [])
      else fields_from rs (cur @ w))"

definition split_fields :: "string \<Rightarrow> string list" where
  "split_fields s = fields_from (runes s) []"

definition trim_space :: "string \<Rightarrow> string" where
  "trim_space s =
     concat (map snd (rev (dropWhile (is_space \<circ> fst) (rev (dropWhile (is_space \<circ> fst) (runes s))))))"

definition has_prefix :: "string \<Rightarrow> string \<Rightarrow> bool" where
  "has_prefix s p \<longleftrightarrow> take (length p) s = p"

definition trim_prefix :: "string \<Rightarrow> string \<Rightarrow> string" where
  "trim_prefix s p = (if has_prefix s p then drop (length p) s else s)"

definition has_suffix :: "string \<Rightarrow> string \<Rightarrow> bool" where
  "has_suffix s p \<longleftrightarrow> length p \<le> length s \<and> drop (length s - length p) s = p"

definition trim_suffix :: "string \<Rightarrow> string \<Rightarrow> string" where
  "trim_suffix s p = (if has_suffix s p then take (length s - length p) s else s)"

lemma has_prefix_append [simp]: "has_prefix (p @ s) p"
  by (simp add: has_prefix_def)

lemma trim_prefix_append [simp]: "trim_prefix (p @ s) p = s"
  by (simp add: trim_prefix_def)

text \<open>\<open>strings.Cut(s, sep)\<close> for a separator of one byte.\<close>

definition cut :: "char \<Rightarrow> string \<Rightarrow> string \<times> string \<times> bool" where
  "cut c s =
     (if c \<in> set s then (takeWhile (\<lambda>x. x \<noteq> c) s, tl (dropWhile (\<lambda>x. x \<noteq> c) s), True)
      else (s, [], False))"

lemma cut_append: "c \<notin> set s \<Longrightarrow> cut c (s @ c # t) = (s, t, True)"
  by (simp add: cut_def takeWhile_append dropWhile_append)

lemma cut_found: "cut c s = (a, b, True) \<Longrightarrow> s = a @ c # b \<and> c \<notin> set a"
proof -
  assume h: "cut c s = (a, b, True)"
  then have c: "c \<in> set s" by (auto simp: cut_def split: if_splits)
  then obtain ys zs where "s = ys @ c # zs" "c \<notin> set ys"
    by (meson split_list_first)
  with h show ?thesis by (simp add: cut_append)
qed

text \<open>\<open>strings.Split(s, sep)\<close> for a separator of one byte: at least one part.\<close>

fun split_on :: "char \<Rightarrow> string \<Rightarrow> string list" where
  "split_on c [] = [[]]"
| "split_on c (x # xs) =
     (if x = c then [] # split_on c xs
      else (x # hd (split_on c xs)) # tl (split_on c xs))"

lemma split_on_not_Nil [simp]: "split_on c s \<noteq> []"
  by (cases s) auto

fun join :: "char \<Rightarrow> string list \<Rightarrow> string" where
  "join c [] = []"
| "join c [s] = s"
| "join c (s # t # ts) = s @ c # join c (t # ts)"

lemma join_split_on [simp]: "join c (split_on c s) = s"
proof (induction s)
  case Nil
  then show ?case by simp
next
  case (Cons x xs)
  obtain y ys where y: "split_on c xs = y # ys"
    by (metis list.exhaust split_on_not_Nil)
  with Cons.IH show ?case by (cases ys) auto
qed

lemma split_on_no_sep: "p \<in> set (split_on c s) \<Longrightarrow> c \<notin> set p"
proof (induction s arbitrary: p)
  case Nil
  then show ?case by simp
next
  case (Cons x xs)
  obtain y ys where y: "split_on c xs = y # ys"
    by (metis list.exhaust split_on_not_Nil)
  with Cons show ?case by (auto split: if_splits)
qed

lemma split_on_single: "c \<notin> set s \<Longrightarrow> split_on c s = [s]"
  by (induction s) auto

lemma split_on_append: "c \<notin> set s \<Longrightarrow> split_on c (s @ c # t) = s # split_on c t"
  by (induction s) auto

lemma split_on_join:
  "ps \<noteq> [] \<Longrightarrow> \<forall>p\<in>set ps. c \<notin> set p \<Longrightarrow> split_on c (join c ps) = ps"
  by (induction c ps rule: join.induct) (auto simp: split_on_append split_on_single)

section \<open>Decimal numbers\<close>

definition digit_char :: "nat \<Rightarrow> char" where
  "digit_char d = of_byte (48 + d)"

text \<open>\<open>strconv.FormatUint(n, 10)\<close> and the verb \<open>%d\<close> on a non-negative number.\<close>

fun dec :: "nat \<Rightarrow> string" where
  "dec n = (if n < 10 then [digit_char n] else dec (n div 10) @ [digit_char (n mod 10)])"

declare dec.simps [simp del]

definition is_digit :: "char \<Rightarrow> bool" where
  "is_digit c \<longleftrightarrow> 48 \<le> byte c \<and> byte c \<le> 57"

lemma is_digit_digit_char [simp]: "d < 10 \<Longrightarrow> is_digit (digit_char d)"
  by (simp add: is_digit_def digit_char_def)

lemma byte_digit_char [simp]: "d < 10 \<Longrightarrow> byte (digit_char d) = 48 + d"
  by (simp add: digit_char_def)

lemma digit_char_eval [wire_simps]:
  "digit_char 0 = CHR ''0''" "digit_char 1 = CHR ''1''" "digit_char 2 = CHR ''2''"
  "digit_char 3 = CHR ''3''" "digit_char 4 = CHR ''4''" "digit_char 5 = CHR ''5''"
  "digit_char 6 = CHR ''6''" "digit_char 7 = CHR ''7''" "digit_char 8 = CHR ''8''"
  "digit_char 9 = CHR ''9''" "digit_char (Suc 0) = CHR ''1''"
  by (simp_all add: digit_char_def of_byte_def char_of_def bit_0)

lemma replicate_eval [wire_simps]:
  "replicate (numeral k) x = x # replicate (pred_numeral k) x"
  by (simp add: numeral_eq_Suc)

lemmas dec_eval [wire_simps] = dec.simps [of "numeral k" for k] dec.simps [of 0] dec.simps [of 1]
  dec.simps [of "Suc 0"]

lemma dec_not_Nil [simp]: "dec n \<noteq> []"
  by (subst dec.simps) simp

lemma dec_digits: "c \<in> set (dec n) \<Longrightarrow> is_digit c"
proof (induction n rule: dec.induct)
  case (1 n)
  then show ?case
    by (cases "n < 10") (auto simp: dec.simps [of n])
qed

definition digits_value :: "string \<Rightarrow> nat" where
  "digits_value s = foldl (\<lambda>n c. 10 * n + (byte c - 48)) 0 s"

lemma digits_value_snoc [simp]: "digits_value (s @ [c]) = 10 * digits_value s + (byte c - 48)"
  by (simp add: digits_value_def)

lemma digits_value_dec [simp]: "digits_value (dec n) = n"
proof (induction n rule: dec.induct)
  case (1 n)
  show ?case
  proof (cases "n < 10")
    case True
    then show ?thesis by (simp add: dec.simps [of n] digits_value_def)
  next
    case False
    with 1 have "digits_value (dec (n div 10)) = n div 10" by simp
    with False show ?thesis
      by (subst dec.simps) simp
  qed
qed

lemma dec_inj [simp]: "dec m = dec n \<longleftrightarrow> m = n"
  by (metis digits_value_dec)

lemma dec_no_char: "\<not> is_digit c \<Longrightarrow> c \<notin> set (dec n)"
  by (auto dest: dec_digits)

lemma dec_ascii: "c \<in> set (dec n) \<Longrightarrow> byte c < 128"
  by (drule dec_digits) (simp add: is_digit_def)

text \<open>
  \<open>strconv.ParseUint(s, base, bits)\<close>, with the error the loop stops at. No sign and no
  underscore is accepted when the base is given.
\<close>

definition digit_of :: "char \<Rightarrow> nat option" where
  "digit_of c =
     (if 48 \<le> byte c \<and> byte c \<le> 57 then Some (byte c - 48)
      else if 97 \<le> byte c \<and> byte c \<le> 122 then Some (byte c - 97 + 10)
      else if 65 \<le> byte c \<and> byte c \<le> 90 then Some (byte c - 65 + 10)
      else None)"

fun parse_uint_loop :: "nat \<Rightarrow> nat \<Rightarrow> string \<Rightarrow> string \<Rightarrow> nat \<Rightarrow> nat go" where
  "parse_uint_loop base bits s0 [] n = Inr n"
| "parse_uint_loop base bits s0 (c # cs) n =
     (case digit_of c of
        None \<Rightarrow> Inl (NumError ''ParseUint'' s0 ''invalid syntax'')
      | Some d \<Rightarrow>
          if base \<le> d then Inl (NumError ''ParseUint'' s0 ''invalid syntax'')
          else if 2 ^ bits \<le> n * base + d
          then Inl (NumError ''ParseUint'' s0 ''value out of range'')
          else parse_uint_loop base bits s0 cs (n * base + d))"

definition parse_uint :: "nat \<Rightarrow> nat \<Rightarrow> string \<Rightarrow> nat go" where
  "parse_uint base bits s =
     (if s = [] then Inl (NumError ''ParseUint'' s ''invalid syntax'')
      else parse_uint_loop base bits s s 0)"

lemma parse_uint_loop_bound:
  "parse_uint_loop base bits s0 cs n = Inr v \<Longrightarrow> n < 2 ^ bits \<Longrightarrow> v < 2 ^ bits"
  by (induction cs arbitrary: n) (auto split: option.splits if_splits)

lemma parse_uint_bound: "parse_uint base bits s = Inr v \<Longrightarrow> v < 2 ^ bits"
  by (auto simp: parse_uint_def split: if_splits elim!: parse_uint_loop_bound)

lemma digit_of_digit [simp]: "is_digit c \<Longrightarrow> digit_of c = Some (byte c - 48)"
  by (simp add: digit_of_def is_digit_def)

lemma foldl_digits_mono:
  "(n::nat) \<le> foldl (\<lambda>n c. 10 * n + (byte c - 48)) n cs"
proof (induction cs arbitrary: n)
  case Nil
  then show ?case by simp
next
  case (Cons c cs)
  have "n \<le> 10 * n + (byte c - 48)" by simp
  also have "\<dots> \<le> foldl (\<lambda>n c. 10 * n + (byte c - 48)) (10 * n + (byte c - 48)) cs"
    by (rule Cons.IH)
  finally show ?case by simp
qed

lemma parse_uint_loop_digits:
  "\<forall>c\<in>set cs. is_digit c \<Longrightarrow> foldl (\<lambda>n c. 10 * n + (byte c - 48)) n cs < 2 ^ bits \<Longrightarrow>
   parse_uint_loop 10 bits s0 cs n = Inr (foldl (\<lambda>n c. 10 * n + (byte c - 48)) n cs)"
proof (induction cs arbitrary: n)
  case Nil
  then show ?case by simp
next
  case (Cons c cs)
  let ?n = "10 * n + (byte c - 48)"
  have "?n \<le> foldl (\<lambda>n c. 10 * n + (byte c - 48)) ?n cs"
    by (rule foldl_digits_mono)
  with Cons.prems have lt: "?n < 2 ^ bits" by simp
  have d: "byte c - 48 < 10" using Cons.prems by (auto simp: is_digit_def)
  have "parse_uint_loop 10 bits s0 cs ?n = Inr (foldl (\<lambda>n c. 10 * n + (byte c - 48)) ?n cs)"
    using Cons.prems by (intro Cons.IH) auto
  with lt d Cons.prems show ?case
    by (simp add: mult.commute not_le)
qed

lemma parse_uint_loop_Inr:
  "parse_uint_loop 10 bits s0 cs n = Inr v \<Longrightarrow>
     (\<forall>c\<in>set cs. is_digit c) \<and> v = foldl (\<lambda>n c. 10 * n + (byte c - 48)) n cs"
proof (induction cs arbitrary: n)
  case (Cons c cs)
  then obtain d where d: "digit_of c = Some d" "d < 10" "parse_uint_loop 10 bits s0 cs (n * 10 + d) = Inr v"
    by (auto split: option.splits if_splits)
  then have "is_digit c" "d = byte c - 48" by (auto simp: digit_of_def is_digit_def split: if_splits)
  then show ?case using Cons.IH [OF d(3)] by (simp add: mult.commute)
qed simp

lemma parse_uint_iff:
  "parse_uint 10 bits s = Inr v \<longleftrightarrow>
     s \<noteq> [] \<and> (\<forall>c\<in>set s. is_digit c) \<and> digits_value s = v \<and> v < 2 ^ bits"
proof
  assume r: "parse_uint 10 bits s = Inr v"
  then have "s \<noteq> []" "parse_uint_loop 10 bits s s 0 = Inr v"
    by (auto simp: parse_uint_def split: if_splits)
  then show "s \<noteq> [] \<and> (\<forall>c\<in>set s. is_digit c) \<and> digits_value s = v \<and> v < 2 ^ bits"
    using parse_uint_loop_Inr [of bits s s 0 v] parse_uint_bound [OF r] by (simp add: digits_value_def)
next
  assume "s \<noteq> [] \<and> (\<forall>c\<in>set s. is_digit c) \<and> digits_value s = v \<and> v < 2 ^ bits"
  then show "parse_uint 10 bits s = Inr v"
    using parse_uint_loop_digits [of s 0 bits s] by (simp add: parse_uint_def digits_value_def)
qed

lemma parse_uint_dec [simp]: "n < 2 ^ bits \<Longrightarrow> parse_uint 10 bits (dec n) = Inr n"
  using parse_uint_loop_digits [of "dec n" 0 bits "dec n"] digits_value_dec [of n]
  by (auto simp: parse_uint_def digits_value_def dec_digits)

text \<open>\<open>strconv.ParseInt(s, 10, bits)\<close>.\<close>

definition parse_int :: "nat \<Rightarrow> string \<Rightarrow> int go" where
  "parse_int bits s =
     (let neg = (case s of c # _ \<Rightarrow> c = CHR ''-'' | [] \<Rightarrow> False);
          signed = (case s of c # _ \<Rightarrow> c = CHR ''-'' \<or> c = CHR ''+'' | [] \<Rightarrow> False);
          body = (if signed then tl s else s)
      in if s = [] then Inl (NumError ''ParseInt'' s ''invalid syntax'')
         else (case parse_uint 10 bits body of
                 Inl (NumError _ _ why) \<Rightarrow> Inl (NumError ''ParseInt'' s why)
               | Inl e \<Rightarrow> Inl e
               | Inr n \<Rightarrow>
                   if \<not> neg \<and> 2 ^ (bits - 1) \<le> n
                   then Inl (NumError ''ParseInt'' s ''value out of range'')
                   else if neg \<and> 2 ^ (bits - 1) < n
                   then Inl (NumError ''ParseInt'' s ''value out of range'')
                   else Inr (if neg then - int n else int n)))"

lemma int_le_power2_iff [simp]: "int n \<le> 2 ^ k \<longleftrightarrow> n \<le> 2 ^ k"
  by (metis of_nat_le_iff of_nat_numeral of_nat_power)

lemma int_less_power2_iff [simp]: "int n < 2 ^ k \<longleftrightarrow> n < 2 ^ k"
  by (metis of_nat_less_iff of_nat_numeral of_nat_power)

lemma neg_int_bounds: "- int n < 2 ^ k" "- (2 ^ k) \<le> int n"
proof -
  have pos: "(0::int) < 2 ^ k" by simp
  show "- int n < 2 ^ k" using pos by linarith
  show "- (2 ^ k) \<le> int n" using pos by linarith
qed

lemma parse_int_bounds:
  "parse_int bits s = Inr v \<Longrightarrow> - (2 ^ (bits - 1)) \<le> v \<and> v < 2 ^ (bits - 1)"
  by (auto simp: parse_int_def Let_def not_le not_less neg_int_bounds
      split: if_splits sum.splits goerror.splits list.splits)

section \<open>Words and blanks of ASCII text\<close>

lemma trim_space_id:
  assumes "\<forall>c\<in>set s. byte c < 128 \<and> \<not> is_space (byte c)"
    and "\<forall>c\<in>set ws. byte c < 128 \<and> is_space (byte c)"
  shows "trim_space (s @ ws) = s"
proof -
  let ?r = "map (\<lambda>c. (byte c, [c]))"
  let ?sp = "is_space \<circ> fst"
  have r: "runes (s @ ws) = ?r s @ ?r ws"
    using assms by (subst runes_ascii) auto
  have dw: "dropWhile ?sp (?r s @ ?r ws) = (if s = [] then [] else ?r s @ ?r ws)"
    using assms by (cases s) (auto simp: dropWhile_eq_Nil_conv)
  have all: "dropWhile ?sp (rev (?r ws) @ rev (?r s)) = rev (?r s)"
  proof -
    have "dropWhile ?sp (rev (?r ws) @ rev (?r s)) = dropWhile ?sp (rev (?r s))"
      using assms(2) by (subst dropWhile_append2) auto
    also have "\<dots> = rev (?r s)"
      using assms(1) by (cases s rule: rev_cases) auto
    finally show ?thesis .
  qed
  have c: "concat (map snd (?r s)) = s" by (induction s) simp_all
  show ?thesis
  proof (cases "s = []")
    case True
    then show ?thesis unfolding trim_space_def r dw by simp
  next
    case False
    show ?thesis unfolding trim_space_def r dw if_not_P [OF False] rev_append all rev_rev_ident
      by (rule c)
  qed
qed

lemma runes_ascii_append:
  "\<forall>c\<in>set s. byte c < 128 \<Longrightarrow> runes (s @ t) = map (\<lambda>c. (byte c, [c])) s @ runes t"
  by (induction s) auto

text \<open>A word of ASCII characters before a blank is the first field.\<close>

lemma fields_from_word:
  assumes "\<forall>c\<in>set w. \<not> is_space (byte c)"
  shows "fields_from (map (\<lambda>c. (byte c, [c])) w @ rs) cur = fields_from rs (cur @ w)"
  using assms by (induction w arbitrary: cur) auto

lemma split_fields_word:
  assumes "w \<noteq> []" "\<forall>c\<in>set w. byte c < 128 \<and> \<not> is_space (byte c)"
    and "byte b < 128" "is_space (byte b)"
  shows "split_fields (w @ b # rest) = w # split_fields rest"
proof -
  have "runes (w @ b # rest) = map (\<lambda>c. (byte c, [c])) w @ (byte b, [b]) # runes rest"
    using assms by (simp add: runes_ascii_append)
  with assms show ?thesis by (simp add: split_fields_def fields_from_word)
qed

lemma split_fields_last_word:
  assumes "w \<noteq> []" "\<forall>c\<in>set w. byte c < 128 \<and> \<not> is_space (byte c)"
  shows "split_fields w = [w]"
  using assms fields_from_word [of w "[]" "[]"] by (simp add: split_fields_def runes_ascii)

lemma newlines_space:
  assumes "\<forall>c\<in>set ws. c = CHR 0x0A"
  shows "\<forall>c\<in>set ws. byte c < 128 \<and> is_space (byte c)"
proof
  fix c assume "c \<in> set ws"
  with assms have "c = CHR 0x0A" by blast
  then have "byte c = 10" by simp
  then show "byte c < 128 \<and> is_space (byte c)" by (simp add: is_space_def)
qed

lemma digit_not_space: "is_digit c \<Longrightarrow> byte c < 128 \<and> \<not> is_space (byte c)"
  by (auto simp: is_digit_def is_space_def)

text \<open>A decimal text has no leading zero, except that of zero itself.\<close>

lemma hd_dec: "hd (dec n) = CHR ''0'' \<longleftrightarrow> n = 0"
proof (induction n rule: dec.induct)
  case (1 n)
  show ?case
  proof (cases "n < 10")
    case True
    then have "dec n = [digit_char n]" by (simp add: dec.simps [of n])
    moreover have "digit_char n = CHR ''0'' \<longleftrightarrow> n = 0"
      using True byte_digit_char [of n] by (metis add_cancel_left_right byte_Char byte_digit_char digit_char_eval(1) zero_less_numeral)
    ultimately show ?thesis by simp
  next
    case False
    then have "dec n = dec (n div 10) @ [digit_char (n mod 10)]" by (simp add: dec.simps [of n])
    then have "hd (dec n) = hd (dec (n div 10))" by simp
    moreover have "0 < n div 10" using False by (simp add: div_greater_zero_iff)
    ultimately show ?thesis using 1 False by simp
  qed
qed

end
