(* ===== verification/Outcome.thy ===== *)
theory Outcome
  imports GoStrings
begin

text \<open>
  \<open>internal/observe/outcome.go\<close>: the typed result of one acquisition. An outcome is a struct
  with a numeric state and a numeric reason, so malformed values exist (the zero struct is
  one) and \<open>validateOutcome\<close> has real work to do.
\<close>

section \<open>Reasons, states and the outcome struct\<close>

abbreviation (input) reasonUnsupported :: u8 where "reasonUnsupported \<equiv> 1"
abbreviation (input) reasonPermissionDenied :: u8 where "reasonPermissionDenied \<equiv> 2"
abbreviation (input) reasonTemporarilyUnavailable :: u8 where "reasonTemporarilyUnavailable \<equiv> 3"

abbreviation (input) statePresent :: u8 where "statePresent \<equiv> 1"
abbreviation (input) stateUnavailable :: u8 where "stateUnavailable \<equiv> 2"
abbreviation (input) stateDefect :: u8 where "stateDefect \<equiv> 3"

record 'a outcome =
  o_state :: u8
  o_value :: 'a
  o_reason :: u8
  o_cause :: "goerror option"

section \<open>Constructors\<close>

definition present :: "'a \<Rightarrow> 'a outcome" where
  "present v = \<lparr>o_state = statePresent, o_value = v, o_reason = 0, o_cause = None\<rparr>"

definition defect :: "goerror option \<Rightarrow> 'a::zero outcome" where
  "defect cause =
     (let cause' = (case cause of None \<Rightarrow> New ''unspecified internal defect'' | Some e \<Rightarrow> e)
      in \<lparr>o_state = stateDefect, o_value = 0, o_reason = 0, o_cause = Some cause'\<rparr>)"

definition unavailable :: "u8 \<Rightarrow> goerror option \<Rightarrow> 'a::zero outcome" where
  "unavailable reason cause =
     (if reason < reasonUnsupported \<or> reason > reasonTemporarilyUnavailable \<or> cause = None
      then defect (Some (New ''invalid unavailable outcome''))
      else \<lparr>o_state = stateUnavailable, o_value = 0, o_reason = reason, o_cause = cause\<rparr>)"

definition acquisitionFailure :: "goerror option \<Rightarrow> u8 \<Rightarrow> 'a::zero outcome" where
  "acquisitionFailure err missing =
     (case err of
        None \<Rightarrow> defect (Some (New ''acquisition failure has no cause''))
      | Some e \<Rightarrow>
          if errors_is e ErrPermission then unavailable reasonPermissionDenied err
          else if errors_is e ErrNotExist then unavailable missing err
          else unavailable reasonTemporarilyUnavailable err)"

section \<open>Validation\<close>

definition validateOutcome :: "'a outcome \<Rightarrow> goerror option" where
  "validateOutcome v =
     (if o_state v = statePresent then
        (if o_reason v \<noteq> 0 \<or> o_cause v \<noteq> None
         then Some (New ''present outcome carries failure metadata'') else None)
      else if o_state v = stateUnavailable then
        (if o_reason v < reasonUnsupported \<or> o_reason v > reasonTemporarilyUnavailable
            \<or> o_cause v = None
         then Some (New ''unavailable outcome is incomplete'') else None)
      else if o_state v = stateDefect then
        (case o_cause v of
           None \<Rightarrow> Some (New ''defect outcome has no cause'')
         | Some e \<Rightarrow> Some (Wrapf ''collector defect: %w'' [] e))
      else Some (New ''collector returned an unknown outcome state''))"

section \<open>Internal defects\<close>

text \<open>
  \<open>internalDefect\<close> and \<open>isInternalDefect\<close> of \<open>coordinator.go\<close>, shared by the whole
  package; the second is \<open>errors.As\<close> for the wrapper.
\<close>

definition internalDefect :: "goerror option \<Rightarrow> goerror" where
  "internalDefect err =
     InternalDefectError
       (case err of None \<Rightarrow> New ''unspecified internal defect'' | Some e \<Rightarrow> e)"

fun isInternalDefect :: "goerror \<Rightarrow> bool" where
  "isInternalDefect (InternalDefectError e) = True"
| "isInternalDefect (Wrapf f as e) = isInternalDefect e"
| "isInternalDefect (PathError op p e) = isInternalDefect e"
| "isInternalDefect (JoinError es) = (\<exists>e\<in>set es. isInternalDefect e)"
| "isInternalDefect e = False"

lemma internalDefect_is [simp]: "isInternalDefect (internalDefect err)"
  by (simp add: internalDefect_def)

section \<open>Shape of the constructors' results\<close>

definition known_reason :: "u8 \<Rightarrow> bool" where
  "known_reason r \<longleftrightarrow>
     r = reasonUnsupported \<or> r = reasonPermissionDenied \<or> r = reasonTemporarilyUnavailable"

lemma known_reason_simps [simp, outcome_simps]:
  "known_reason 1" "known_reason 2" "known_reason 3" "\<not> known_reason 0"
  by (simp_all add: known_reason_def)

lemma reason_range_iff:
  "(r < reasonUnsupported \<or> r > reasonTemporarilyUnavailable) \<longleftrightarrow> \<not> known_reason r"
proof -
  have "(r < 1 \<or> 3 < r) \<longleftrightarrow> \<not> (unat r = 1 \<or> unat r = 2 \<or> unat r = 3)"
    by (simp add: word_less_nat_alt) arith
  moreover have "unat r = 1 \<longleftrightarrow> r = 1" "unat r = 2 \<longleftrightarrow> r = 2" "unat r = 3 \<longleftrightarrow> r = 3"
    by (auto simp: word_unat_eq_iff)
  ultimately show ?thesis by (simp add: known_reason_def)
qed

text \<open>The two well-formed shapes an outcome that passes validation can have.\<close>

definition is_present :: "'a outcome \<Rightarrow> bool" where
  "is_present v \<longleftrightarrow> o_state v = statePresent"

definition valid_outcome :: "'a outcome \<Rightarrow> bool" where
  "valid_outcome v \<longleftrightarrow>
     (o_state v = statePresent \<and> o_reason v = 0 \<and> o_cause v = None)
     \<or> (o_state v = stateUnavailable \<and> known_reason (o_reason v) \<and> o_cause v \<noteq> None)"

lemma validateOutcome_None_iff: "validateOutcome v = None \<longleftrightarrow> valid_outcome v"
  using reason_range_iff [of "o_reason v"]
  by (auto simp: validateOutcome_def valid_outcome_def split: option.splits)

lemma present_simps [simp, outcome_simps]:
  "o_state (present v) = statePresent" "o_value (present v) = v"
  "o_reason (present v) = 0" "o_cause (present v) = None"
  by (simp_all add: present_def)

lemma defect_simps [simp, outcome_simps]:
  "o_state (defect c) = stateDefect" "o_value (defect c) = 0" "o_reason (defect c) = 0"
  "o_cause (defect c) \<noteq> None"
  by (simp_all add: defect_def Let_def)

lemma unavailable_simps [simp, outcome_simps]:
  "known_reason r \<Longrightarrow> o_state (unavailable r (Some e)) = stateUnavailable"
  "known_reason r \<Longrightarrow> o_value (unavailable r (Some e)) = 0"
  "known_reason r \<Longrightarrow> o_reason (unavailable r (Some e)) = r"
  "known_reason r \<Longrightarrow> o_cause (unavailable r (Some e)) = Some e"
  using reason_range_iff [of r] by (auto simp: unavailable_def)

lemma valid_present [simp, valid_intros]: "valid_outcome (present v)"
  by (simp add: valid_outcome_def)

lemma valid_unavailable [simp, valid_intros]:
  "known_reason r \<Longrightarrow> valid_outcome (unavailable r (Some e))"
  by (simp add: valid_outcome_def)

lemma not_valid_defect [simp]: "\<not> valid_outcome (defect c)"
  by (simp add: valid_outcome_def)

lemma valid_acquisitionFailure [simp, valid_intros]:
  "known_reason missing \<Longrightarrow> valid_outcome (acquisitionFailure (Some e) missing)"
  by (simp add: acquisitionFailure_def)

lemma acquisitionFailure_state [simp]:
  "known_reason missing \<Longrightarrow> o_state (acquisitionFailure (Some e) missing) = stateUnavailable"
  by (simp add: acquisitionFailure_def)

lemma is_present_simps [simp, outcome_simps]:
  "is_present (present v)" "\<not> is_present (defect c)"
  "known_reason r \<Longrightarrow> \<not> is_present (unavailable r (Some e))"
  "known_reason r \<Longrightarrow> \<not> is_present (acquisitionFailure (Some e) r)"
  by (simp_all add: is_present_def)

lemma valid_outcome_not_present:
  "valid_outcome v \<Longrightarrow> o_state v \<noteq> statePresent \<Longrightarrow> known_reason (o_reason v)"
  by (auto simp: valid_outcome_def)

end
