(* ===== verification/Float64.thy ===== *)
theory Float64
  imports Complex_Main GoStrings
begin

text \<open>
  IEEE binary64 values as Go's \<open>float64\<close> uses them: finite values are rationals, rounding is
  to nearest with ties to even, and NaN, the infinities and the negative zero are
  constructors of their own. \<open>strconv.ParseFloat\<close> and the shortest formatting of
  \<open>encoding/json\<close> are modelled as well, because the program parses load averages and prints
  floats into the snapshot body.
\<close>

section \<open>Values and comparisons\<close>

datatype float64 = NaN | PosInf | NegInf | NegZero | Fin rat

instantiation float64 :: zero
begin
definition zero_float64 :: float64 where "zero_float64 = Fin 0"
instance by standard
end

fun fval :: "float64 \<Rightarrow> rat" where
  "fval (Fin r) = r"
| "fval _ = 0"

definition is_NaN :: "float64 \<Rightarrow> bool" where "is_NaN x \<longleftrightarrow> x = NaN"
definition is_Inf :: "float64 \<Rightarrow> bool" where "is_Inf x \<longleftrightarrow> x = PosInf \<or> x = NegInf"

definition finite_float :: "float64 \<Rightarrow> bool" where
  "finite_float x \<longleftrightarrow> \<not> is_NaN x \<and> \<not> is_Inf x"

lemma finite_float_simps [simp]:
  "finite_float (Fin r)" "finite_float NegZero" "\<not> finite_float NaN"
  "\<not> finite_float PosInf" "\<not> finite_float NegInf"
  by (simp_all add: finite_float_def is_NaN_def is_Inf_def)

lemma is_NaN_simps [simp]: "\<not> is_NaN (Fin r)" "\<not> is_Inf (Fin r)"
  by (simp_all add: is_NaN_def is_Inf_def)

text \<open>The operator \<open><\<close> of Go on floats; false when an operand is NaN.\<close>

fun f_less :: "float64 \<Rightarrow> float64 \<Rightarrow> bool" where
  "f_less NaN _ = False"
| "f_less _ NaN = False"
| "f_less NegInf NegInf = False"
| "f_less NegInf _ = True"
| "f_less _ NegInf = False"
| "f_less PosInf _ = False"
| "f_less _ PosInf = True"
| "f_less x y = (fval x < fval y)"

lemma f_less_finite:
  "finite_float x \<Longrightarrow> finite_float y \<Longrightarrow> f_less x y \<longleftrightarrow> fval x < fval y"
  by (cases x; cases y) auto

section \<open>Rounding\<close>

text \<open>Number of digits of a positive number in a base of at least 2.\<close>

fun numlen :: "nat \<Rightarrow> nat \<Rightarrow> nat" where
  "numlen b n = (if b < 2 \<or> n < b then 1 else Suc (numlen b (n div b)))"

declare numlen.simps [simp del]

text \<open>The floor of the logarithm of a positive rational.\<close>

definition ilog :: "nat \<Rightarrow> rat \<Rightarrow> int" where
  "ilog b r =
     (let (p, q) = quotient_of r;
          k = int (numlen b (nat p)) - int (numlen b (nat q))
      in if of_nat b powi k \<le> r then k else k - 1)"

definition round_half_even :: "rat \<Rightarrow> int" where
  "round_half_even x =
     (let f = \<lfloor>x\<rfloor>; d = x - of_int f
      in if d < 1/2 then f else if 1/2 < d then f + 1 else if even f then f else f + 1)"

text \<open>The exponent of the last place of a positive number, and the value rounded to it.\<close>

definition lsb_exp :: "rat \<Rightarrow> int" where
  "lsb_exp r = max (ilog 2 r - 52) (-1074)"

definition round_raw :: "rat \<Rightarrow> rat" where
  "round_raw r =
     (if r \<le> 0 then 0
      else of_int (round_half_even (r / 2 powi lsb_exp r)) * 2 powi lsb_exp r)"

definition round64 :: "bool \<Rightarrow> rat \<Rightarrow> float64" where
  "round64 neg r =
     (let v = round_raw r
      in if 2 ^ 1024 \<le> v then (if neg then NegInf else PosInf)
         else if v = 0 then (if neg then NegZero else Fin 0)
         else Fin (if neg then - v else v))"

definition float_of_nat :: "nat \<Rightarrow> float64" where
  "float_of_nat n = round64 False (of_nat n)"

definition float_of_int :: "int \<Rightarrow> float64" where
  "float_of_int z = round64 (z < 0) (of_int \<bar>z\<bar>)"

definition f_neg :: "float64 \<Rightarrow> bool" where
  "f_neg x \<longleftrightarrow> x = NegInf \<or> x = NegZero \<or> (\<exists>r<0. x = Fin r)"

lemma f_neg_simps [simp, code]:
  "f_neg NegInf" "f_neg NegZero" "f_neg (Fin r) \<longleftrightarrow> r < 0" "\<not> f_neg NaN" "\<not> f_neg PosInf"
  by (auto simp: f_neg_def)

definition signed_inf :: "bool \<Rightarrow> float64" where
  "signed_inf neg = (if neg then NegInf else PosInf)"

definition signed_zero :: "bool \<Rightarrow> float64" where
  "signed_zero neg = (if neg then NegZero else Fin 0)"

definition f_mul :: "float64 \<Rightarrow> float64 \<Rightarrow> float64" where
  "f_mul x y =
     (let s = (f_neg x \<noteq> f_neg y)
      in if is_NaN x \<or> is_NaN y then NaN
         else if is_Inf x \<or> is_Inf y
         then (if (\<not> is_Inf x \<and> fval x = 0) \<or> (\<not> is_Inf y \<and> fval y = 0) then NaN
               else signed_inf s)
         else round64 s \<bar>fval x * fval y\<bar>)"

definition f_div :: "float64 \<Rightarrow> float64 \<Rightarrow> float64" where
  "f_div x y =
     (let s = (f_neg x \<noteq> f_neg y)
      in if is_NaN x \<or> is_NaN y then NaN
         else if is_Inf x then (if is_Inf y then NaN else signed_inf s)
         else if is_Inf y then signed_zero s
         else if fval y = 0 then (if fval x = 0 then NaN else signed_inf s)
         else round64 s \<bar>fval x / fval y\<bar>)"

section \<open>Facts about rounding\<close>

lemma numlen_pos [simp]: "0 < numlen b n"
  by (subst numlen.simps) simp

lemma numlen_bounds:
  assumes "2 \<le> b" "0 < n"
  shows "b ^ (numlen b n - 1) \<le> n \<and> n < b ^ numlen b n"
  using assms
proof (induction b n rule: numlen.induct)
  case (1 b n)
  show ?case
  proof (cases "n < b")
    case True
    with 1 show ?thesis by (simp add: numlen.simps [of b n])
  next
    case False
    let ?m = "n div b"
    from False 1 have m: "0 < ?m" by (simp add: div_greater_zero_iff)
    with False 1 have IH: "b ^ (numlen b ?m - 1) \<le> ?m" "?m < b ^ numlen b ?m" by auto
    have len: "numlen b n = Suc (numlen b ?m)" using False 1 by (simp add: numlen.simps [of b n])
    have "b ^ numlen b ?m = b * b ^ (numlen b ?m - 1)"
      by (metis numlen_pos power_eq_if not_gr_zero)
    also have "\<dots> \<le> b * ?m" using IH by simp
    also have "\<dots> \<le> n" by simp
    finally have lo: "b ^ numlen b ?m \<le> n" .
    have "n < b * Suc ?m" using 1(2)
      by (metis dividend_less_div_times mult_Suc_right add.commute mult.commute less_le_trans
          numeral_2_eq_2 zero_less_Suc)
    also have "\<dots> \<le> b * b ^ numlen b ?m" using IH(2) by (intro mult_le_mono2) simp
    finally show ?thesis using lo len by simp
  qed
qed

lemma ilog_bounds:
  assumes "2 \<le> b" "0 < r"
  shows "of_nat b powi ilog b r \<le> r" and "r < of_nat b powi (ilog b r + 1)"
proof -
  obtain p q where pq: "quotient_of r = (p, q)" by fastforce
  have q0: "0 < q" using quotient_of_denom_pos [OF pq] .
  have r: "r = of_int p / of_int q" using quotient_of_div [OF pq] .
  with assms(2) q0 have p0: "0 < p" by (simp add: zero_less_divide_iff)
  let ?b = "of_nat b :: rat"
  have b: "1 < ?b" using assms(1) by simp
  let ?lp = "numlen b (nat p)" and ?lq = "numlen b (nat q)"
  have P: "?b ^ (?lp - 1) \<le> of_int p" "of_int p < ?b ^ ?lp"
    using numlen_bounds [OF assms(1), of "nat p"] p0
    by (metis (no_types, opaque_lifting) of_nat_le_iff of_nat_nat of_nat_power order_less_imp_le
        of_int_of_nat_eq zero_less_nat_eq)
       (metis (no_types, opaque_lifting) numlen_bounds assms(1) p0 of_nat_less_iff of_nat_nat
        of_nat_power order_less_imp_le of_int_of_nat_eq zero_less_nat_eq)
  have Q: "?b ^ (?lq - 1) \<le> of_int q" "of_int q < ?b ^ ?lq"
    using numlen_bounds [OF assms(1), of "nat q"] q0
    by (metis (no_types, opaque_lifting) of_nat_le_iff of_nat_nat of_nat_power order_less_imp_le
        of_int_of_nat_eq zero_less_nat_eq)
       (metis (no_types, opaque_lifting) numlen_bounds assms(1) q0 of_nat_less_iff of_nat_nat
        of_nat_power order_less_imp_le of_int_of_nat_eq zero_less_nat_eq)
  let ?k = "int ?lp - int ?lq"
  have pw: "?b powi int n = ?b ^ n" for n by simp
  have nz: "?b \<noteq> 0" using b by simp
  have hi: "r < ?b powi (?k + 1)"
  proof -
    have "r < ?b ^ ?lp / ?b ^ (?lq - 1)"
      unfolding r using P Q q0 p0 b
      by (intro frac_less) (auto intro: order_less_imp_le)
    also have "\<dots> = ?b powi (int ?lp - int (?lq - 1))"
      using nz by (simp add: power_int_diff)
    also have "int ?lp - int (?lq - 1) = ?k + 1" by (simp add: of_nat_diff Suc_leI)
    finally show ?thesis .
  qed
  have lo: "?b powi (?k - 1) \<le> r"
  proof -
    have "?k - 1 = int (?lp - 1) - int ?lq" by (simp add: of_nat_diff Suc_leI)
    then have "?b powi (?k - 1) = ?b powi (int (?lp - 1) - int ?lq)" by (rule arg_cong)
    also have "\<dots> = ?b ^ (?lp - 1) / ?b ^ ?lq"
      using nz by (simp add: power_int_diff)
    also have "\<dots> \<le> r"
      unfolding r using P Q q0 p0 b
      by (intro frac_le) (auto intro: order_less_imp_le)
    finally show ?thesis .
  qed
  have k: "ilog b r = (if ?b powi ?k \<le> r then ?k else ?k - 1)"
    by (simp add: ilog_def pq)
  show "?b powi ilog b r \<le> r" using lo k by simp
  show "r < ?b powi (ilog b r + 1)" using hi k by (simp split: if_splits)
qed

lemma ilog_ge: "2 \<le> b \<Longrightarrow> 0 < r \<Longrightarrow> of_nat b powi k \<le> r \<Longrightarrow> k \<le> ilog b r"
proof (rule ccontr)
  assume a: "2 \<le> b" "0 < r" "of_nat b powi k \<le> r" "\<not> k \<le> ilog b r"
  then have "(of_nat b :: rat) powi (ilog b r + 1) \<le> of_nat b powi k"
    by (intro power_int_increasing) auto
  with ilog_bounds(2) [OF a(1,2)] a(3) show False by simp
qed

lemma ilog_less: "2 \<le> b \<Longrightarrow> 0 < r \<Longrightarrow> r < of_nat b powi k \<Longrightarrow> ilog b r < k"
proof (rule ccontr)
  assume a: "2 \<le> b" "0 < r" "r < of_nat b powi k" "\<not> ilog b r < k"
  then have "(of_nat b :: rat) powi k \<le> of_nat b powi (ilog b r)"
    by (intro power_int_increasing) auto
  with ilog_bounds(1) [OF a(1,2)] a(3) show False by simp
qed

lemma ilog_mono: "2 \<le> b \<Longrightarrow> 0 < r \<Longrightarrow> r \<le> s \<Longrightarrow> ilog b r \<le> ilog b s"
  using ilog_bounds(1) [of b r] by (intro ilog_ge) auto

lemma round_half_even_of_int [simp]: "round_half_even (of_int n) = n"
  by (simp add: round_half_even_def)

lemma round_half_even_cases: "round_half_even x = \<lfloor>x\<rfloor> \<or> (round_half_even x = \<lfloor>x\<rfloor> + 1 \<and> of_int \<lfloor>x\<rfloor> < x)"
  by (simp add: round_half_even_def Let_def)

lemma round_half_even_le: "x \<le> of_int n \<Longrightarrow> round_half_even x \<le> n"
  using round_half_even_cases [of x] by linarith

lemma round_half_even_ge: "of_int n \<le> x \<Longrightarrow> n \<le> round_half_even x"
  using round_half_even_cases [of x] by linarith

lemma round_half_even_mono: "x \<le> y \<Longrightarrow> round_half_even x \<le> round_half_even y"
proof -
  assume xy: "x \<le> y"
  show ?thesis
  proof (cases "\<lfloor>x\<rfloor> = \<lfloor>y\<rfloor>")
    case True
    then show ?thesis using xy by (auto simp: round_half_even_def Let_def)
  next
    case False
    with xy have f: "\<lfloor>x\<rfloor> + 1 \<le> \<lfloor>y\<rfloor>" by (meson floor_mono le_less zless_imp_add1_zle)
    have "round_half_even x \<le> \<lfloor>x\<rfloor> + 1" using round_half_even_cases [of x] by auto
    also have "\<dots> \<le> round_half_even y" using f by (intro round_half_even_ge) linarith
    finally show ?thesis .
  qed
qed

lemma two_powi_pos [simp]: "(0::rat) < 2 powi k"
  by simp

lemma lsb_exp_mono: "0 < r \<Longrightarrow> r \<le> s \<Longrightarrow> lsb_exp r \<le> lsb_exp s"
  using ilog_mono [of 2 r s] by (simp add: lsb_exp_def)

text \<open>
  A multiple of \<open>2 powi k\<close> lies on the grid of every number whose last place is at most
  \<open>k\<close>, so rounding does not cross it.
\<close>

lemma grid_multiple:
  assumes "e \<le> k"
  obtains m :: int where "(of_int n * 2 powi k :: rat) / 2 powi e = of_int m"
proof
  have "(2 powi k :: rat) / 2 powi e = 2 powi (k - e)"
    by (simp add: power_int_diff)
  also have "\<dots> = of_int (2 ^ nat (k - e))"
    using assms by (simp add: power_int_def)
  finally show "(of_int n * 2 powi k :: rat) / 2 powi e = of_int (n * 2 ^ nat (k - e))"
    by (metis of_int_mult times_divide_eq_right)
qed

lemma round_raw_le_grid:
  assumes "lsb_exp r \<le> k" "r \<le> of_int n * 2 powi k" "0 \<le> n"
  shows "round_raw r \<le> of_int n * 2 powi k"
proof (cases "r \<le> 0")
  case True
  then show ?thesis using assms(3) by (simp add: round_raw_def)
next
  case False
  let ?e = "lsb_exp r"
  obtain m where m: "(of_int n * 2 powi k :: rat) / 2 powi ?e = of_int m"
    using grid_multiple [OF assms(1)] .
  have "r / 2 powi ?e \<le> of_int m"
    unfolding m [symmetric] using assms(2) by (simp add: divide_right_mono)
  then have "round_half_even (r / 2 powi ?e) \<le> m" by (rule round_half_even_le)
  then have "round_raw r \<le> of_int m * 2 powi ?e"
    using False by (simp add: round_raw_def)
  also have "\<dots> = of_int n * 2 powi k" unfolding m [symmetric] by simp
  finally show ?thesis .
qed

lemma round_raw_ge_grid:
  assumes "0 < r" "lsb_exp r \<le> k" "of_int n * 2 powi k \<le> r"
  shows "of_int n * 2 powi k \<le> round_raw r"
proof -
  let ?e = "lsb_exp r"
  obtain m where m: "(of_int n * 2 powi k :: rat) / 2 powi ?e = of_int m"
    using grid_multiple [OF assms(2)] .
  have "of_int m \<le> r / 2 powi ?e"
    unfolding m [symmetric] using assms(3) by (simp add: divide_right_mono)
  then have "m \<le> round_half_even (r / 2 powi ?e)" by (rule round_half_even_ge)
  then have "of_int m * 2 powi ?e \<le> round_raw r"
    using assms(1) by (simp add: round_raw_def)
  moreover have "(of_int m * 2 powi ?e :: rat) = of_int n * 2 powi k" unfolding m [symmetric] by simp
  ultimately show ?thesis by simp
qed

lemma round_raw_nonneg [simp]: "0 \<le> round_raw r"
proof (cases "r \<le> 0")
  case True
  then show ?thesis by (simp add: round_raw_def)
next
  case False
  then show ?thesis using round_raw_ge_grid [of r "lsb_exp r" 0] by simp
qed

lemma round_raw_not_negative [simp]: "\<not> round_raw r < 0"
  by (simp add: not_less)

lemma round_raw_mono:
  assumes "r \<le> s"
  shows "round_raw r \<le> round_raw s"
proof (cases "r \<le> 0")
  case True
  then have "round_raw r = 0" by (simp add: round_raw_def)
  then show ?thesis by simp
next
  case False
  then have r0: "0 < r" by simp
  with assms have s0: "0 < s" by simp
  show ?thesis
  proof (cases "lsb_exp r = lsb_exp s")
    case True
    have "round_half_even (r / 2 powi lsb_exp s) \<le> round_half_even (s / 2 powi lsb_exp s)"
      using assms by (intro round_half_even_mono divide_right_mono) auto
    then show ?thesis using True r0 s0 by (simp add: round_raw_def)
  next
    case False
    with lsb_exp_mono [OF r0 assms] have less: "lsb_exp r < lsb_exp s" by simp
    let ?k = "ilog 2 s"
    have s: "lsb_exp s = ?k - 52" and rk: "ilog 2 r < ?k"
      using less by (auto simp: lsb_exp_def)
    have "r < 2 powi (ilog 2 r + 1)" using ilog_bounds(2) [of 2 r] r0 by simp
    also have "\<dots> \<le> 2 powi ?k" using rk by (intro power_int_increasing) auto
    finally have "r \<le> of_int 1 * 2 powi ?k" by simp
    then have "round_raw r \<le> of_int 1 * 2 powi ?k"
      using less s by (intro round_raw_le_grid) auto
    also have "\<dots> \<le> round_raw s"
      using ilog_bounds(1) [of 2 s] s0 s by (intro round_raw_ge_grid) auto
    finally show ?thesis .
  qed
qed

text \<open>Integers below \<open>2 ^ 53\<close> are exact.\<close>

lemma round_raw_exact:
  assumes "r = of_int n * 2 powi lsb_exp r" "0 \<le> n"
  shows "round_raw r = r"
proof (cases "r \<le> 0")
  case True
  moreover have "0 \<le> r" by (subst assms(1)) (use assms(2) in simp)
  ultimately show ?thesis by (simp add: round_raw_def)
next
  case False
  have "r / 2 powi lsb_exp r = of_int n" by (subst (1) assms(1)) simp
  with False assms(1) show ?thesis by (simp add: round_raw_def)
qed

lemma round_raw_of_nat:
  assumes "n < 2 ^ 53"
  shows "round_raw (of_nat n) = of_nat n"
proof (cases "n = 0")
  case True
  then show ?thesis by (simp add: round_raw_def)
next
  case False
  let ?r = "of_nat n :: rat"
  have "?r < 2 powi 53"
    using assms by (metis of_nat_less_iff of_nat_numeral of_nat_power power_int_numeral)
  then have "ilog 2 ?r < 53" using False by (intro ilog_less) auto
  then have e: "lsb_exp ?r \<le> 0" by (simp add: lsb_exp_def)
  obtain m where m: "(of_int (int n) * 2 powi 0 :: rat) / 2 powi lsb_exp ?r = of_int m"
    using grid_multiple [OF e] .
  then have *: "?r = of_int m * 2 powi lsb_exp ?r" by (simp add: field_simps)
  have "0 \<le> m" using m by (metis divide_nonneg_pos of_int_0_le_iff of_int_of_nat_eq
        of_nat_0_le_iff power_int_0_right mult_1_right two_powi_pos)
  with * show ?thesis by (intro round_raw_exact)
qed

lemma float_of_nat_exact:
  assumes "n < 2 ^ 53"
  shows "float_of_nat n = Fin (of_nat n)"
proof -
  have "(of_nat n :: rat) < 2 ^ 53"
    using assms by (metis of_nat_less_iff of_nat_numeral of_nat_power)
  also have "\<dots> \<le> 2 ^ 1024" by (intro power_increasing) auto
  finally have "\<not> (2 ^ 1024 \<le> (of_nat n :: rat))" by simp
  with assms show ?thesis
    by (simp add: float_of_nat_def round64_def round_raw_of_nat Let_def)
qed

section \<open>Rounding below the overflow threshold\<close>

lemma round_raw_le_power:
  assumes "r \<le> 2 ^ k"
  shows "round_raw r \<le> 2 ^ k"
proof (cases "r \<le> 0")
  case True
  then show ?thesis by (simp add: round_raw_def)
next
  case False
  have "(2 :: rat) powi (int k + 1) = 2 ^ Suc k"
    using power_int_of_nat [of "2 :: rat" "Suc k"] by (simp add: add.commute)
  moreover have "(2 :: rat) ^ k < 2 ^ Suc k" by (rule power_strict_increasing) simp_all
  ultimately have "r < 2 powi (int k + 1)" using assms by linarith
  then have "ilog 2 r < int k + 1" using False by (intro ilog_less) auto
  then have "lsb_exp r \<le> int k" by (simp add: lsb_exp_def)
  then have "round_raw r \<le> of_int 1 * 2 powi int k"
    using assms by (intro round_raw_le_grid) auto
  then show ?thesis by simp
qed

lemma round64_value:
  assumes "r \<le> 2 ^ 1023"
  shows "finite_float (round64 neg r)"
    "fval (round64 neg r) = (if neg then - round_raw r else round_raw r)"
proof -
  have "round_raw r \<le> 2 ^ 1023" using assms by (rule round_raw_le_power)
  also have "\<dots> < (2 ^ 1024 :: rat)" by (rule power_strict_increasing) simp_all
  finally have lt: "\<not> 2 ^ 1024 \<le> round_raw r" by simp
  show "finite_float (round64 neg r)"
    using lt unfolding round64_def Let_def by simp
  show "fval (round64 neg r) = (if neg then - round_raw r else round_raw r)"
    using lt unfolding round64_def Let_def by simp
qed

lemma power_le_1023: "k \<le> 1023 \<Longrightarrow> r \<le> (2::rat) ^ k \<Longrightarrow> r \<le> 2 ^ 1023"
  by (erule order_trans) (rule power_increasing, simp_all)

lemma f_less_finite_iff:
  assumes "finite_float x" "finite_float y"
  shows "f_less x y \<longleftrightarrow> fval x < fval y"
  using assms by (rule f_less_finite)

end
