(* ===== verification/FloatText.thy ===== *)
theory FloatText
  imports Float64
begin

text \<open>
  \<open>strconv.ParseFloat\<close> for 64-bit floats and the number formatting of \<open>encoding/json\<close>
  (the shortest decimal text that reads back as the same float).
\<close>

section \<open>Parsing\<close>

definition lower :: "char \<Rightarrow> char" where
  "lower c = (if 65 \<le> byte c \<and> byte c \<le> 90 then of_byte (byte c + 32) else c)"

record mantissa_scan =
  ms_mant :: nat
  ms_frac :: nat
  ms_dot :: bool
  ms_digits :: bool
  ms_under :: bool

text \<open>The mantissa loop of \<open>readFloat\<close>: digits, one dot and underscores.\<close>

fun scan_mantissa :: "nat \<Rightarrow> string \<Rightarrow> mantissa_scan \<Rightarrow> mantissa_scan \<times> string" where
  "scan_mantissa base [] m = (m, [])"
| "scan_mantissa base (c # cs) m =
     (if c = CHR ''_'' then scan_mantissa base cs (m\<lparr>ms_under := True\<rparr>)
      else if c = CHR ''.'' then
        (if ms_dot m then (m, c # cs) else scan_mantissa base cs (m\<lparr>ms_dot := True\<rparr>))
      else (case digit_of c of
              Some d \<Rightarrow>
                if d < base
                then scan_mantissa base cs
                       (m\<lparr>ms_mant := ms_mant m * base + d,
                          ms_frac := ms_frac m + (if ms_dot m then 1 else 0),
                          ms_digits := True\<rparr>)
                else (m, c # cs)
            | None \<Rightarrow> (m, c # cs)))"

text \<open>The exponent digits; the value stops growing at 10000.\<close>

fun scan_exponent :: "string \<Rightarrow> nat \<Rightarrow> bool \<Rightarrow> nat \<times> bool \<times> string" where
  "scan_exponent [] e u = (e, u, [])"
| "scan_exponent (c # cs) e u =
     (if is_digit c then scan_exponent cs (if e < 10000 then e * 10 + (byte c - 48) else e) u
      else if c = CHR ''_'' then scan_exponent cs e True
      else (e, u, c # cs))"

text \<open>\<open>underscoreOK\<close>: an underscore stands between digits or after a base prefix.\<close>

fun underscore_loop :: "bool \<Rightarrow> char \<Rightarrow> string \<Rightarrow> bool" where
  "underscore_loop hex prev [] = (prev \<noteq> CHR ''_'')"
| "underscore_loop hex prev (c # cs) =
     (if is_digit c \<or> (hex \<and> byte_in 97 102 (lower c)) then underscore_loop hex CHR ''0'' cs
      else if c = CHR ''_'' then
        (if prev \<noteq> CHR ''0'' then False else underscore_loop hex CHR ''_'' cs)
      else if prev = CHR ''_'' then False
      else underscore_loop hex CHR ''!'' cs)"

definition strip_sign :: "string \<Rightarrow> bool \<times> string" where
  "strip_sign s =
     (case s of
        c # cs \<Rightarrow> if c = CHR ''-'' then (True, cs) else if c = CHR ''+'' then (False, cs)
                  else (False, s)
      | [] \<Rightarrow> (False, s))"

definition base_prefix :: "string \<Rightarrow> char option" where
  "base_prefix s =
     (case s of
        c0 # c1 # _ \<Rightarrow>
          if c0 = CHR ''0'' \<and> (lower c1 = CHR ''b'' \<or> lower c1 = CHR ''o'' \<or> lower c1 = CHR ''x'')
          then Some (lower c1) else None
      | _ \<Rightarrow> None)"

definition underscore_ok :: "string \<Rightarrow> bool" where
  "underscore_ok s =
     (let b = snd (strip_sign s)
      in case base_prefix b of
           Some p \<Rightarrow> underscore_loop (p = CHR ''x'') CHR ''0'' (drop 2 b)
         | None \<Rightarrow> underscore_loop False CHR ''^'' b)"

text \<open>
  \<open>readFloat\<close>: sign, exact value and the unread rest; \<open>None\<close> when the text is not a
  number. A hexadecimal mantissa needs at least one character after \<open>0x\<close> and a binary
  exponent.
\<close>

definition read_exponent :: "char \<Rightarrow> string \<Rightarrow> (int \<times> bool \<times> string) option" where
  "read_exponent ec s =
     (case s of
        c # cs \<Rightarrow>
          if lower c = ec then
            (let (neg, body) = strip_sign cs
             in case body of
                  d # _ \<Rightarrow>
                    if is_digit d
                    then (let (e, u, rest) = scan_exponent body 0 False
                          in Some (if neg then - int e else int e, u, rest))
                    else None
                | [] \<Rightarrow> None)
          else if ec = CHR ''p'' then None else Some (0, False, s)
      | [] \<Rightarrow> if ec = CHR ''p'' then None else Some (0, False, s))"

definition read_float :: "string \<Rightarrow> (bool \<times> rat \<times> string) option" where
  "read_float s =
     (let (neg, body) = strip_sign s;
          hex = (base_prefix body = Some CHR ''x'' \<and> 2 < length body);
          base = (if hex then 16 else 10);
          (m, rest) = scan_mantissa base (if hex then drop 2 body else body)
                        \<lparr>ms_mant = 0, ms_frac = 0, ms_dot = False, ms_digits = False,
                         ms_under = False\<rparr>
      in if \<not> ms_digits m then None
         else case read_exponent (if hex then CHR ''p'' else CHR ''e'') rest of
                None \<Rightarrow> None
              | Some (e, u, rest') \<Rightarrow>
                  if (ms_under m \<or> u)
                     \<and> \<not> underscore_ok (take (length s - length rest') s)
                  then None
                  else Some (neg,
                             of_nat (ms_mant m) / of_nat base ^ ms_frac m
                               * (if hex then 2 else 10) powi e,
                             rest'))"

definition special_float :: "string \<Rightarrow> float64 option" where
  "special_float s =
     (let (neg, body) = strip_sign (map lower s)
      in if map lower s = ''nan'' then Some NaN
         else if body = ''inf'' \<or> body = ''infinity'' then Some (signed_inf neg)
         else None)"

definition parse_float :: "string \<Rightarrow> float64 go" where
  "parse_float s =
     (case special_float s of
        Some x \<Rightarrow> Inr x
      | None \<Rightarrow>
          (case read_float s of
             Some (neg, v, []) \<Rightarrow>
               (let x = round64 neg v
                in if is_Inf x then Inl (NumError ''ParseFloat'' s ''value out of range'')
                   else Inr x)
           | _ \<Rightarrow> Inl (NumError ''ParseFloat'' s ''invalid syntax'')))"

section \<open>Shortest formatting\<close>

text \<open>
  The candidates with \<open>p\<close> significant digits are the two decimals next to the value; the
  shortest one that rounds back to the float is printed, the nearer one if both do.
\<close>

definition decimal_candidate :: "rat \<Rightarrow> nat \<Rightarrow> (nat \<times> int) option" where
  "decimal_candidate r p =
     (let k = ilog 10 r - int (p - 1);
          x = r / 10 powi k;
          ok = (\<lambda>d. round_raw (of_int d * 10 powi k) = r);
          near = round_half_even x; lo = \<lfloor>x\<rfloor>; hi = \<lfloor>x\<rfloor> + 1
      in if ok near then Some (nat near, k)
         else if ok lo then Some (nat lo, k)
         else if ok hi then Some (nat hi, k)
         else None)"

fun shortest_from :: "rat \<Rightarrow> nat \<Rightarrow> nat \<Rightarrow> nat \<times> int" where
  "shortest_from r p 0 = (nat (round_half_even (r / 10 powi (ilog 10 r - 16))), ilog 10 r - 16)"
| "shortest_from r p (Suc n) =
     (case decimal_candidate r p of Some dk \<Rightarrow> dk | None \<Rightarrow> shortest_from r (Suc p) n)"

definition strip_zeros :: "string \<Rightarrow> string" where
  "strip_zeros s = rev (dropWhile (\<lambda>c. c = CHR ''0'') (rev s))"

text \<open>The digits of a positive value and the position of its decimal point.\<close>

definition shortest_digits :: "rat \<Rightarrow> string \<times> int" where
  "shortest_digits r =
     (let (d, k) = shortest_from r 1 17 in (strip_zeros (dec d), int (length (dec d)) + k))"

definition format_fixed :: "string \<Rightarrow> int \<Rightarrow> string" where
  "format_fixed ds dp =
     (if dp \<le> 0 then ''0.'' @ replicate (nat (- dp)) CHR ''0'' @ ds
      else if length ds \<le> nat dp then ds @ replicate (nat dp - length ds) CHR ''0''
      else take (nat dp) ds @ ''.'' @ drop (nat dp) ds)"

text \<open>The exponent form, with the leading zero of a one-digit exponent dropped as the JSON
  encoder does.\<close>

definition format_exp :: "string \<Rightarrow> int \<Rightarrow> string" where
  "format_exp ds dp =
     (let e = dp - 1
      in take 1 ds @ (if length ds = 1 then [] else ''.'' @ drop 1 ds)
         @ (if e < 0 then ''e-'' else ''e+'') @ dec (nat \<bar>e\<bar>))"

definition format_json_float :: "float64 \<Rightarrow> string go" where
  "format_json_float x =
     (case x of
        NegZero \<Rightarrow> Inr ''-0''
      | Fin r \<Rightarrow>
          if r = 0 then Inr ''0''
          else let (ds, dp) = shortest_digits \<bar>r\<bar>;
                   body = (if \<bar>r\<bar> < 1 / 10 ^ 6 \<or> 10 ^ 21 \<le> \<bar>r\<bar> then format_exp ds dp
                           else format_fixed ds dp)
               in Inr (if r < 0 then ''-'' @ body else body)
      | _ \<Rightarrow> Inl (New ''json: unsupported value''))"

end
