(* ===== verification/Json.thy ===== *)
theory Json
  imports FloatText
begin

text \<open>
  The part of \<open>encoding/json\<close> that marshalling the wire structs of the repository uses:
  objects with fixed keys, arrays, strings escaped for HTML, integers, booleans, floats and
  null.
\<close>

datatype json =
    JNull
  | JBool bool
  | JNum string
  | JStr string
  | JArr "json list"
  | JObj "(string \<times> json) list"

definition hex_digit :: "nat \<Rightarrow> char" where
  "hex_digit d = (if d < 10 then of_byte (48 + d) else of_byte (87 + d))"

definition backslash :: char where "backslash = CHR 0x5C"

text \<open>\<open>appendString\<close> with HTML escaping, one rune of the input at a time.\<close>

definition escape_rune :: "nat \<times> string \<Rightarrow> string" where
  "escape_rune rw =
     (let (r, w) = rw in
      if r < 0x80 then
        (if r = 0x22 \<or> r = 0x5C then backslash # w
         else if r = 8 then backslash # ''b''
         else if r = 12 then backslash # ''f''
         else if r = 10 then backslash # ''n''
         else if r = 13 then backslash # ''r''
         else if r = 9 then backslash # ''t''
         else if r < 0x20 \<or> r = 0x3C \<or> r = 0x3E \<or> r = 0x26
         then backslash # ''u00'' @ [hex_digit (r div 16), hex_digit (r mod 16)]
         else w)
      else if r = rune_error \<and> length w = 1 then backslash # ''ufffd''
      else if r = 0x2028 then backslash # ''u2028''
      else if r = 0x2029 then backslash # ''u2029''
      else w)"

definition json_string :: "string \<Rightarrow> string" where
  "json_string s = CHR 0x22 # concat (map escape_rune (runes s)) @ [CHR 0x22]"

fun render :: "json \<Rightarrow> string"
and render_elems :: "json list \<Rightarrow> string"
and render_members :: "(string \<times> json) list \<Rightarrow> string" where
  "render JNull = ''null''"
| "render (JBool b) = (if b then ''true'' else ''false'')"
| "render (JNum s) = s"
| "render (JStr s) = json_string s"
| "render (JArr vs) = ''['' @ render_elems vs @ '']''"
| "render (JObj ms) = ''{'' @ render_members ms @ ''}''"
| "render_elems [] = []"
| "render_elems [v] = render v"
| "render_elems (v # w # vs) = render v @ '','' @ render_elems (w # vs)"
| "render_members [] = []"
| "render_members [(k, v)] = json_string k @ '':'' @ render v"
| "render_members ((k, v) # m # ms) =
     json_string k @ '':'' @ render v @ '','' @ render_members (m # ms)"

section \<open>Pointers as nullable values\<close>

definition json_opt :: "('a \<Rightarrow> json) \<Rightarrow> 'a option \<Rightarrow> json" where
  "json_opt f v = (case v of None \<Rightarrow> JNull | Some x \<Rightarrow> f x)"

definition json_u64 :: "u64 option \<Rightarrow> json" where
  "json_u64 = json_opt (\<lambda>w. JNum (dec (unat w)))"

definition json_bool :: "bool option \<Rightarrow> json" where
  "json_bool = json_opt JBool"

text \<open>A float can fail to marshal: NaN and the infinities have no JSON text.\<close>

definition json_float :: "float64 option \<Rightarrow> json go" where
  "json_float v =
     (case v of
        None \<Rightarrow> Inr JNull
      | Some x \<Rightarrow> map_sum id JNum (format_json_float x))"

lemma json_float_finite:
  "(\<And>x. v = Some x \<Longrightarrow> finite_float x) \<Longrightarrow> \<exists>j. json_float v = Inr j"
  by (cases v; cases "the v")
    (auto simp: json_float_def format_json_float_def Let_def split: prod.splits)

end
