(* ===== verification/GoTime.thy ===== *)
theory GoTime
  imports GoStrings
begin

text \<open>
  \<open>time.Time\<close> as the program uses it: nanoseconds since January 1 of year 1, UTC (the zero
  time), the RFC 3339 text with trailing zeros of the fraction removed, the syntax check of
  \<open>time.Parse\<close> on such texts, and the saturating difference of two times.
\<close>

type_synonym gotime = int

definition nanos_per_second :: int where "nanos_per_second = 1000000000"
definition nanos_per_day :: int where "nanos_per_day = 86400 * nanos_per_second"

definition time_is_zero :: "gotime \<Rightarrow> bool" where
  "time_is_zero t \<longleftrightarrow> t = 0"

text \<open>\<open>Time.Sub\<close> saturates at the bounds of a 64-bit duration.\<close>

definition time_sub :: "gotime \<Rightarrow> gotime \<Rightarrow> int" where
  "time_sub t u = max (- (2 ^ 63)) (min (2 ^ 63 - 1) (t - u))"

section \<open>Calendar dates\<close>

definition leap_year :: "int \<Rightarrow> bool" where
  "leap_year y \<longleftrightarrow> y mod 4 = 0 \<and> (y mod 100 \<noteq> 0 \<or> y mod 400 = 0)"

definition month_lengths :: "bool \<Rightarrow> int list" where
  "month_lengths leap = [31, if leap then 29 else 28, 31, 30, 31, 30, 31, 31, 30, 31, 30, 31]"

fun month_day :: "int list \<Rightarrow> int \<Rightarrow> int \<Rightarrow> int \<times> int" where
  "month_day [] m d = (m, d + 1)"
| "month_day (l # ls) m d = (if d < l \<or> ls = [] then (m, d + 1) else month_day ls (m + 1) (d - l))"

text \<open>Year, month and day of a day number: cycles of 400, 100, 4 and 1 years.\<close>

definition year_day :: "int \<Rightarrow> int \<times> int" where
  "year_day days =
     (let n400 = days div 146097; d = days mod 146097;
          n100 = min 3 (d div 36524); d = d - 36524 * n100;
          n4 = d div 1461; d = d mod 1461;
          n = min 3 (d div 365); d = d - 365 * n
      in (1 + 400 * n400 + 100 * n100 + 4 * n4 + n, d))"

definition civil :: "int \<Rightarrow> int \<times> int \<times> int" where
  "civil days =
     (let (y, d) = year_day days; (m, d) = month_day (month_lengths (leap_year y)) 1 d
      in (y, m, d))"

section \<open>Text\<close>

definition pad :: "nat \<Rightarrow> nat \<Rightarrow> string" where
  "pad w n = replicate (w - length (dec n)) CHR ''0'' @ dec n"

definition pad_int :: "nat \<Rightarrow> int \<Rightarrow> string" where
  "pad_int w n = (if n < 0 then CHR ''-'' # pad w (nat (- n)) else pad w (nat n))"

definition trim_zeros :: "string \<Rightarrow> string" where
  "trim_zeros s = rev (dropWhile (\<lambda>c. c = CHR ''0'') (rev s))"

definition format_rfc3339 :: "gotime \<Rightarrow> string" where
  "format_rfc3339 t =
     (let (y, m, d) = civil (t div nanos_per_day);
          n = t mod nanos_per_day;
          secs = n div nanos_per_second;
          frac = trim_zeros (pad 9 (nat (n mod nanos_per_second)))
      in pad_int 4 y @ ''-'' @ pad_int 2 m @ ''-'' @ pad_int 2 d @ ''T''
         @ pad_int 2 (secs div 3600) @ '':'' @ pad_int 2 (secs div 60 mod 60) @ '':''
         @ pad_int 2 (secs mod 60) @ (if frac = [] then [] else ''.'' @ frac) @ ''Z'')"

text \<open>
  What \<open>time.Parse\<close> checks of a text with zone \<open>Z\<close>, the only zone a formatted UTC time has:
  fixed-width fields in range, an optional fraction, nothing after the zone.
\<close>

definition field_ok :: "string \<Rightarrow> nat \<Rightarrow> nat \<Rightarrow> nat \<Rightarrow> nat \<Rightarrow> bool" where
  "field_ok s pos len lo hi \<longleftrightarrow>
     (let f = go_slice s pos (pos + len)
      in length f = len \<and> list_all is_digit f \<and> lo \<le> digits_value f \<and> digits_value f \<le> hi)"

definition days_in :: "nat \<Rightarrow> nat \<Rightarrow> nat" where
  "days_in y m = nat (month_lengths (leap_year (int y)) ! (m - 1))"

definition parse_rfc3339_ok :: "string \<Rightarrow> bool" where
  "parse_rfc3339_ok s \<longleftrightarrow>
     20 \<le> length s \<and> field_ok s 0 4 0 9999 \<and> s ! 4 = CHR ''-''
     \<and> field_ok s 5 2 1 12 \<and> s ! 7 = CHR ''-''
     \<and> field_ok s 8 2 1 (days_in (digits_value (go_slice s 0 4)) (digits_value (go_slice s 5 7)))
     \<and> s ! 10 = CHR ''T'' \<and> field_ok s 11 2 0 23 \<and> s ! 13 = CHR '':''
     \<and> field_ok s 14 2 0 59 \<and> s ! 16 = CHR '':'' \<and> field_ok s 17 2 0 59
     \<and> (let rest = drop 19 s
        in rest = ''Z''
           \<or> (hd rest = CHR ''.'' \<and> last rest = CHR ''Z'' \<and> 3 \<le> length rest
              \<and> list_all is_digit (butlast (tl rest))))"

section \<open>Dates are valid\<close>

lemma min_div_cycle:
  fixes d k :: int
  assumes "0 \<le> d" "d \<le> 4 * k" "0 < k"
  shows "0 \<le> min 3 (d div k)" "min 3 (d div k) \<le> 3" "0 \<le> d - k * min 3 (d div k)"
    "min 3 (d div k) < 3 \<Longrightarrow> d - k * min 3 (d div k) < k" "d - k * min 3 (d div k) \<le> k"
proof -
  have q0: "0 \<le> d div k" using assms by (simp add: pos_imp_zdiv_nonneg_iff)
  then show "0 \<le> min 3 (d div k)" "min 3 (d div k) \<le> 3" by simp_all
  have r: "d - k * (d div k) = d mod k" by (simp add: minus_mult_div_eq_mod)
  have rb: "0 \<le> d mod k" "d mod k < k" using assms(3) by simp_all
  have "k * 3 \<le> d" if "3 \<le> d div k"
    using mult_left_mono [OF that, of k] assms(3) r rb by linarith
  then show "0 \<le> d - k * min 3 (d div k)" "d - k * min 3 (d div k) \<le> k"
    using r rb assms(2) by (auto simp: min_def)
  show "min 3 (d div k) < 3 \<Longrightarrow> d - k * min 3 (d div k) < k"
    using r rb by (auto simp: min_def split: if_splits)
qed

lemma year_day_bounds:
  assumes "year_day days = (y, d)"
  shows "0 \<le> d \<and> d < (if leap_year y then 366 else 365)"
proof -
  define n400 where "n400 = days div 146097"
  define d1 where "d1 = days mod 146097"
  define n100 where "n100 = min 3 (d1 div 36524)"
  define d2 where "d2 = d1 - 36524 * n100"
  define n4 where "n4 = d2 div 1461"
  define d3 where "d3 = d2 mod 1461"
  define n where "n = min 3 (d3 div 365)"
  have yd: "y = 1 + 400 * n400 + 100 * n100 + 4 * n4 + n" "d = d3 - 365 * n"
  proof -
    have "(1 + 400 * n400 + 100 * n100 + 4 * n4 + n, d3 - 365 * n) = year_day days"
      unfolding year_day_def Let_def n400_def d1_def n100_def d2_def n4_def d3_def n_def
      by (rule refl)
    from trans [OF this assms]
    show "y = 1 + 400 * n400 + 100 * n100 + 4 * n4 + n" "d = d3 - 365 * n" by simp_all
  qed
  have d1: "0 \<le> d1" "d1 < 146097" by (simp_all add: d1_def)
  have n100: "0 \<le> n100" "n100 \<le> 3" "0 \<le> d2" "n100 < 3 \<Longrightarrow> d2 < 36524" "d2 \<le> 36524"
    using min_div_cycle [of d1 36524, folded n100_def, folded d2_def] d1 by simp_all
  have n4: "0 \<le> n4" "n4 \<le> 24" "0 \<le> d3" "d3 < 1461" "n4 = 24 \<Longrightarrow> n100 < 3 \<Longrightarrow> d3 < 1460"
  proof -
    have eq: "d2 = 1461 * n4 + d3" by (simp add: n4_def d3_def)
    show "0 \<le> n4" "n4 \<le> 24" "0 \<le> d3" "d3 < 1461"
      using n100(3,5) by (simp_all add: n4_def d3_def pos_imp_zdiv_nonneg_iff)
    show "n4 = 24 \<Longrightarrow> n100 < 3 \<Longrightarrow> d3 < 1460" using eq n100(4) by linarith
  qed
  have n: "0 \<le> n" "n \<le> 3" "0 \<le> d" "d \<le> 365" "n < 3 \<Longrightarrow> d < 365" "d = 365 \<Longrightarrow> n = 3 \<Longrightarrow> d3 = 1460"
    using min_div_cycle [of d3 365, folded n_def, folded yd(2)] n4 yd(2) by simp_all
  have "leap_year y" if "d = 365"
  proof -
    from that n have n3: "n = 3" by (cases "n < 3") auto
    with that n have "d3 = 1460" by simp
    with n4 have "\<not> (n4 = 24 \<and> n100 < 3)" by auto
    then have c: "n4 < 24 \<or> n100 = 3" using n4 n100 by auto
    have y: "y = 100 * (4 * n400 + n100) + 4 * (n4 + 1)" using n3 yd by simp
    have "y = 4 * (100 * n400 + 25 * n100 + n4 + 1)" using y by simp
    then have "y mod 4 = 0" by simp
    moreover have "y mod 100 \<noteq> 0" if "n4 < 24"
    proof -
      have "y mod 100 = 4 * (n4 + 1) mod 100" unfolding y by (rule mod_mult_self4)
      also have "\<dots> = 4 * (n4 + 1)" using n4(1) that by (intro mod_pos_pos_trivial) auto
      finally show ?thesis using n4(1) by simp
    qed
    moreover have "y mod 400 = 0" if "n4 = 24" "n100 = 3"
    proof -
      have "y = 400 * (n400 + 1)" using that y by simp
      then show ?thesis by simp
    qed
    ultimately show ?thesis using c n4 unfolding leap_year_def by fastforce
  qed
  with n show ?thesis by (cases "d = 365") auto
qed

lemma month_day_valid:
  assumes "0 \<le> d" "d < (if leap then 366 else 365)" "month_day (month_lengths leap) 1 d = (m, k)"
  shows "1 \<le> m \<and> m \<le> 12 \<and> 1 \<le> k \<and> k \<le> month_lengths leap ! (nat m - 1)"
  using assms
  by (cases leap) (auto simp: month_lengths_def split: if_splits)

lemma year_day_year:
  assumes "year_day days = (y, d)" "0 \<le> days" "days < 3652059"
  shows "1 \<le> y \<and> y \<le> 9999"
proof -
  define n400 where "n400 = days div 146097"
  define d1 where "d1 = days mod 146097"
  define n100 where "n100 = min 3 (d1 div 36524)"
  define d2 where "d2 = d1 - 36524 * n100"
  define n4 where "n4 = d2 div 1461"
  define n where "n = min 3 (d2 mod 1461 div 365)"
  have y: "y = 1 + 400 * n400 + 100 * n100 + 4 * n4 + n"
  proof -
    have "(1 + 400 * n400 + 100 * n100 + 4 * n4 + n, d2 mod 1461 - 365 * n) = year_day days"
      unfolding year_day_def Let_def n400_def d1_def n100_def d2_def n4_def n_def
      by (rule refl)
    from trans [OF this assms(1)]
    show "y = 1 + 400 * n400 + 100 * n100 + 4 * n4 + n" by simp
  qed
  have n400: "0 \<le> n400" "n400 \<le> 24" using assms(2,3) by (simp_all add: n400_def)
  have d1: "0 \<le> d1" "d1 < 146097" by (simp_all add: d1_def)
  have d1': "n400 = 24 \<Longrightarrow> d1 \<le> 145730"
  proof -
    have "days = 146097 * n400 + d1" by (simp add: n400_def d1_def)
    then show "n400 = 24 \<Longrightarrow> d1 \<le> 145730" using assms(3) by linarith
  qed
  have n100: "0 \<le> n100" "n100 \<le> 3" "0 \<le> d2" "d2 \<le> 36524" "n100 = 3 \<Longrightarrow> d1 = d2 + 109572"
    using min_div_cycle [of d1 36524, folded n100_def, folded d2_def] d1 d2_def by simp_all
  have n4: "0 \<le> n4" "n4 \<le> 24" using n100 unfolding n4_def by auto
  have n: "0 \<le> n" "n \<le> 3" using n100 unfolding n_def by (auto simp: min_def)
  have last: "n400 = 24 \<Longrightarrow> n100 = 3 \<Longrightarrow> n4 = 24 \<Longrightarrow> n \<le> 2"
  proof -
    assume a: "n400 = 24" "n100 = 3" "n4 = 24"
    then have "d2 \<le> 36158" using d1' n100 by simp
    moreover have "d2 = 1461 * (d2 div 1461) + d2 mod 1461" by simp
    ultimately have "d2 mod 1461 < 1095" using a(3) unfolding n4_def by linarith
    then have "d2 mod 1461 div 365 \<le> 2" by linarith
    then show "n \<le> 2" by (simp add: n_def)
  qed
  show ?thesis
  proof (cases "n400 = 24 \<and> n100 = 3 \<and> n4 = 24")
    case True
    with last have "n \<le> 2" by simp
    with True n show ?thesis unfolding y by simp
  next
    case False
    with n400(2) n100(2) n4(2) have "n400 \<le> 23 \<or> n100 \<le> 2 \<or> n4 \<le> 23" by linarith
    then show ?thesis using n400 n100(1,2) n4 n unfolding y by (elim disjE) simp_all
  qed
qed

section \<open>A formatted time parses\<close>

lemma length_dec_le:
  assumes "n < 10 ^ w" "0 < w"
  shows "length (dec n) \<le> w"
  using assms
proof (induction n arbitrary: w rule: dec.induct)
  case (1 n)
  show ?case
  proof (cases "n < 10")
    case True
    with 1 show ?thesis by (simp add: dec.simps [of n])
  next
    case False
    with 1 obtain v where v: "w = Suc v" "0 < v"
      by (metis One_nat_def gr0_implies_Suc gr_zeroI power_one_right)
    with 1 False have "length (dec (n div 10)) \<le> v"
      by (intro "1.IH") (auto simp: less_mult_imp_div_less mult.commute)
    with False v show ?thesis by (simp add: dec.simps [of n])
  qed
qed

lemma digits_value_zeros [simp]: "digits_value (replicate k CHR ''0'' @ s) = digits_value s"
proof -
  have "foldl (\<lambda>n c. 10 * n + (byte c - 48)) 0 (replicate k CHR ''0'') = (0::nat)"
    by (induction k) auto
  then show ?thesis by (simp add: digits_value_def)
qed

lemma is_digit_zero [simp]: "is_digit CHR ''0''"
  by (simp add: is_digit_def)

lemma pad_props:
  assumes "n < 10 ^ w" "0 < w"
  shows "length (pad w n) = w" "list_all is_digit (pad w n)" "digits_value (pad w n) = n"
  using length_dec_le [OF assms]
  by (auto simp: pad_def list_all_iff dest: dec_digits)

lemma pad_int_props:
  assumes "0 \<le> n" "n < 10 ^ w" "0 < w"
  shows "length (pad_int w n) = w" "list_all is_digit (pad_int w n)"
    "digits_value (pad_int w n) = nat n"
proof -
  have "nat n < 10 ^ w"
    using assms(1,2) by (metis nat_less_numeral_power_cancel_iff)
  with assms show "length (pad_int w n) = w" "list_all is_digit (pad_int w n)"
    "digits_value (pad_int w n) = nat n"
    by (simp_all add: pad_int_def pad_props)
qed

lemma list_all_trim_zeros: "list_all P s \<Longrightarrow> list_all P (trim_zeros s)"
  by (auto simp: trim_zeros_def list_all_iff dest: set_dropWhileD)

text \<open>A text of the shape the formatter produces passes the parser's checks.\<close>

lemma parse_rfc3339_fields:
  assumes "length y = 4" "list_all is_digit y"
    and "length m = 2" "list_all is_digit m" "1 \<le> digits_value m" "digits_value m \<le> 12"
    and "length d = 2" "list_all is_digit d" "1 \<le> digits_value d"
    and "digits_value d \<le> days_in (digits_value y) (digits_value m)"
    and "length hh = 2" "list_all is_digit hh" "digits_value hh \<le> 23"
    and "length mm = 2" "list_all is_digit mm" "digits_value mm \<le> 59"
    and "length ss = 2" "list_all is_digit ss" "digits_value ss \<le> 59"
    and "list_all is_digit frac" and y: "digits_value y \<le> 9999"
  shows "parse_rfc3339_ok (y @ ''-'' @ m @ ''-'' @ d @ ''T'' @ hh @ '':'' @ mm @ '':'' @ ss
           @ (if frac = [] then [] else ''.'' @ frac) @ ''Z'')"
proof -
  let ?t = "(if frac = [] then [] else ''.'' @ frac) @ ''Z''"
  let ?s = "y @ ''-'' @ m @ ''-'' @ d @ ''T'' @ hh @ '':'' @ mm @ '':'' @ ss @ ?t"
  note len = assms(1,3,7,11,14,17)
  have slices: "go_slice ?s 0 4 = y" "go_slice ?s 5 7 = m"
    using len by (simp_all add: go_slice_def)
  have tail: "drop 19 ?s = ?t"
    using len by simp
  have marks: "?s ! 4 = CHR ''-''" "?s ! 7 = CHR ''-''" "?s ! 10 = CHR ''T''"
    "?s ! 13 = CHR '':''" "?s ! 16 = CHR '':''"
    using len by (simp_all add: nth_append)
  have f: "field_ok ?s 0 4 0 9999" "field_ok ?s 5 2 1 12"
    "field_ok ?s 8 2 1 (days_in (digits_value y) (digits_value m))"
    "field_ok ?s 11 2 0 23" "field_ok ?s 14 2 0 59" "field_ok ?s 17 2 0 59"
    using assms by (simp_all add: field_ok_def go_slice_def)
  have "?t = ''Z'' \<or> (hd ?t = CHR ''.'' \<and> last ?t = CHR ''Z'' \<and> 3 \<le> length ?t
          \<and> list_all is_digit (butlast (tl ?t)))"
    using assms(20) by (cases frac) (auto simp: butlast_append)
  then show ?thesis
    unfolding parse_rfc3339_ok_def Let_def slices tail using len marks f by simp
qed

lemma format_rfc3339_parses:
  assumes "0 \<le> t" "t < 3652059 * nanos_per_day"
  shows "parse_rfc3339_ok (format_rfc3339 t)"
proof -
  let ?days = "t div nanos_per_day" and ?n = "t mod nanos_per_day"
  let ?secs = "?n div nanos_per_second"
  have dayb: "0 \<le> ?days" "?days < 3652059"
    using assms by (simp_all add: nanos_per_day_def nanos_per_second_def pos_imp_zdiv_nonneg_iff)
  have secs: "0 \<le> ?secs" "?secs < 86400"
    by (simp_all add: nanos_per_day_def nanos_per_second_def pos_imp_zdiv_nonneg_iff)
  obtain y d where yd: "year_day ?days = (y, d)" by fastforce
  obtain m k where mk: "month_day (month_lengths (leap_year y)) 1 d = (m, k)" by fastforce
  have y: "1 \<le> y" "y \<le> 9999" using year_day_year [OF yd dayb] by auto
  have d: "0 \<le> d" "d < (if leap_year y then 366 else 365)" using year_day_bounds [OF yd] by auto
  note md = month_day_valid [OF d mk]
  have len: "month_lengths (leap_year y) ! (nat m - 1) \<le> 31"
    using md by (auto simp: month_lengths_def nth_Cons' split: if_splits)
  have clock: "0 \<le> ?secs div 3600" "?secs div 3600 < 24" "0 \<le> ?secs div 60 mod 60"
    "?secs div 60 mod 60 < 60" "0 \<le> ?secs mod 60" "?secs mod 60 < 60"
    using secs by (simp_all add: pos_imp_zdiv_nonneg_iff)
  let ?frac = "trim_zeros (pad 9 (nat (?n mod nanos_per_second)))"
  have frac: "list_all is_digit ?frac"
    by (intro list_all_trim_zeros pad_props) (simp_all add: nanos_per_second_def nat_less_iff)
  have f: "length (pad_int 2 k) = 2" "list_all is_digit (pad_int 2 k)"
      "digits_value (pad_int 2 k) = nat k"
    if "0 \<le> k" "k < 100" for k
    using that pad_int_props [of k 2] by simp_all
  have fy: "length (pad_int 4 y) = 4" "list_all is_digit (pad_int 4 y)"
      "digits_value (pad_int 4 y) = nat y"
    using y pad_int_props [of y 4] by simp_all
  have mdn: "1 \<le> nat m" "nat m \<le> 12" "1 \<le> nat k" "nat k \<le> days_in (nat y) (nat m)"
    using y md by (simp_all add: days_in_def nat_le_eq_zle le_nat_iff nat_le_iff)
  have fm: "length (pad_int 2 m) = 2" "list_all is_digit (pad_int 2 m)"
      "digits_value (pad_int 2 m) = nat m"
    and fk: "length (pad_int 2 k) = 2" "list_all is_digit (pad_int 2 k)"
      "digits_value (pad_int 2 k) = nat k"
    using md len by (intro f; linarith)+
  have f24: "length (pad_int 2 u) = 2" "list_all is_digit (pad_int 2 u)"
      "digits_value (pad_int 2 u) \<le> 23" if "0 \<le> u" "u < 24" for u
    using that f [of u] by simp_all
  have f60: "length (pad_int 2 u) = 2" "list_all is_digit (pad_int 2 u)"
      "digits_value (pad_int 2 u) \<le> 59" if "0 \<le> u" "u < 60" for u
    using that f [of u] by simp_all
  have civ: "civil ?days = (y, m, k)" unfolding civil_def yd Let_def prod.case mk ..
  have vm: "1 \<le> digits_value (pad_int 2 m)" "digits_value (pad_int 2 m) \<le> 12"
    and vk: "1 \<le> digits_value (pad_int 2 k)"
      "digits_value (pad_int 2 k) \<le> days_in (digits_value (pad_int 4 y)) (digits_value (pad_int 2 m))"
    and vy: "digits_value (pad_int 4 y) \<le> 9999"
    unfolding fm(3) fk(3) fy(3) using mdn y by (simp_all only: nat_le_iff)
  show ?thesis
    unfolding format_rfc3339_def civ Let_def prod.case
    by (rule parse_rfc3339_fields [OF fy(1,2) fm(1,2) vm fk(1,2) vk
          f24 [OF clock(1,2)] f60 [OF clock(3,4)] f60 [OF clock(5,6)] frac vy])
qed

end
