(* ===== verification/Snapshot.thy ===== *)
theory Snapshot
  imports Json GoTime
begin

text \<open>
  \<open>internal/snapshot/snapshot.go\<close>: the logical snapshot, the wire document, the validation
  that ties every absent metric to one issue, and the encoding into a bounded JSON body.
  Pointers are options; copying a pointer copies the option.
\<close>

section \<open>Constants and data\<close>

definition SchemaVersionText :: string where "SchemaVersionText = ''1.0''"
definition MaximumSize :: nat where "MaximumSize = 64 * 1024"
definition maximumSnapshotInterfaces :: nat where "maximumSnapshotInterfaces = 64"

abbreviation (input) IssueUnsupported :: string where
  "IssueUnsupported \<equiv> ''unsupported''"
abbreviation (input) IssuePermissionDenied :: string where
  "IssuePermissionDenied \<equiv> ''permission_denied''"
abbreviation (input) IssueTemporarilyUnavailable :: string where
  "IssueTemporarilyUnavailable \<equiv> ''temporarily_unavailable''"

record Issue =
  Path :: string
  Code :: string
  Message :: string

record Host =
  Hostname :: string

record CPU =
  UtilizationPercent :: "float64 option"
  LogicalCPUCount :: "u64 option"

record Load =
  OneMinute :: "float64 option"
  FiveMinutes :: "float64 option"
  FifteenMinutes :: "float64 option"

record Memory =
  TotalBytes :: "u64 option"
  AvailableBytes :: "u64 option"
  UsedBytes :: "u64 option"

type_synonym RootFilesystem = Memory

record NetworkInterface =
  Name :: string
  State :: "string option"
  RXBytes :: "u64 option"
  TXBytes :: "u64 option"

record Network =
  Interfaces :: "NetworkInterface list"

record RaspberryPi =
  SoCTemperatureCelsius :: "float64 option"
  ThermalThrottlingActive :: "bool option"
  ThermalThrottlingOccurredSinceBoot :: "bool option"
  UndervoltageActive :: "bool option"
  UndervoltageOccurredSinceBoot :: "bool option"

record Snapshot =
  ObservedAt :: gotime
  SnapHost :: Host
  SnapCPU :: CPU
  SnapLoad :: Load
  SnapMemory :: Memory
  SnapRootFilesystem :: RootFilesystem
  UptimeSeconds :: "u64 option"
  SnapNetwork :: "Network option"
  SnapRaspberryPi :: RaspberryPi
  Issues :: "Issue list"

text \<open>The wire structs have the fields of the logical ones; only the document differs.\<close>

record wireDocument =
  wireSchemaVersion :: string
  wireObservedAt :: string
  wireHost :: Host
  wireCPU :: CPU
  wireLoad :: Load
  wireMemory :: Memory
  wireRootFilesystem :: Memory
  wireUptimeSeconds :: "u64 option"
  wireNetwork :: "Network option"
  wireRaspberryPi :: RaspberryPi
  wireIssues :: "Issue list"

datatype Encoded = Encoded (encoded_body: string)

definition encoded_valid :: "Encoded \<Rightarrow> bool" where
  "encoded_valid e \<longleftrightarrow> length (encoded_body e) \<noteq> 0"

definition encoded_len :: "Encoded \<Rightarrow> nat" where
  "encoded_len e = length (encoded_body e)"

text \<open>The zero value returned beside an error.\<close>

instantiation Encoded :: zero
begin
definition zero_Encoded :: Encoded where "zero_Encoded = Encoded []"
instance by standard
end

section \<open>Field validation\<close>

definition validateAllOrNone :: "string \<Rightarrow> bool list \<Rightarrow> goerror option" where
  "validateAllOrNone name presences =
     (let count = length (filter (\<lambda>v. v) presences)
      in if count \<noteq> 0 \<and> count \<noteq> length presences
         then Some (Errorf ''%s must be entirely present or unavailable'' [FStr name])
         else None)"

definition validateMemory ::
    "string \<Rightarrow> u64 option \<Rightarrow> u64 option \<Rightarrow> u64 option \<Rightarrow> goerror option" where
  "validateMemory name tot available used =
     (case validateAllOrNone name [tot \<noteq> None, available \<noteq> None, used \<noteq> None] of
        Some e \<Rightarrow> Some e
      | None \<Rightarrow>
          (case tot of
             None \<Rightarrow> None
           | Some t \<Rightarrow>
               if the available > t \<or> the used \<noteq> t - the available
               then Some (Errorf ''%s byte values are inconsistent'' [FStr name])
               else None))"

definition validateFinite :: "float64 option \<Rightarrow> string \<Rightarrow> goerror option" where
  "validateFinite v name =
     (case v of
        None \<Rightarrow> None
      | Some x \<Rightarrow> if is_NaN x \<or> is_Inf x then Some (Errorf ''%s must be finite'' [FStr name])
                  else None)"

definition validateFloat ::
    "float64 option \<Rightarrow> float64 \<Rightarrow> float64 \<Rightarrow> string \<Rightarrow> goerror option" where
  "validateFloat v minimum maximum name =
     (case validateFinite v name of
        Some e \<Rightarrow> Some e
      | None \<Rightarrow>
          (case v of
             None \<Rightarrow> None
           | Some x \<Rightarrow> if f_less x minimum \<or> f_less maximum x
                       then Some (Errorf ''%s is outside its valid range'' [FStr name])
                       else None))"

section \<open>Counting usable values and expected issues\<close>

type_synonym tally = "int \<times> string list"

definition countOrIssue :: "bool \<Rightarrow> string \<Rightarrow> tally \<Rightarrow> tally" where
  "countOrIssue prs path t =
     (if prs then (fst t + 1, snd t) else (fst t, snd t @ [path]))"

definition countGroupOrIssue :: "bool \<Rightarrow> int \<Rightarrow> string \<Rightarrow> tally \<Rightarrow> tally" where
  "countGroupOrIssue prs count path t =
     (if prs then (fst t + count, snd t) else (fst t, snd t @ [path]))"

definition interface_prefix :: "nat \<Rightarrow> string" where
  "interface_prefix index = ''/network/interfaces/'' @ dec index @ ''/''"

text \<open>The loop over the interfaces: names, order and states are checked, each interface
  counts itself and its three attributes.\<close>

fun buildInterfaces ::
    "nat \<Rightarrow> string \<Rightarrow> NetworkInterface list \<Rightarrow> tally \<Rightarrow> (NetworkInterface list \<times> tally) go" where
  "buildInterfaces index previousName [] t = Inr ([], t)"
| "buildInterfaces index previousName (n # ns) t =
     (if Name n = [] \<or> \<not> valid_utf8 (Name n)
      then Inl (Errorf ''network interface %d has an invalid name'' [FInt (int index)])
      else if index \<noteq> 0 \<and> \<not> (previousName < Name n)
      then Inl (New ''network interfaces must be uniquely ordered by name'')
      else if State n \<noteq> None \<and> (the (State n) = [] \<or> \<not> valid_utf8 (the (State n)))
      then Inl (Errorf ''network interface %d has an invalid state'' [FInt (int index)])
      else
        (let prefix = interface_prefix index;
             t1 = (fst t + 1, snd t);
             t2 = countOrIssue (State n \<noteq> None) (prefix @ ''state'') t1;
             t3 = countOrIssue (RXBytes n \<noteq> None) (prefix @ ''rx_bytes'') t2;
             t4 = countOrIssue (TXBytes n \<noteq> None) (prefix @ ''tx_bytes'') t3
         in go_bind (buildInterfaces (Suc index) (Name n) ns t4)
              (\<lambda>(rest, t'). Inr (n # rest, t'))))"

definition buildNetwork :: "Network option \<Rightarrow> tally \<Rightarrow> (Network option \<times> tally) go" where
  "buildNetwork network t =
     (case network of
        None \<Rightarrow> Inr (None, (fst t, snd t @ [''/network'']))
      | Some n \<Rightarrow>
          if length (Interfaces n) > maximumSnapshotInterfaces
          then Inl (Errorf ''network has more than %d interfaces''
                     [FInt (int maximumSnapshotInterfaces)])
          else go_bind (buildInterfaces 0 [] (Interfaces n) t)
                 (\<lambda>(is, t'). Inr (Some \<lparr>Interfaces = is\<rparr>, t')))"

section \<open>Building the document\<close>

definition countFixed :: "Snapshot \<Rightarrow> tally" where
  "countFixed input =
     (let r = SnapRaspberryPi input;
          t = (0, []);
          t = countOrIssue (UptimeSeconds input \<noteq> None) ''/uptime_seconds'' t;
          t = countOrIssue (LogicalCPUCount (SnapCPU input) \<noteq> None) ''/cpu/logical_cpu_count'' t;
          t = countGroupOrIssue (OneMinute (SnapLoad input) \<noteq> None) 3 ''/load'' t;
          t = countGroupOrIssue (TotalBytes (SnapMemory input) \<noteq> None) 3 ''/memory'' t;
          t = countGroupOrIssue (TotalBytes (SnapRootFilesystem input) \<noteq> None) 3
                ''/root_filesystem'' t;
          t = countOrIssue (SoCTemperatureCelsius r \<noteq> None)
                ''/raspberry_pi/soc_temperature_celsius'' t;
          t = countOrIssue (ThermalThrottlingActive r \<noteq> None)
                ''/raspberry_pi/thermal_throttling_active'' t;
          t = countOrIssue (ThermalThrottlingOccurredSinceBoot r \<noteq> None)
                ''/raspberry_pi/thermal_throttling_occurred_since_boot'' t;
          t = countOrIssue (UndervoltageActive r \<noteq> None)
                ''/raspberry_pi/undervoltage_active'' t
      in countOrIssue (UndervoltageOccurredSinceBoot r \<noteq> None)
           ''/raspberry_pi/undervoltage_occurred_since_boot'' t)"

definition buildDocument :: "Snapshot \<Rightarrow> (wireDocument \<times> string list \<times> int) go" where
  "buildDocument input =
     (let cpu = SnapCPU input; load = SnapLoad input; mem = SnapMemory input;
          fs = SnapRootFilesystem input; r = SnapRaspberryPi input;
          observedAt = format_rfc3339 (ObservedAt input)
      in if time_is_zero (ObservedAt input) then Inl (New ''observed_at is required'')
         else if Hostname (SnapHost input) = [] \<or> \<not> valid_utf8 (Hostname (SnapHost input))
         then Inl (New ''hostname must be non-empty UTF-8'')
         else if \<not> parse_rfc3339_ok observedAt
         then Inl (Wrapf ''observed_at is not RFC 3339: %w'' [] (New ''parsing time''))
         else
           check (validateFloat (UtilizationPercent cpu) (Fin 0) (Fin 100) ''cpu utilization'')
          (if LogicalCPUCount cpu = Some 0 then Inl (New ''logical CPU count must be positive'')
           else
           check (validateFloat (OneMinute load) (Fin 0) PosInf ''one-minute load'')
          (check (validateFloat (FiveMinutes load) (Fin 0) PosInf ''five-minute load'')
          (check (validateFloat (FifteenMinutes load) (Fin 0) PosInf ''fifteen-minute load'')
          (check (validateFinite (SoCTemperatureCelsius r) ''SoC temperature'')
          (check (validateAllOrNone ''load''
                   [OneMinute load \<noteq> None, FiveMinutes load \<noteq> None, FifteenMinutes load \<noteq> None])
          (check (validateMemory ''memory'' (TotalBytes mem) (AvailableBytes mem) (UsedBytes mem))
          (check (validateMemory ''root filesystem''
                   (TotalBytes fs) (AvailableBytes fs) (UsedBytes fs))
          (check (validateAllOrNone ''firmware flags''
                   [ThermalThrottlingActive r \<noteq> None,
                    ThermalThrottlingOccurredSinceBoot r \<noteq> None,
                    UndervoltageActive r \<noteq> None,
                    UndervoltageOccurredSinceBoot r \<noteq> None])
          (go_bind (buildNetwork (SnapNetwork input) (countFixed input)) (\<lambda>(network, t).
             let t' = countOrIssue (UtilizationPercent cpu \<noteq> None) ''/cpu/utilization_percent'' t
             in Inr
               (\<lparr>wireSchemaVersion = SchemaVersionText, wireObservedAt = observedAt,
                 wireHost = SnapHost input, wireCPU = cpu, wireLoad = load, wireMemory = mem,
                 wireRootFilesystem = fs, wireUptimeSeconds = UptimeSeconds input,
                 wireNetwork = network, wireRaspberryPi = r, wireIssues = []\<rparr>,
                snd t', fst t'))))))))))))"

section \<open>Issues\<close>

definition validIssueCodeText :: "string \<Rightarrow> bool" where
  "validIssueCodeText c \<longleftrightarrow>
     c = IssueUnsupported \<or> c = IssuePermissionDenied \<or> c = IssueTemporarilyUnavailable"

fun validateIssuesFrom :: "nat \<Rightarrow> Issue list \<Rightarrow> string list \<Rightarrow> goerror option" where
  "validateIssuesFrom index (i # is) (p # ps) =
     (if Path i \<noteq> p
      then Some (Errorf ''issue %d path is %q, want %q'' [FInt (int index), FStr (Path i), FStr p])
      else if \<not> validIssueCodeText (Code i)
      then Some (Errorf ''issue %d has invalid code %q'' [FInt (int index), FStr (Code i)])
      else if Message i = [] \<or> \<not> valid_utf8 (Message i)
      then Some (Errorf ''issue %d message must be non-empty UTF-8'' [FInt (int index)])
      else validateIssuesFrom (Suc index) is ps)"
| "validateIssuesFrom index _ _ = None"

definition validateIssues :: "Issue list \<Rightarrow> string list \<Rightarrow> goerror option" where
  "validateIssues issues expected =
     (if length issues \<noteq> length expected
      then Some (Errorf ''issues count is %d, want %d''
                  [FInt (int (length issues)), FInt (int (length expected))])
      else validateIssuesFrom 0 issues expected)"

definition firmware_paths :: "string list" where
  "firmware_paths =
     [''/raspberry_pi/thermal_throttling_active'',
      ''/raspberry_pi/thermal_throttling_occurred_since_boot'',
      ''/raspberry_pi/undervoltage_active'',
      ''/raspberry_pi/undervoltage_occurred_since_boot'']"

fun firmwareIssuesCoherent :: "Issue option \<Rightarrow> Issue list \<Rightarrow> goerror option" where
  "firmwareIssuesCoherent first [] = None"
| "firmwareIssuesCoherent first (i # is) =
     (if Path i \<notin> set firmware_paths then firmwareIssuesCoherent first is
      else case first of
             None \<Rightarrow> firmwareIssuesCoherent (Some i) is
           | Some f \<Rightarrow>
               if Code i \<noteq> Code f \<or> Message i \<noteq> Message f
               then Some (New ''coherent firmware issues must share a code and message'')
               else firmwareIssuesCoherent first is)"

definition validateFirmwareIssues :: "Snapshot \<Rightarrow> goerror option" where
  "validateFirmwareIssues input =
     (if ThermalThrottlingActive (SnapRaspberryPi input) \<noteq> None then None
      else firmwareIssuesCoherent None (Issues input))"

section \<open>Marshalling and encoding\<close>

definition json_interface :: "NetworkInterface \<Rightarrow> json" where
  "json_interface n =
     JObj [(''name'', JStr (Name n)), (''state'', json_opt JStr (State n)),
           (''rx_bytes'', json_u64 (RXBytes n)), (''tx_bytes'', json_u64 (TXBytes n))]"

definition json_memory :: "Memory \<Rightarrow> json" where
  "json_memory m =
     JObj [(''total_bytes'', json_u64 (TotalBytes m)),
           (''available_bytes'', json_u64 (AvailableBytes m)),
           (''used_bytes'', json_u64 (UsedBytes m))]"

definition json_issue :: "Issue \<Rightarrow> json" where
  "json_issue i =
     JObj [(''path'', JStr (Path i)), (''code'', JStr (Code i)), (''message'', JStr (Message i))]"

definition document_json :: "wireDocument \<Rightarrow> json go" where
  "document_json d =
     (let r = wireRaspberryPi d; l = wireLoad d
      in go_bind (json_float (UtilizationPercent (wireCPU d))) (\<lambda>util.
         go_bind (json_float (OneMinute l)) (\<lambda>l1.
         go_bind (json_float (FiveMinutes l)) (\<lambda>l5.
         go_bind (json_float (FifteenMinutes l)) (\<lambda>l15.
         go_bind (json_float (SoCTemperatureCelsius r)) (\<lambda>temp.
           Inr (JObj
             [(''schema_version'', JStr (wireSchemaVersion d)),
              (''observed_at'', JStr (wireObservedAt d)),
              (''host'', JObj [(''hostname'', JStr (Hostname (wireHost d)))]),
              (''cpu'', JObj [(''utilization_percent'', util),
                              (''logical_cpu_count'', json_u64 (LogicalCPUCount (wireCPU d)))]),
              (''load'', JObj [(''one_minute'', l1), (''five_minutes'', l5),
                               (''fifteen_minutes'', l15)]),
              (''memory'', json_memory (wireMemory d)),
              (''root_filesystem'', json_memory (wireRootFilesystem d)),
              (''uptime_seconds'', json_u64 (wireUptimeSeconds d)),
              (''network'', json_opt (\<lambda>n. JObj [(''interfaces'',
                               JArr (map json_interface (Interfaces n)))]) (wireNetwork d)),
              (''raspberry_pi'', JObj
                 [(''soc_temperature_celsius'', temp),
                  (''thermal_throttling_active'', json_bool (ThermalThrottlingActive r)),
                  (''thermal_throttling_occurred_since_boot'',
                     json_bool (ThermalThrottlingOccurredSinceBoot r)),
                  (''undervoltage_active'', json_bool (UndervoltageActive r)),
                  (''undervoltage_occurred_since_boot'',
                     json_bool (UndervoltageOccurredSinceBoot r))]),
              (''issues'', JArr (map json_issue (wireIssues d)))])))))))"

definition marshal :: "wireDocument \<Rightarrow> string go" where
  "marshal d = map_sum id render (document_json d)"

definition Encode :: "Snapshot \<Rightarrow> Encoded go" where
  "Encode input =
     go_bind (buildDocument input) (\<lambda>(document, expectedIssues, usable).
       check (validateIssues (Issues input) expectedIssues)
      (check (validateFirmwareIssues input)
      (if usable = 0 then Inl ErrNoUsefulSnapshot
       else case marshal (document\<lparr>wireIssues := Issues input\<rparr>) of
              Inl e \<Rightarrow> Inl (Wrapf ''encode snapshot: %w'' [] e)
            | Inr body \<Rightarrow>
                if length body > MaximumSize
                then Inl (Errorf ''encoded snapshot is %d bytes, maximum is %d''
                           [FInt (int (length body)), FInt (int MaximumSize)])
                else Inr (Encoded body))))"

section \<open>What an encodable snapshot is\<close>

text \<open>
  The specification the validators are compared with: which values are well formed, which
  paths are missing, and how many values are usable.
\<close>

definition float_in :: "float64 option \<Rightarrow> float64 \<Rightarrow> float64 \<Rightarrow> bool" where
  "float_in v lo hi \<longleftrightarrow>
     (\<forall>x. v = Some x \<longrightarrow> finite_float x \<and> \<not> f_less x lo \<and> \<not> f_less hi x)"

definition memory_ok :: "Memory \<Rightarrow> bool" where
  "memory_ok m \<longleftrightarrow>
     (TotalBytes m = None \<and> AvailableBytes m = None \<and> UsedBytes m = None)
     \<or> (\<exists>t a. TotalBytes m = Some t \<and> AvailableBytes m = Some a \<and> UsedBytes m = Some (t - a) \<and> a \<le> t)"

definition same_presence :: "bool list \<Rightarrow> bool" where
  "same_presence bs \<longleftrightarrow> (\<forall>b\<in>set bs. b) \<or> (\<forall>b\<in>set bs. \<not> b)"

definition interface_ok :: "NetworkInterface \<Rightarrow> bool" where
  "interface_ok n \<longleftrightarrow>
     Name n \<noteq> [] \<and> valid_utf8 (Name n)
     \<and> (\<forall>st. State n = Some st \<longrightarrow> st \<noteq> [] \<and> valid_utf8 st)"

definition network_ok :: "Network option \<Rightarrow> bool" where
  "network_ok nw \<longleftrightarrow>
     (\<forall>n. nw = Some n \<longrightarrow>
        length (Interfaces n) \<le> maximumSnapshotInterfaces
        \<and> (\<forall>i\<in>set (Interfaces n). interface_ok i)
        \<and> sorted_wrt (<) (map Name (Interfaces n)))"

definition snapshot_wf :: "Snapshot \<Rightarrow> bool" where
  "snapshot_wf s \<longleftrightarrow>
     \<not> time_is_zero (ObservedAt s) \<and> parse_rfc3339_ok (format_rfc3339 (ObservedAt s))
     \<and> Hostname (SnapHost s) \<noteq> [] \<and> valid_utf8 (Hostname (SnapHost s))
     \<and> float_in (UtilizationPercent (SnapCPU s)) (Fin 0) (Fin 100)
     \<and> LogicalCPUCount (SnapCPU s) \<noteq> Some 0
     \<and> float_in (OneMinute (SnapLoad s)) (Fin 0) PosInf
     \<and> float_in (FiveMinutes (SnapLoad s)) (Fin 0) PosInf
     \<and> float_in (FifteenMinutes (SnapLoad s)) (Fin 0) PosInf
     \<and> (\<forall>x. SoCTemperatureCelsius (SnapRaspberryPi s) = Some x \<longrightarrow> finite_float x)
     \<and> same_presence [OneMinute (SnapLoad s) \<noteq> None, FiveMinutes (SnapLoad s) \<noteq> None,
                      FifteenMinutes (SnapLoad s) \<noteq> None]
     \<and> memory_ok (SnapMemory s) \<and> memory_ok (SnapRootFilesystem s)
     \<and> same_presence [ThermalThrottlingActive (SnapRaspberryPi s) \<noteq> None,
                      ThermalThrottlingOccurredSinceBoot (SnapRaspberryPi s) \<noteq> None,
                      UndervoltageActive (SnapRaspberryPi s) \<noteq> None,
                      UndervoltageOccurredSinceBoot (SnapRaspberryPi s) \<noteq> None]
     \<and> network_ok (SnapNetwork s)"

definition path_unless :: "bool \<Rightarrow> string \<Rightarrow> string list" where
  "path_unless prs p = (if prs then [] else [p])"

definition missing_interface :: "nat \<Rightarrow> NetworkInterface \<Rightarrow> string list" where
  "missing_interface i n =
     path_unless (State n \<noteq> None) (interface_prefix i @ ''state'')
     @ path_unless (RXBytes n \<noteq> None) (interface_prefix i @ ''rx_bytes'')
     @ path_unless (TXBytes n \<noteq> None) (interface_prefix i @ ''tx_bytes'')"

fun missing_interfaces :: "nat \<Rightarrow> NetworkInterface list \<Rightarrow> string list" where
  "missing_interfaces i [] = []"
| "missing_interfaces i (n # ns) = missing_interface i n @ missing_interfaces (Suc i) ns"

definition missing_fixed :: "Snapshot \<Rightarrow> string list" where
  "missing_fixed s =
     path_unless (UptimeSeconds s \<noteq> None) ''/uptime_seconds''
     @ path_unless (LogicalCPUCount (SnapCPU s) \<noteq> None) ''/cpu/logical_cpu_count''
     @ path_unless (OneMinute (SnapLoad s) \<noteq> None) ''/load''
     @ path_unless (TotalBytes (SnapMemory s) \<noteq> None) ''/memory''
     @ path_unless (TotalBytes (SnapRootFilesystem s) \<noteq> None) ''/root_filesystem''
     @ path_unless (SoCTemperatureCelsius (SnapRaspberryPi s) \<noteq> None)
         ''/raspberry_pi/soc_temperature_celsius''
     @ path_unless (ThermalThrottlingActive (SnapRaspberryPi s) \<noteq> None)
         ''/raspberry_pi/thermal_throttling_active''
     @ path_unless (ThermalThrottlingOccurredSinceBoot (SnapRaspberryPi s) \<noteq> None)
         ''/raspberry_pi/thermal_throttling_occurred_since_boot''
     @ path_unless (UndervoltageActive (SnapRaspberryPi s) \<noteq> None)
         ''/raspberry_pi/undervoltage_active''
     @ path_unless (UndervoltageOccurredSinceBoot (SnapRaspberryPi s) \<noteq> None)
         ''/raspberry_pi/undervoltage_occurred_since_boot''"

definition missing_network :: "Network option \<Rightarrow> string list" where
  "missing_network nw =
     (case nw of None \<Rightarrow> [''/network''] | Some n \<Rightarrow> missing_interfaces 0 (Interfaces n))"

definition missing_paths :: "Snapshot \<Rightarrow> string list" where
  "missing_paths s =
     missing_fixed s @ missing_network (SnapNetwork s)
     @ path_unless (UtilizationPercent (SnapCPU s) \<noteq> None) ''/cpu/utilization_percent''"

definition interface_values :: "NetworkInterface \<Rightarrow> int" where
  "interface_values n =
     1 + of_bool (State n \<noteq> None) + of_bool (RXBytes n \<noteq> None) + of_bool (TXBytes n \<noteq> None)"

definition memory_present :: "Memory \<Rightarrow> bool list" where
  "memory_present m = [TotalBytes m \<noteq> None, AvailableBytes m \<noteq> None, UsedBytes m \<noteq> None]"

text \<open>
  The values of the document outside the network, each a field of its own: its position in the
  list tells whether the snapshot has it.
\<close>

definition present_values :: "Snapshot \<Rightarrow> bool list" where
  "present_values s =
     [UptimeSeconds s \<noteq> None, LogicalCPUCount (SnapCPU s) \<noteq> None,
      UtilizationPercent (SnapCPU s) \<noteq> None]
     @ [OneMinute (SnapLoad s) \<noteq> None, FiveMinutes (SnapLoad s) \<noteq> None,
        FifteenMinutes (SnapLoad s) \<noteq> None]
     @ memory_present (SnapMemory s) @ memory_present (SnapRootFilesystem s)
     @ [SoCTemperatureCelsius (SnapRaspberryPi s) \<noteq> None,
        ThermalThrottlingActive (SnapRaspberryPi s) \<noteq> None,
        ThermalThrottlingOccurredSinceBoot (SnapRaspberryPi s) \<noteq> None,
        UndervoltageActive (SnapRaspberryPi s) \<noteq> None,
        UndervoltageOccurredSinceBoot (SnapRaspberryPi s) \<noteq> None]"

definition usable_values :: "Snapshot \<Rightarrow> int" where
  "usable_values s =
     int (length (filter id (present_values s)))
     + (case SnapNetwork s of None \<Rightarrow> 0 | Some n \<Rightarrow> sum_list (map interface_values (Interfaces n)))"

definition wire_of :: "Snapshot \<Rightarrow> wireDocument" where
  "wire_of s =
     \<lparr>wireSchemaVersion = SchemaVersionText, wireObservedAt = format_rfc3339 (ObservedAt s),
      wireHost = SnapHost s, wireCPU = SnapCPU s, wireLoad = SnapLoad s,
      wireMemory = SnapMemory s, wireRootFilesystem = SnapRootFilesystem s,
      wireUptimeSeconds = UptimeSeconds s, wireNetwork = map_option (\<lambda>n. \<lparr>Interfaces = Interfaces n\<rparr>) (SnapNetwork s),
      wireRaspberryPi = SnapRaspberryPi s, wireIssues = []\<rparr>"

section \<open>The validators decide the specification\<close>

lemma validateFinite_None_iff:
  "validateFinite v name = None \<longleftrightarrow> (\<forall>x. v = Some x \<longrightarrow> finite_float x)"
  by (auto simp: validateFinite_def finite_float_def split: option.splits)

lemma validateFloat_None_iff: "validateFloat v lo hi name = None \<longleftrightarrow> float_in v lo hi"
  by (auto simp: validateFloat_def float_in_def validateFinite_None_iff split: option.splits)
    (auto simp: validateFinite_def finite_float_def split: option.splits if_splits)

lemma length_filter_all_iff: "length (filter P xs) = length xs \<longleftrightarrow> (\<forall>x\<in>set xs. P x)"
  by (metis filter_True length_filter_less less_irrefl)

lemma validateAllOrNone_None_iff: "validateAllOrNone name bs = None \<longleftrightarrow> same_presence bs"
  by (auto simp: validateAllOrNone_def same_presence_def filter_empty_conv length_filter_all_iff)

lemma validateMemory_None_iff:
  "validateMemory name (TotalBytes m) (AvailableBytes m) (UsedBytes m) = None \<longleftrightarrow> memory_ok m"
  by (cases "TotalBytes m"; cases "AvailableBytes m"; cases "UsedBytes m")
    (auto simp: validateMemory_def memory_ok_def validateAllOrNone_def)

lemma tally_simps [simp]:
  "snd (countOrIssue b p t) = snd t @ path_unless b p"
  "fst (countOrIssue b p t) = fst t + of_bool b"
  "snd (countGroupOrIssue b k p t) = snd t @ path_unless b p"
  "fst (countGroupOrIssue b k p t) = fst t + (if b then k else 0)"
  by (simp_all add: countOrIssue_def countGroupOrIssue_def path_unless_def)

lemma snd_countFixed: "snd (countFixed s) = missing_fixed s"
  by (simp add: countFixed_def missing_fixed_def Let_def)

text \<open>The interface loop, from any position: it accepts exactly the ordered, valid lists.\<close>

definition ordered_from :: "nat \<Rightarrow> string \<Rightarrow> NetworkInterface list \<Rightarrow> bool" where
  "ordered_from i prev ns \<longleftrightarrow>
     sorted_wrt (<) (map Name ns) \<and> (i \<noteq> 0 \<longrightarrow> (\<forall>n\<in>set ns. prev < Name n))"

lemma ordered_from_Nil [simp]: "ordered_from i prev []"
  by (simp add: ordered_from_def)

lemma ordered_from_Cons:
  "ordered_from i prev (n # ns) \<longleftrightarrow> (i = 0 \<or> prev < Name n) \<and> ordered_from (Suc i) (Name n) ns"
  by (auto simp: ordered_from_def)

lemma buildInterfaces_ok:
  assumes "\<forall>n\<in>set ns. interface_ok n" "ordered_from i prev ns"
  shows "buildInterfaces i prev ns t =
           Inr (ns, (fst t + sum_list (map interface_values ns), snd t @ missing_interfaces i ns))"
  using assms
proof (induction i prev ns t rule: buildInterfaces.induct)
  case (1 i prev t)
  then show ?case by simp
next
  case (2 i prev n ns t)
  have ok: "interface_ok n" "\<forall>n\<in>set ns. interface_ok n" using 2 by auto
  have ord: "i = 0 \<or> prev < Name n" "ordered_from (Suc i) (Name n) ns"
    using 2 by (auto simp: ordered_from_Cons)
  have nm: "\<not> (Name n = [] \<or> \<not> valid_utf8 (Name n))"
    and o: "\<not> (i \<noteq> 0 \<and> \<not> prev < Name n)"
    and st: "\<not> (State n \<noteq> None \<and> (the (State n) = [] \<or> \<not> valid_utf8 (the (State n))))"
    using ok ord by (auto simp: interface_ok_def)
  show ?case
    using "2.IH" [OF nm o st refl refl refl refl refl ok(2) ord(2)] nm o st
    by (simp add: Let_def missing_interface_def interface_values_def)
qed

lemma buildInterfaces_Inr:
  assumes "buildInterfaces i prev ns t = Inr r"
  shows "(\<forall>n\<in>set ns. interface_ok n) \<and> ordered_from i prev ns"
  using assms
proof (induction i prev ns t arbitrary: r rule: buildInterfaces.induct)
  case (1 i prev t)
  then show ?case by simp
next
  case (2 i prev n ns t)
  have nm: "\<not> (Name n = [] \<or> \<not> valid_utf8 (Name n))"
    by (rule notI) (use "2.prems" in simp)
  have o: "\<not> (i \<noteq> 0 \<and> \<not> prev < Name n)"
    by (rule notI) (use "2.prems" nm in simp)
  have st: "\<not> (State n \<noteq> None \<and> (the (State n) = [] \<or> \<not> valid_utf8 (the (State n))))"
  proof
    assume a: "State n \<noteq> None \<and> (the (State n) = [] \<or> \<not> valid_utf8 (the (State n)))"
    from "2.prems" show False
      unfolding buildInterfaces.simps if_not_P [OF nm] if_not_P [OF o] if_P [OF a] by simp
  qed
  obtain t4 x where "buildInterfaces (Suc i) (Name n) ns t4 = Inr x"
    and t4: "t4 = countOrIssue (TXBytes n \<noteq> None) (interface_prefix i @ ''tx_bytes'')
               (countOrIssue (RXBytes n \<noteq> None) (interface_prefix i @ ''rx_bytes'')
                  (countOrIssue (State n \<noteq> None) (interface_prefix i @ ''state'')
                     (fst t + 1, snd t)))"
    using "2.prems" unfolding buildInterfaces.simps Let_def if_not_P [OF nm] if_not_P [OF o]
      if_not_P [OF st] go_bind_Inr_iff by blast
  then have "(\<forall>n\<in>set ns. interface_ok n) \<and> ordered_from (Suc i) (Name n) ns"
    using "2.IH" [OF nm o st refl refl refl refl refl] by simp
  with nm o st show ?case
    by (auto simp: ordered_from_Cons interface_ok_def)
qed

lemma buildNetwork_ok:
  "network_ok nw \<Longrightarrow>
   buildNetwork nw t =
     Inr (map_option (\<lambda>n. \<lparr>Interfaces = Interfaces n\<rparr>) nw,
          (fst t + (case nw of None \<Rightarrow> 0 | Some n \<Rightarrow> sum_list (map interface_values (Interfaces n))),
           snd t @ missing_network nw))"
  by (cases nw)
    (simp_all add: buildNetwork_def network_ok_def missing_network_def not_less
      buildInterfaces_ok ordered_from_def)

lemma buildNetwork_Inr: "buildNetwork nw t = Inr r \<Longrightarrow> network_ok nw"
  by (cases nw)
    (auto simp: buildNetwork_def network_ok_def go_bind_Inr_iff not_less ordered_from_def
      split: if_splits dest!: buildInterfaces_Inr)

text \<open>
  The groups a well-formed snapshot has are complete, so that counting them whole, as the code
  does, counts every field of them.
\<close>

fun present_count :: "bool list \<Rightarrow> int" where
  "present_count [] = 0"
| "present_count (b # bs) = of_bool b + present_count bs"

lemma present_count_append [simp]: "present_count (xs @ ys) = present_count xs + present_count ys"
  by (induction xs) simp_all

lemma present_count_filter: "int (length (filter id bs)) = present_count bs"
  by (induction bs) auto

lemma group_present:
  "same_presence [a, b, c] \<Longrightarrow>
     present_count [a, b, c] = (if a then 3 else 0)"
  by (auto simp: same_presence_def)

lemma memory_group_present:
  "memory_ok m \<Longrightarrow>
     present_count (memory_present m) = (if TotalBytes m \<noteq> None then 3 else 0)"
  by (auto simp: memory_ok_def memory_present_def)

lemma usable_counted:
  assumes "snapshot_wf s"
  shows "usable_values s =
     fst (countFixed s)
     + (case SnapNetwork s of None \<Rightarrow> 0 | Some n \<Rightarrow> sum_list (map interface_values (Interfaces n)))
     + of_bool (UtilizationPercent (SnapCPU s) \<noteq> None)"
proof -
  have load: "present_count [OneMinute (SnapLoad s) \<noteq> None,
                FiveMinutes (SnapLoad s) \<noteq> None, FifteenMinutes (SnapLoad s) \<noteq> None]
              = (if OneMinute (SnapLoad s) \<noteq> None then 3 else 0)"
    using assms by (intro group_present) (simp add: snapshot_wf_def)
  have mem: "memory_ok (SnapMemory s)" "memory_ok (SnapRootFilesystem s)"
    using assms by (simp_all add: snapshot_wf_def)
  show ?thesis
    unfolding usable_values_def present_count_filter present_values_def present_count_append load
      memory_group_present [OF mem(1)] memory_group_present [OF mem(2)]
    by (simp add: countFixed_def Let_def)
qed

text \<open>The document is built exactly for well-formed snapshots, and then it is the expected one.\<close>

lemma buildDocument_ok:
  assumes "snapshot_wf s"
  shows "buildDocument s = Inr (wire_of s, missing_paths s, usable_values s)"
  using assms
  by (simp add: buildDocument_def snapshot_wf_def Let_def validateFloat_None_iff [THEN iffD2]
      validateFinite_None_iff [THEN iffD2] validateAllOrNone_None_iff [THEN iffD2]
      validateMemory_None_iff [THEN iffD2] buildNetwork_ok wire_of_def missing_paths_def
      usable_counted [OF assms] snd_countFixed)

lemma buildDocument_Inr:
  assumes "buildDocument s = Inr r"
  shows "snapshot_wf s"
  using assms
  by (auto simp: buildDocument_def snapshot_wf_def Let_def check_Inr_iff go_bind_Inr_iff
      validateFloat_None_iff validateFinite_None_iff validateAllOrNone_None_iff
      validateMemory_None_iff split: if_splits dest: buildNetwork_Inr)

section \<open>Issues decide the specification\<close>

definition issue_ok :: "Issue \<Rightarrow> bool" where
  "issue_ok i \<longleftrightarrow> validIssueCodeText (Code i) \<and> Message i \<noteq> [] \<and> valid_utf8 (Message i)"

definition firmware_coherent :: "Issue list \<Rightarrow> bool" where
  "firmware_coherent is \<longleftrightarrow>
     (\<forall>i\<in>set is. \<forall>j\<in>set is. Path i \<in> set firmware_paths \<longrightarrow> Path j \<in> set firmware_paths \<longrightarrow>
        Code i = Code j \<and> Message i = Message j)"

lemma validateIssuesFrom_None_iff:
  "length is = length ps \<Longrightarrow>
   validateIssuesFrom k is ps = None \<longleftrightarrow> map Path is = ps \<and> (\<forall>i\<in>set is. issue_ok i)"
  by (induction k "is" ps rule: validateIssuesFrom.induct) (auto simp: issue_ok_def)

lemma validateIssues_None_iff:
  "validateIssues is ps = None \<longleftrightarrow> map Path is = ps \<and> (\<forall>i\<in>set is. issue_ok i)"
  by (cases "length is = length ps")
    (auto simp: validateIssues_def validateIssuesFrom_None_iff)

lemma firmwareIssuesCoherent_Some_iff:
  "firmwareIssuesCoherent (Some f) is = None \<longleftrightarrow>
     (\<forall>i\<in>set is. Path i \<in> set firmware_paths \<longrightarrow> Code i = Code f \<and> Message i = Message f)"
  by (induction "is") auto

lemma firmwareIssuesCoherent_None_iff:
  "firmwareIssuesCoherent None is = None \<longleftrightarrow> firmware_coherent is"
proof (induction "is")
  case Nil
  then show ?case by (simp add: firmware_coherent_def)
next
  case (Cons i "is")
  then show ?case
    by (cases "Path i \<in> set firmware_paths")
      (auto simp: firmware_coherent_def firmwareIssuesCoherent_Some_iff)
qed

lemma document_json_wf:
  assumes "snapshot_wf s"
  obtains j where "document_json (wire_of s\<lparr>wireIssues := is\<rparr>) = Inr j"
proof -
  have f: "\<exists>j. json_float v = Inr j"
    if "v \<in> {UtilizationPercent (SnapCPU s), OneMinute (SnapLoad s), FiveMinutes (SnapLoad s),
             FifteenMinutes (SnapLoad s), SoCTemperatureCelsius (SnapRaspberryPi s)}" for v
    using that assms by (intro json_float_finite) (auto simp: snapshot_wf_def float_in_def)
  obtain a b c d e where "json_float (UtilizationPercent (SnapCPU s)) = Inr a"
    "json_float (OneMinute (SnapLoad s)) = Inr b" "json_float (FiveMinutes (SnapLoad s)) = Inr c"
    "json_float (FifteenMinutes (SnapLoad s)) = Inr d"
    "json_float (SoCTemperatureCelsius (SnapRaspberryPi s)) = Inr e"
    using f by (metis insertCI)
  then have "\<exists>j. document_json (wire_of s\<lparr>wireIssues := is\<rparr>) = Inr j"
    by (simp add: document_json_def wire_of_def Let_def)
  then show thesis using that by blast
qed

lemma marshal_wf:
  assumes "snapshot_wf s"
  obtains body where "marshal (wire_of s\<lparr>wireIssues := is\<rparr>) = Inr body" "body \<noteq> []"
proof -
  obtain j where j: "document_json (wire_of s\<lparr>wireIssues := is\<rparr>) = Inr j"
    using document_json_wf [OF assms] .
  then have "\<exists>ms. j = JObj ms"
    by (auto simp: document_json_def Let_def go_bind_Inr_iff)
  with j show thesis by (intro that [of "render j"]) (auto simp: marshal_def)
qed

text \<open>Sufficient and necessary conditions of acceptance, and the error of an empty snapshot.\<close>

definition issues_match :: "Snapshot \<Rightarrow> bool" where
  "issues_match s \<longleftrightarrow>
     map Path (Issues s) = missing_paths s \<and> (\<forall>i\<in>set (Issues s). issue_ok i)
     \<and> (ThermalThrottlingActive (SnapRaspberryPi s) = None \<longrightarrow> firmware_coherent (Issues s))"

lemma validators_None_iff:
  "validateIssues (Issues s) (missing_paths s) = None \<and> validateFirmwareIssues s = None
   \<longleftrightarrow> issues_match s"
  by (auto simp: issues_match_def validateIssues_None_iff validateFirmwareIssues_def
      firmwareIssuesCoherent_None_iff)

lemma Encode_useful:
  assumes "snapshot_wf s" "issues_match s" "usable_values s \<noteq> 0"
    and "marshal (wire_of s\<lparr>wireIssues := Issues s\<rparr>) = Inr body" "length body \<le> MaximumSize"
  shows "Encode s = Inr (Encoded body)"
  using assms(2,3) validators_None_iff [of s]
  by (simp add: Encode_def buildDocument_ok [OF assms(1)] assms(4,5) not_less)

lemma Encode_oversized:
  assumes "snapshot_wf s" "issues_match s" "usable_values s \<noteq> 0"
    and "marshal (wire_of s\<lparr>wireIssues := Issues s\<rparr>) = Inr body" "MaximumSize < length body"
  shows "Encode s = Inl (Errorf ''encoded snapshot is %d bytes, maximum is %d''
                           [FInt (int (length body)), FInt (int MaximumSize)])"
  using assms(2,3) validators_None_iff [of s]
  by (simp add: Encode_def buildDocument_ok [OF assms(1)] assms(4,5))

lemma Encode_empty:
  assumes "snapshot_wf s" "issues_match s" "usable_values s = 0"
  shows "Encode s = Inl ErrNoUsefulSnapshot"
  using assms(2,3) validators_None_iff [of s]
  by (simp add: Encode_def buildDocument_ok [OF assms(1)])

lemma Encode_Inr_D:
  assumes "Encode s = Inr e"
  shows "snapshot_wf s" "issues_match s" "usable_values s \<noteq> 0"
    "marshal (wire_of s\<lparr>wireIssues := Issues s\<rparr>) = Inr (encoded_body e)"
    "length (encoded_body e) \<le> MaximumSize"
proof -
  obtain r where "buildDocument s = Inr r"
    using assms by (auto simp: Encode_def go_bind_Inr_iff)
  then show wf: "snapshot_wf s" by (rule buildDocument_Inr)
  note enc = assms [unfolded Encode_def buildDocument_ok [OF wf] go_bind.simps prod.case
      check_Inr_iff]
  then show "issues_match s" using validators_None_iff [of s] by blast
  from enc show "usable_values s \<noteq> 0"
    "marshal (wire_of s\<lparr>wireIssues := Issues s\<rparr>) = Inr (encoded_body e)"
    "length (encoded_body e) \<le> MaximumSize"
    by (auto split: if_splits sum.splits)
qed

section \<open>Paths are distinct\<close>

lemma interface_prefix_inj:
  assumes "interface_prefix i @ a = interface_prefix j @ b"
  shows "i = j \<and> a = b"
proof -
  have e: "dec i @ CHR ''/'' # a = dec j @ CHR ''/'' # b"
    using assms by (simp add: interface_prefix_def)
  have nd: "CHR ''/'' \<notin> set (dec k)" for k
    by (rule dec_no_char) (simp add: is_digit_def)
  have "takeWhile (\<lambda>x. x \<noteq> CHR ''/'') (dec k @ CHR ''/'' # c) = dec k" for k c
    using nd [of k] by (subst takeWhile_append2) auto
  then have "dec i = dec j" using e by metis
  with e show ?thesis by simp
qed

lemma missing_interfaces_paths:
  assumes "p \<in> set (missing_interfaces i ns)"
  obtains k a where "i \<le> k" "k < i + length ns" "p = interface_prefix k @ a"
    "a \<in> {''state'', ''rx_bytes'', ''tx_bytes''}"
  using assms
proof (induction ns arbitrary: i thesis)
  case Nil
  then show ?case by simp
next
  case (Cons n ns)
  from Cons.prems(2) consider "p \<in> set (missing_interface i n)"
    | "p \<in> set (missing_interfaces (Suc i) ns)" by auto
  then show ?case
  proof cases
    case 1
    then show ?thesis
      using Cons.prems(1) [of i] by (auto simp: missing_interface_def path_unless_def split: if_splits)
  next
    case 2
    show ?thesis
    proof (rule Cons.IH [OF _ 2])
      fix k a
      assume "Suc i \<le> k" "k < Suc i + length ns" "p = interface_prefix k @ a"
        "a \<in> {''state'', ''rx_bytes'', ''tx_bytes''}"
      then show thesis by (intro Cons.prems(1) [of k a]) auto
    qed
  qed
qed

lemma distinct_missing_interface: "distinct (missing_interface i n)"
  by (auto simp: missing_interface_def path_unless_def)

lemma distinct_missing_interfaces: "distinct (missing_interfaces i ns)"
proof (induction ns arbitrary: i)
  case Nil
  then show ?case by simp
next
  case (Cons n ns)
  have "set (missing_interface i n) \<inter> set (missing_interfaces (Suc i) ns) = {}"
  proof (rule ccontr)
    assume "set (missing_interface i n) \<inter> set (missing_interfaces (Suc i) ns) \<noteq> {}"
    then obtain p where p: "p \<in> set (missing_interface i n)"
      and q: "p \<in> set (missing_interfaces (Suc i) ns)" by auto
    from p obtain a where "p = interface_prefix i @ a"
      by (auto simp: missing_interface_def path_unless_def split: if_splits)
    with q show False
      by (elim missing_interfaces_paths) (auto dest: interface_prefix_inj)
  qed
  with Cons show ?case by (simp add: distinct_missing_interface)
qed

lemma interface_prefix_neq:
  "interface_prefix k @ a \<noteq> ''/network''"
  "interface_prefix k @ a \<noteq> ''/cpu/utilization_percent''"
  "interface_prefix k @ a \<noteq> ''/host/hostname''"
  by (simp_all add: interface_prefix_def)

definition fixed_paths :: "string list" where
  "fixed_paths =
     [''/uptime_seconds'', ''/cpu/logical_cpu_count'', ''/load'', ''/memory'', ''/root_filesystem'',
      ''/raspberry_pi/soc_temperature_celsius''] @ firmware_paths"

text \<open>Dropping the paths of present metrics keeps membership, distinctness and length.\<close>

fun unless_paths :: "bool list \<Rightarrow> string list \<Rightarrow> string list" where
  "unless_paths (b # bs) (p # ps) = path_unless b p @ unless_paths bs ps"
| "unless_paths _ _ = []"

lemma set_path_unless: "set (path_unless b p) \<subseteq> {p}" "distinct (path_unless b p)"
    "length (path_unless b p) \<le> 1"
  by (simp_all add: path_unless_def)

lemma set_unless_paths: "set (unless_paths bs ps) \<subseteq> set ps"
  using set_path_unless(1) by (induction bs ps rule: unless_paths.induct) fastforce+

lemma distinct_unless_paths: "distinct ps \<Longrightarrow> distinct (unless_paths bs ps)"
  using set_path_unless set_unless_paths
  by (induction bs ps rule: unless_paths.induct) (simp_all, blast)

lemma length_unless_paths: "length (unless_paths bs ps) \<le> length ps"
proof (induction bs ps rule: unless_paths.induct)
  case (1 b bs p ps)
  then show ?case using set_path_unless(3) [of b p] by simp
qed simp_all

lemma missing_fixed_unless: "\<exists>bs. missing_fixed s = unless_paths bs fixed_paths"
proof
  let ?r = "SnapRaspberryPi s"
  show "missing_fixed s =
    unless_paths
      [UptimeSeconds s \<noteq> None, LogicalCPUCount (SnapCPU s) \<noteq> None,
       OneMinute (SnapLoad s) \<noteq> None, TotalBytes (SnapMemory s) \<noteq> None,
       TotalBytes (SnapRootFilesystem s) \<noteq> None, SoCTemperatureCelsius ?r \<noteq> None,
       ThermalThrottlingActive ?r \<noteq> None, ThermalThrottlingOccurredSinceBoot ?r \<noteq> None,
       UndervoltageActive ?r \<noteq> None, UndervoltageOccurredSinceBoot ?r \<noteq> None] fixed_paths"
    by (simp only: missing_fixed_def fixed_paths_def firmware_paths_def unless_paths.simps
        append.simps append_Nil2)
qed

lemma distinct_missing_fixed: "distinct (missing_fixed s)"
proof -
  have "distinct fixed_paths" by (simp add: fixed_paths_def firmware_paths_def)
  then show ?thesis using missing_fixed_unless [of s] distinct_unless_paths by metis
qed

lemma set_missing_fixed: "set (missing_fixed s) \<subseteq> set fixed_paths"
  using missing_fixed_unless [of s] set_unless_paths by metis

lemma interface_prefix_not_fixed: "interface_prefix k @ a \<notin> set fixed_paths"
  by (simp add: interface_prefix_def fixed_paths_def firmware_paths_def)

lemma set_missing_network:
  "p \<in> set (missing_network nw) \<Longrightarrow> p = ''/network'' \<or> (\<exists>k a. p = interface_prefix k @ a)"
  by (auto simp: missing_network_def split: option.splits elim!: missing_interfaces_paths)

lemma distinct_missing_network: "distinct (missing_network nw)"
  by (simp add: missing_network_def distinct_missing_interfaces split: option.splits)

lemma distinct_missing_paths: "distinct (missing_paths s)"
proof -
  have "set (missing_fixed s) \<inter> set (missing_network (SnapNetwork s)) = {}"
  proof -
    have "''/network'' \<notin> set fixed_paths" by (simp add: fixed_paths_def firmware_paths_def)
    then have "p \<notin> set fixed_paths" if "p \<in> set (missing_network (SnapNetwork s))" for p
      using set_missing_network [OF that] interface_prefix_not_fixed by blast
    then show ?thesis using set_missing_fixed [of s] by blast
  qed
  moreover have "''/cpu/utilization_percent'' \<notin> set (missing_fixed s)"
    using set_missing_fixed [of s] by (auto simp: fixed_paths_def firmware_paths_def)
  moreover have "''/cpu/utilization_percent'' \<notin> set (missing_network (SnapNetwork s))"
  proof
    assume "''/cpu/utilization_percent'' \<in> set (missing_network (SnapNetwork s))"
    from set_missing_network [OF this] show False
    proof (elim disjE exE)
      fix k a
      assume "''/cpu/utilization_percent'' = interface_prefix k @ a"
      then show False using interface_prefix_neq(2) [of k a] by (rule notE [OF _ sym, rotated])
    qed simp
  qed
  ultimately show ?thesis
    by (simp add: missing_paths_def path_unless_def distinct_missing_fixed distinct_missing_network)
qed

lemma length_missing_interfaces: "length (missing_interfaces i ns) \<le> 3 * length ns"
  by (induction i ns rule: missing_interfaces.induct)
    (auto simp: missing_interface_def path_unless_def)

lemma length_missing_fixed: "length (missing_fixed s) \<le> 10"
proof -
  have "length fixed_paths = 10" by (simp add: fixed_paths_def firmware_paths_def)
  then show ?thesis using missing_fixed_unless [of s] length_unless_paths by metis
qed

lemma length_missing_paths:
  assumes "network_ok (SnapNetwork s)"
  shows "length (missing_paths s) \<le> 203"
proof -
  have "length (missing_network (SnapNetwork s)) \<le> 192"
  proof (cases "SnapNetwork s")
    case None
    then show ?thesis by (simp add: missing_network_def)
  next
    case (Some n)
    with assms have "length (Interfaces n) \<le> 64"
      by (simp add: network_ok_def maximumSnapshotInterfaces_def)
    with Some length_missing_interfaces [of 0 "Interfaces n"] show ?thesis
      by (simp add: missing_network_def)
  qed
  with length_missing_fixed [of s] show ?thesis
    by (simp add: missing_paths_def path_unless_def)
qed

section \<open>Errors of the validators are text errors\<close>

definition text_error :: "goerror \<Rightarrow> bool" where
  "text_error e \<longleftrightarrow> (\<exists>t. e = New t) \<or> (\<exists>f a. e = Errorf f a) \<or> (\<exists>f a t. e = Wrapf f a (New t))"

lemma text_error_not_useful: "text_error e \<Longrightarrow> \<not> errors_is e ErrNoUsefulSnapshot"
  by (auto simp: text_error_def)

lemma text_error_simps [simp]:
  "text_error (New t)" "text_error (Errorf f a)" "text_error (Wrapf f a (New t))"
  by (auto simp: text_error_def)

lemma validator_text_errors:
  "validateAllOrNone name bs = Some e \<Longrightarrow> text_error e"
  "validateMemory name t a u = Some e \<Longrightarrow> text_error e"
  "validateFinite v name = Some e \<Longrightarrow> text_error e"
  "validateFloat v lo hi name = Some e \<Longrightarrow> text_error e"
  by (auto simp: validateAllOrNone_def validateMemory_def validateFinite_def validateFloat_def
      Let_def split: if_splits option.splits)

lemma validateIssuesFrom_text_error: "validateIssuesFrom k is ps = Some e \<Longrightarrow> text_error e"
  by (induction k "is" ps rule: validateIssuesFrom.induct) (auto split: if_splits)

lemma firmwareIssuesCoherent_text_error:
  "firmwareIssuesCoherent f is = Some e \<Longrightarrow> text_error e"
  by (induction "is" arbitrary: f) (auto split: if_splits option.splits)

lemma issue_text_errors:
  "validateIssues is ps = Some e \<Longrightarrow> text_error e"
  "validateFirmwareIssues s = Some e \<Longrightarrow> text_error e"
  by (auto simp: validateIssues_def validateFirmwareIssues_def split: if_splits
      dest: validateIssuesFrom_text_error firmwareIssuesCoherent_text_error)

lemma buildInterfaces_text_error: "buildInterfaces i prev ns t = Inl e \<Longrightarrow> text_error e"
proof (induction ns arbitrary: i prev t)
  case Nil
  then show ?case by simp
next
  case (Cons n ns)
  show ?case
    using Cons.prems unfolding buildInterfaces.simps Let_def
    by (auto simp: go_bind_Inl_iff split: if_split_asm dest: Cons.IH simp del: split_paired_Ex)
qed

lemma buildNetwork_text_error: "buildNetwork nw t = Inl e \<Longrightarrow> text_error e"
  by (auto simp: buildNetwork_def go_bind_Inl_iff split: option.splits if_splits
      dest: buildInterfaces_text_error)

lemma buildDocument_text_error: "buildDocument s = Inl e \<Longrightarrow> text_error e"
  by (auto simp: buildDocument_def Let_def check_Inl_iff go_bind_Inl_iff split: if_splits
      dest: validator_text_errors buildNetwork_text_error)

section \<open>The encoder as an interface\<close>

text \<open>
  What a client of the encoder relies on: a well-formed snapshot with matching issues is
  encoded when it has a usable value and fits, and is reported as not useful when it has none.
\<close>

locale snapshot_encoder =
  fixes enc :: "Snapshot \<Rightarrow> Encoded go"
    and fits :: "Snapshot \<Rightarrow> bool"
  assumes enc_useful:
      "snapshot_wf s \<Longrightarrow> issues_match s \<Longrightarrow> usable_values s \<noteq> 0 \<Longrightarrow> fits s \<Longrightarrow>
       \<exists>e. enc s = Inr e \<and> encoded_valid e \<and> encoded_len e \<le> MaximumSize"
    and enc_empty:
      "snapshot_wf s \<Longrightarrow> issues_match s \<Longrightarrow> usable_values s = 0 \<Longrightarrow>
       enc s = Inl ErrNoUsefulSnapshot"
    and enc_bounded: "enc s = Inr e \<Longrightarrow> encoded_valid e \<and> encoded_len e \<le> MaximumSize"
begin

lemma enc_total:
  assumes "snapshot_wf s" "issues_match s" "fits s"
  shows "enc s = Inl ErrNoUsefulSnapshot
         \<or> (\<exists>e. enc s = Inr e \<and> encoded_valid e \<and> encoded_len e \<le> MaximumSize)"
  using enc_useful [OF assms(1,2) _ assms(3)] enc_empty [OF assms(1,2)] by blast

end

definition encodes_within :: "Snapshot \<Rightarrow> bool" where
  "encodes_within s \<longleftrightarrow>
     (case marshal (wire_of s\<lparr>wireIssues := Issues s\<rparr>) of
        Inl e \<Rightarrow> False | Inr body \<Rightarrow> length body \<le> MaximumSize)"

lemma Encode_bounded:
  assumes "Encode s = Inr e"
  shows "encoded_valid e \<and> encoded_len e \<le> MaximumSize"
  using Encode_Inr_D [OF assms] marshal_wf [of s "Issues s"]
  by (auto simp: encoded_valid_def encoded_len_def)

interpretation encode: snapshot_encoder Encode encodes_within
proof
  fix s
  assume s: "snapshot_wf s" "issues_match s" "usable_values s \<noteq> 0" "encodes_within s"
  obtain body where "marshal (wire_of s\<lparr>wireIssues := Issues s\<rparr>) = Inr body" "body \<noteq> []"
    using marshal_wf [OF s(1)] .
  with s show "\<exists>e. Encode s = Inr e \<and> encoded_valid e \<and> encoded_len e \<le> MaximumSize"
    by (auto simp: encodes_within_def Encode_useful encoded_valid_def encoded_len_def)
qed (fact Encode_empty, fact Encode_bounded)

section \<open>A snapshot for the witnesses\<close>

definition example_issue :: "string \<Rightarrow> Issue" where
  "example_issue p =
     \<lparr>Path = p, Code = ''unsupported'',
      Message = ''The metric is unsupported on this platform.''\<rparr>"

definition example_snapshot :: Snapshot where
  "example_snapshot =
     \<lparr>ObservedAt = 63900000000000000123, SnapHost = \<lparr>Hostname = ''pi''\<rparr>,
      SnapCPU = \<lparr>UtilizationPercent = None, LogicalCPUCount = Some 4\<rparr>,
      SnapLoad = \<lparr>OneMinute = None, FiveMinutes = None, FifteenMinutes = None\<rparr>,
      SnapMemory =
        \<lparr>TotalBytes = Some 1000, AvailableBytes = Some 400, UsedBytes = Some 600\<rparr>,
      SnapRootFilesystem = \<lparr>TotalBytes = None, AvailableBytes = None, UsedBytes = None\<rparr>,
      UptimeSeconds = Some 12,
      SnapNetwork =
        Some \<lparr>Interfaces =
          [\<lparr>Name = ''eth0'', State = Some ''up'', RXBytes = Some 7, TXBytes = None\<rparr>]\<rparr>,
      SnapRaspberryPi =
        \<lparr>SoCTemperatureCelsius = None, ThermalThrottlingActive = None,
         ThermalThrottlingOccurredSinceBoot = None, UndervoltageActive = None,
         UndervoltageOccurredSinceBoot = None\<rparr>,
      Issues =
        map example_issue
          [''/load'', ''/root_filesystem'', ''/raspberry_pi/soc_temperature_celsius'',
           ''/raspberry_pi/thermal_throttling_active'',
           ''/raspberry_pi/thermal_throttling_occurred_since_boot'',
           ''/raspberry_pi/undervoltage_active'',
           ''/raspberry_pi/undervoltage_occurred_since_boot'',
           ''/network/interfaces/0/tx_bytes'', ''/cpu/utilization_percent'']\<rparr>"

lemma example_snapshot_wf: "snapshot_wf example_snapshot"
proof -
  have "parse_rfc3339_ok (format_rfc3339 63900000000000000123)"
    by (rule format_rfc3339_parses) (simp_all add: nanos_per_day_def nanos_per_second_def)
  then show ?thesis
    by (simp add: snapshot_wf_def example_snapshot_def time_is_zero_def float_in_def
        same_presence_def memory_ok_def network_ok_def interface_ok_def
        maximumSnapshotInterfaces_def)
qed

lemma example_issues_match: "issues_match example_snapshot"
  by (simp add: issues_match_def example_snapshot_def example_issue_def missing_paths_def
      missing_fixed_def missing_network_def missing_interface_def path_unless_def
      interface_prefix_def issue_ok_def firmware_coherent_def validIssueCodeText_def wire_simps)

lemma example_usable: "usable_values example_snapshot = 8"
  by (simp add: usable_values_def present_values_def memory_present_def example_snapshot_def
      interface_values_def)

lemmas json_eval =
  marshal_def document_json_def wire_of_def json_float_def json_string_def escape_rune_def
  json_opt_def json_u64_def json_bool_def json_memory_def json_interface_def json_issue_def
  SchemaVersionText_def

lemmas time_eval =
  format_rfc3339_def civil_def year_day_def leap_year_def month_lengths_def pad_int_def pad_def
  trim_zeros_def nanos_per_day_def nanos_per_second_def

lemma example_encodes_within: "encodes_within example_snapshot"
  by (simp add: encodes_within_def example_snapshot_def example_issue_def json_eval time_eval
      wire_simps MaximumSize_def)

lemma example_encodes: "\<exists>e. Encode example_snapshot = Inr e"
  using encode.enc_useful [OF example_snapshot_wf example_issues_match _ example_encodes_within]
  by (auto simp: example_usable)

section \<open>Properties\<close>

text \<open>
  C2 (encode_accepts_iff): \<open>Encode\<close> accepts exactly the well-formed snapshots whose issue list
  names every missing metric in the frozen order, that have at least one usable value (a field
  of its own that is present, counted one by one, or a network interface) and whose document
  fits in 64 KiB; the body is then the rendered document.
\<close>

theorem encode_accepts_iff:
  "Encode s = Inr e \<longleftrightarrow>
     snapshot_wf s \<and> issues_match s \<and> usable_values s \<noteq> 0
     \<and> marshal (wire_of s\<lparr>wireIssues := Issues s\<rparr>) = Inr (encoded_body e)
     \<and> length (encoded_body e) \<le> MaximumSize"
  using Encode_Inr_D [of s e] Encode_useful [of s "encoded_body e"] by auto

text \<open>
  C9 (encode_issue_discipline): in an accepted snapshot every absent metric has exactly one
  issue, in document order and under its own path, and there are at most 203 issues.
\<close>

theorem encode_issue_discipline:
  assumes "Encode s = Inr e"
  shows "map Path (Issues s) = missing_paths s \<and> distinct (map Path (Issues s))
         \<and> length (Issues s) \<le> 203"
proof -
  note acc = Encode_Inr_D [OF assms]
  have p: "map Path (Issues s) = missing_paths s" using acc(2) by (simp add: issues_match_def)
  have "network_ok (SnapNetwork s)" using acc(1) by (simp add: snapshot_wf_def)
  then have "length (Issues s) \<le> 203" using p length_missing_paths by (metis length_map)
  with p distinct_missing_paths [of s] show ?thesis by simp
qed

theorem encode_issue_discipline_witness:
  "map Path (Issues example_snapshot) = missing_paths example_snapshot
   \<and> length (Issues example_snapshot) \<le> 203"
proof -
  obtain e where "Encode example_snapshot = Inr e" using example_encodes by blast
  from encode_issue_discipline [OF this] show ?thesis by blast
qed

text \<open>
  The error of \<open>Encode\<close> is \<open>ErrNoUsefulSnapshot\<close> exactly for a
  well-formed snapshot with matching issues and no usable value; no validation error is
  mistaken for it.
\<close>

theorem encode_no_useful_iff:
  "(\<exists>e. Encode s = Inl e \<and> errors_is e ErrNoUsefulSnapshot) \<longleftrightarrow>
     snapshot_wf s \<and> issues_match s \<and> usable_values s = 0"
proof
  assume "\<exists>e. Encode s = Inl e \<and> errors_is e ErrNoUsefulSnapshot"
  then obtain e where e: "Encode s = Inl e" "errors_is e ErrNoUsefulSnapshot" by blast
  have nt: "\<not> text_error e" using e(2) text_error_not_useful by blast
  with e(1) obtain r where "buildDocument s = Inr r"
    unfolding Encode_def go_bind_Inl_iff by (auto dest: buildDocument_text_error)
  then have wf: "snapshot_wf s" by (rule buildDocument_Inr)
  note enc = e(1) [unfolded Encode_def buildDocument_ok [OF wf] go_bind.simps prod.case
      check_Inl_iff]
  with nt have im: "issues_match s"
    using validators_None_iff [of s] issue_text_errors by metis
  obtain body where "marshal (wire_of s\<lparr>wireIssues := Issues s\<rparr>) = Inr body"
    using marshal_wf [OF wf] by blast
  with enc nt im have "usable_values s = 0"
    by (auto split: if_splits dest: issue_text_errors)
  with wf im show "snapshot_wf s \<and> issues_match s \<and> usable_values s = 0" by blast
qed (auto simp: Encode_empty)

text \<open>
  An encoded snapshot is never empty and never longer than 64 KiB, so
  the HTTP handler's check of a provider's result always passes for it.
\<close>

theorem encode_bounded_body:
  assumes "Encode s = Inr e"
  shows "encoded_valid e \<and> encoded_len e \<le> MaximumSize"
  using assms by (rule encode.enc_bounded)

theorem encode_bounded_body_witness:
  "\<exists>e. Encode example_snapshot = Inr e \<and> encoded_valid e \<and> encoded_len e \<le> MaximumSize"
proof -
  obtain e where e: "Encode example_snapshot = Inr e" using example_encodes by blast
  from encode_bounded_body [OF e] e show ?thesis by blast
qed

text \<open>
  The memory and root-filesystem bytes of an accepted snapshot add
  up without wrap-around, used plus available being the total.
\<close>

theorem encode_conserves_memory:
  assumes "Encode s = Inr e" "m = SnapMemory s \<or> m = SnapRootFilesystem s"
    and "TotalBytes m = Some t"
  shows "\<exists>a u. AvailableBytes m = Some a \<and> UsedBytes m = Some u \<and> unat a + unat u = unat t"
proof -
  have "memory_ok m" using Encode_Inr_D(1) [OF assms(1)] assms(2) by (auto simp: snapshot_wf_def)
  with assms(3) obtain a where a: "AvailableBytes m = Some a" "UsedBytes m = Some (t - a)" "a \<le> t"
    by (auto simp: memory_ok_def)
  then have "unat a + unat (t - a) = unat t" by (simp add: unat_sub word_le_nat_alt)
  with a show ?thesis by blast
qed

theorem encode_conserves_memory_witness:
  "\<exists>a u. AvailableBytes (SnapMemory example_snapshot) = Some a
         \<and> UsedBytes (SnapMemory example_snapshot) = Some u \<and> unat a + unat u = unat (1000 :: u64)"
proof -
  obtain e where e: "Encode example_snapshot = Inr e" using example_encodes by blast
  show ?thesis
    by (rule encode_conserves_memory [OF e]) (simp_all add: example_snapshot_def)
qed

end
