(* ===== verification/Degradation.thy ===== *)
theory Degradation
  imports Outcome Snapshot "HOL-Library.Product_Lexorder" "HOL-Library.AList"
begin

text \<open>
  \<open>internal/observe/degradation.go\<close>: the reporter that logs a metric's degradation when it
  first appears, reminds at most every five minutes while it lasts, and logs once when it
  clears. The Go map of active degradations is an association list; the records handed to
  \<open>emit\<close> are returned in the order of emission.
\<close>

section \<open>Data\<close>

definition degradationReminderInterval :: int where
  "degradationReminderInterval = 5 * 60 * nanos_per_second"

definition maximumDegradationStates :: nat where
  "maximumDegradationStates = 204"

datatype DegradationSeverity = DegradationInfo | DegradationWarn

record DegradationRecord =
  RecAt :: gotime
  RecSeverity :: DegradationSeverity
  RecMetric :: string
  RecReason :: string
  RecCleared :: bool

record degradationEvent =
  ev_metric :: string
  ev_reason :: string

type_synonym degradationKey = "string \<times> string"

definition event_key :: "degradationEvent \<Rightarrow> degradationKey" where
  "event_key e = (ev_metric e, ev_reason e)"

record DegradationReporter =
  reporter_active :: "(degradationKey \<times> gotime) list"

definition newDegradationReporter :: DegradationReporter where
  "newDegradationReporter = \<lparr>reporter_active = []\<rparr>"

definition validIssueCode :: "string \<Rightarrow> bool" where
  "validIssueCode c \<longleftrightarrow>
     c = IssueUnsupported \<or> c = IssuePermissionDenied \<or> c = IssueTemporarilyUnavailable"

definition degradationCode :: "u8 \<Rightarrow> string call" where
  "degradationCode reason =
     (if reason = reasonUnsupported then Return IssueUnsupported
      else if reason = reasonPermissionDenied then Return IssuePermissionDenied
      else if reason = reasonTemporarilyUnavailable then Return IssueTemporarilyUnavailable
      else Panic (New ''invalid availability reason''))"

section \<open>Reporting\<close>

text \<open>The first loop: identities are valid and distinct.\<close>

fun currentKeys :: "degradationEvent list \<Rightarrow> degradationKey list \<Rightarrow> degradationKey list go" where
  "currentKeys [] current = Inr current"
| "currentKeys (e # es) current =
     (if ev_metric e = [] \<or> \<not> validIssueCode (ev_reason e)
      then Inl (New ''invalid degradation identity'')
      else if event_key e \<in> set current then Inl (New ''duplicate degradation identity'')
      else currentKeys es (current @ [event_key e]))"

text \<open>The second loop: a new or overdue degradation is logged and its time is noted.\<close>

definition warn_record :: "gotime \<Rightarrow> degradationKey \<Rightarrow> DegradationRecord" where
  "warn_record now k =
     \<lparr>RecAt = now, RecSeverity = DegradationWarn, RecMetric = fst k, RecReason = snd k,
      RecCleared = False\<rparr>"

definition cleared_record :: "gotime \<Rightarrow> degradationKey \<Rightarrow> DegradationRecord" where
  "cleared_record now k =
     \<lparr>RecAt = now, RecSeverity = DegradationInfo, RecMetric = fst k, RecReason = snd k,
      RecCleared = True\<rparr>"

definition warn_due :: "gotime \<Rightarrow> gotime option \<Rightarrow> bool" where
  "warn_due now logged \<longleftrightarrow>
     (case logged of None \<Rightarrow> True
      | Some t \<Rightarrow> time_sub now t \<ge> degradationReminderInterval)"

fun reportEvents ::
    "gotime \<Rightarrow> degradationEvent list \<Rightarrow> (degradationKey \<times> gotime) list
     \<Rightarrow> (degradationKey \<times> gotime) list \<times> DegradationRecord list" where
  "reportEvents now [] active = (active, [])"
| "reportEvents now (e # es) active =
     (let key = event_key e;
          logged = map_of active key;
          (entry, out) =
            (if warn_due now logged then (now, [warn_record now key]) else (the logged, []));
          (active', outs) = reportEvents now es (AList.update key entry active)
      in (active', out @ outs))"

text \<open>The third loop: degradations that are no longer reported clear, in sorted order.\<close>

fun reportRecovered ::
    "gotime \<Rightarrow> degradationKey list \<Rightarrow> (degradationKey \<times> gotime) list
     \<Rightarrow> (degradationKey \<times> gotime) list \<times> DegradationRecord list" where
  "reportRecovered now [] active = (active, [])"
| "reportRecovered now (k # ks) active =
     (let (active', outs) = reportRecovered now ks (AList.delete k active)
      in (active', cleared_record now k # outs))"

definition Report ::
    "gotime \<Rightarrow> DegradationReporter \<Rightarrow> degradationEvent list
     \<Rightarrow> DegradationReporter \<times> DegradationRecord list \<times> goerror option" where
  "Report now reporter events =
     (if length events > maximumDegradationStates
      then (reporter, [], Some (New ''degradation event limit exceeded''))
      else case currentKeys events [] of
             Inl e \<Rightarrow> (reporter, [], Some e)
           | Inr current \<Rightarrow>
               (let (active1, outs1) = reportEvents now events (reporter_active reporter);
                    recovered = sort (filter (\<lambda>k. k \<notin> set current) (map fst active1));
                    (active2, outs2) = reportRecovered now recovered active1
                in (reporter\<lparr>reporter_active := active2\<rparr>, outs1 @ outs2, None)))"

definition noopReport ::
    "'r \<Rightarrow> degradationEvent list \<Rightarrow> 'r \<times> DegradationRecord list \<times> goerror option" where
  "noopReport r events = (r, [], None)"

section \<open>The loops\<close>

definition event_ok :: "degradationEvent \<Rightarrow> bool" where
  "event_ok e \<longleftrightarrow> ev_metric e \<noteq> [] \<and> validIssueCode (ev_reason e)"

lemma currentKeys_ok:
  "\<forall>e\<in>set es. event_ok e \<Longrightarrow> distinct (ks @ map event_key es) \<Longrightarrow>
   currentKeys es ks = Inr (ks @ map event_key es)"
  by (induction es ks rule: currentKeys.induct) (auto simp: event_ok_def)

lemma currentKeys_Inr:
  "currentKeys es ks = Inr r \<Longrightarrow> distinct ks \<Longrightarrow>
   (\<forall>e\<in>set es. event_ok e) \<and> distinct (ks @ map event_key es)"
proof (induction es ks rule: currentKeys.induct)
  case (1 ks)
  then show ?case by simp
next
  case (2 e es ks)
  have ok: "\<not> (ev_metric e = [] \<or> \<not> validIssueCode (ev_reason e))"
    using "2.prems"(1) by (rule contrapos_pn) simp
  have new: "event_key e \<notin> set ks"
    using "2.prems"(1) ok by (auto split: if_split_asm)
  have "currentKeys es (ks @ [event_key e]) = Inr r" "distinct (ks @ [event_key e])"
    using "2.prems" ok new by simp_all
  from "2.IH" [OF ok new this] ok show ?case by (simp add: event_ok_def)
qed

text \<open>What the event loop stores and emits, for distinct keys.\<close>

definition note_time :: "gotime \<Rightarrow> gotime option \<Rightarrow> gotime" where
  "note_time now logged = (if warn_due now logged then now else the logged)"

lemma reportEvents_Cons:
  "reportEvents now (e # es) active =
     (let logged = map_of active (event_key e);
          r = reportEvents now es (AList.update (event_key e) (note_time now logged) active)
      in (fst r, (if warn_due now logged then [warn_record now (event_key e)] else []) @ snd r))"
  by (simp add: note_time_def Let_def split: prod.splits)

lemma reportEvents_active:
  "distinct (map event_key es) \<Longrightarrow>
   map_of (fst (reportEvents now es active)) k =
     (if k \<in> event_key ` set es then Some (note_time now (map_of active k)) else map_of active k)"
proof (induction es arbitrary: active)
  case Nil
  then show ?case by simp
next
  case (Cons e es)
  then show ?case
    by (auto simp: reportEvents_Cons Let_def update_conv' simp del: reportEvents.simps(2))
qed

lemma reportEvents_out:
  "distinct (map event_key es) \<Longrightarrow>
   snd (reportEvents now es active) =
     map (warn_record now) (filter (\<lambda>k. warn_due now (map_of active k)) (map event_key es))"
proof (induction es arbitrary: active)
  case Nil
  then show ?case by simp
next
  case (Cons e es)
  have "filter (\<lambda>k. warn_due now (map_of (AList.update (event_key e) t active) k)) (map event_key es)
        = filter (\<lambda>k. warn_due now (map_of active k)) (map event_key es)" for t
    using Cons.prems by (intro filter_cong) (auto simp: update_conv')
  with Cons show ?case
    by (simp add: reportEvents_Cons Let_def del: reportEvents.simps(2))
qed

lemma reportEvents_distinct:
  "distinct (map fst active) \<Longrightarrow> distinct (map fst (fst (reportEvents now es active)))"
  by (induction es arbitrary: active)
    (simp_all add: reportEvents_Cons Let_def distinct_update del: reportEvents.simps(2))

lemma reportRecovered_Cons:
  "reportRecovered now (k # ks) active =
     (let r = reportRecovered now ks (AList.delete k active)
      in (fst r, cleared_record now k # snd r))"
  by (simp add: Let_def split: prod.splits)

lemma reportRecovered_active:
  "map_of (fst (reportRecovered now ks active)) k =
     (if k \<in> set ks then None else map_of active k)"
  by (induction ks arbitrary: active)
    (auto simp: reportRecovered_Cons Let_def delete_conv' simp del: reportRecovered.simps(2))

lemma reportRecovered_out:
  "snd (reportRecovered now ks active) = map (cleared_record now) ks"
  by (induction ks arbitrary: active)
    (auto simp: reportRecovered_Cons Let_def simp del: reportRecovered.simps(2))

lemma reportRecovered_distinct:
  "distinct (map fst active) \<Longrightarrow> distinct (map fst (fst (reportRecovered now ks active)))"
  by (induction ks arbitrary: active)
    (auto simp: reportRecovered_Cons Let_def distinct_delete simp del: reportRecovered.simps(2))

section \<open>One report as a whole\<close>

definition report_ok :: "degradationEvent list \<Rightarrow> bool" where
  "report_ok es \<longleftrightarrow>
     length es \<le> maximumDegradationStates \<and> (\<forall>e\<in>set es. event_ok e)
     \<and> distinct (map event_key es)"

definition active_map :: "DegradationReporter \<Rightarrow> (degradationKey \<rightharpoonup> gotime)" where
  "active_map r = map_of (reporter_active r)"

definition reporter_inv :: "DegradationReporter \<Rightarrow> bool" where
  "reporter_inv r \<longleftrightarrow> distinct (map fst (reporter_active r))"

definition recovered_keys :: "DegradationReporter \<Rightarrow> degradationEvent list \<Rightarrow> degradationKey list" where
  "recovered_keys r es = sorted_list_of_set (dom (active_map r) - event_key ` set es)"

lemma finite_dom_active [simp]: "finite (dom (active_map r))"
  by (simp add: active_map_def finite_dom_map_of)

lemma Report_ok_eq:
  assumes "report_ok es" "reporter_inv r"
  obtains active where
    "Report now r es =
       (r\<lparr>reporter_active := active\<rparr>,
        map (warn_record now) (filter (\<lambda>k. warn_due now (active_map r k)) (map event_key es))
        @ map (cleared_record now) (recovered_keys r es), None)"
    and "map_of active =
       (\<lambda>k. if k \<in> event_key ` set es then Some (note_time now (active_map r k)) else None)"
    and "distinct (map fst active)"
proof -
  have d: "distinct (map event_key es)" and ck: "currentKeys es [] = Inr (map event_key es)"
    using assms(1) currentKeys_ok [of es "[]"] by (auto simp: report_ok_def)
  define a1 where "a1 = fst (reportEvents now es (reporter_active r))"
  have a1: "map_of a1 k = (if k \<in> event_key ` set es then Some (note_time now (active_map r k))
              else active_map r k)" for k
    unfolding a1_def active_map_def by (rule reportEvents_active [OF d])
  have d1: "distinct (map fst a1)"
    unfolding a1_def using assms(2) by (intro reportEvents_distinct) (simp add: reporter_inv_def)
  let ?rec = "sort (filter (\<lambda>k. k \<notin> set (map event_key es)) (map fst a1))"
  have dom1: "set (map fst a1) = event_key ` set es \<union> dom (active_map r)"
  proof (rule set_eqI)
    fix k
    have "k \<in> set (map fst a1) \<longleftrightarrow> map_of a1 k \<noteq> None"
      by (simp only: set_map map_of_eq_None_iff) simp
    then show "k \<in> set (map fst a1) \<longleftrightarrow> k \<in> event_key ` set es \<union> dom (active_map r)"
      unfolding a1 by (simp add: domIff)
  qed
  have rec: "?rec = recovered_keys r es"
  proof -
    have "?rec = sorted_list_of_set (set ?rec)"
      using d1 by (intro sorted_list_of_set.idem_if_sorted_distinct [symmetric]) auto
    also have "set ?rec = dom (active_map r) - event_key ` set es"
      using dom1 by auto
    finally show ?thesis by (simp add: recovered_keys_def)
  qed
  define a2 where "a2 = fst (reportRecovered now ?rec a1)"
  have "Report now r es =
      (r\<lparr>reporter_active := a2\<rparr>,
       snd (reportEvents now es (reporter_active r)) @ snd (reportRecovered now ?rec a1), None)"
    using assms(1) by (simp add: Report_def report_ok_def ck not_less a1_def a2_def split_def Let_def)
  moreover have "map_of a2 =
      (\<lambda>k. if k \<in> event_key ` set es then Some (note_time now (active_map r k)) else None)"
    unfolding a2_def reportRecovered_active rec
    by (rule ext) (auto simp: a1 recovered_keys_def)
  moreover have "distinct (map fst a2)"
    unfolding a2_def by (rule reportRecovered_distinct [OF d1])
  ultimately show thesis
    unfolding reportRecovered_out reportEvents_out [OF d] rec
    by (intro that [of a2]) (simp_all add: active_map_def)
qed

lemma Report_refused:
  assumes "\<not> report_ok es"
  shows "\<exists>e. Report now r es = (r, [], Some e)"
proof (cases "length es > maximumDegradationStates")
  case True
  then show ?thesis by (simp add: Report_def)
next
  case False
  with assms have "\<nexists>c. currentKeys es [] = Inr c"
    using currentKeys_Inr [of es "[]"] by (auto simp: report_ok_def)
  then obtain e where "currentKeys es [] = Inl e" by (cases "currentKeys es []") auto
  with False show ?thesis by (simp add: Report_def)
qed

lemma Report_accepts: "snd (snd (Report now r es)) = None \<longleftrightarrow> report_ok es"
proof (cases "report_ok es")
  case True
  then have "currentKeys es [] = Inr (map event_key es)"
    using currentKeys_ok [of es "[]"] by (auto simp: report_ok_def)
  with True show ?thesis by (simp add: Report_def report_ok_def split: prod.splits)
next
  case False
  then show ?thesis using Report_refused [OF False, of now r] by auto
qed

section \<open>The reporter as an interface\<close>

text \<open>
  What the coordinator relies on: a report of at most 204 distinct, valid degradations is
  accepted. The no-op reporter and the production reporter both keep this contract.
\<close>

locale degradation_sink =
  fixes report :: "'r \<Rightarrow> degradationEvent list \<Rightarrow> 'r \<times> DegradationRecord list \<times> goerror option"
  assumes accepts: "report_ok es \<Longrightarrow> snd (snd (report r es)) = None"
begin

lemma accepted_report:
  assumes "report_ok es"
  obtains r' out where "report r es = (r', out, None)"
  using accepts [OF assms, of r] by (cases "report r es") auto

end

interpretation reporter: degradation_sink "Report now" for now
  by unfold_locales (simp add: Report_accepts)

interpretation noop: degradation_sink noopReport
  by unfold_locales (simp add: noopReport_def)

section \<open>Runs of reports\<close>

fun run_reports ::
    "DegradationReporter \<Rightarrow> (gotime \<times> degradationEvent list) list
     \<Rightarrow> DegradationReporter \<times> DegradationRecord list" where
  "run_reports r [] = (r, [])"
| "run_reports r ((now, es) # rest) =
     (let (r1, out1, e) = Report now r es; (r2, out2) = run_reports r1 rest
      in (r2, out1 @ out2))"

definition warn_times :: "degradationKey \<Rightarrow> DegradationRecord list \<Rightarrow> gotime list" where
  "warn_times k out =
     map RecAt (filter (\<lambda>r. RecSeverity r = DegradationWarn \<and> (RecMetric r, RecReason r) = k) out)"

fun spaced_from :: "gotime \<Rightarrow> gotime list \<Rightarrow> bool" where
  "spaced_from t [] = True"
| "spaced_from t (u # us) = (time_sub u t \<ge> degradationReminderInterval \<and> spaced_from u us)"

lemma warn_times_append [simp]: "warn_times k (xs @ ys) = warn_times k xs @ warn_times k ys"
  by (simp add: warn_times_def)

lemma warn_times_cleared [simp]: "warn_times k (map (cleared_record now) ks) = []"
  by (induction ks) (auto simp: warn_times_def cleared_record_def)

lemma warn_times_warned:
  "distinct ks \<Longrightarrow> warn_times k (map (warn_record now) ks) = (if k \<in> set ks then [now] else [])"
  by (induction ks) (auto simp: warn_times_def warn_record_def)

text \<open>One report that contains the key: at most one warning, and the time it notes.\<close>

lemma Report_step:
  assumes "report_ok es" "reporter_inv r" "k \<in> event_key ` set es"
    and "Report now r es = (r1, out, e)"
  shows "reporter_inv r1" "active_map r1 k = Some (note_time now (active_map r k))"
    "warn_times k out = (if warn_due now (active_map r k) then [now] else [])"
proof -
  obtain active where R: "Report now r es =
       (r\<lparr>reporter_active := active\<rparr>,
        map (warn_record now) (filter (\<lambda>k. warn_due now (active_map r k)) (map event_key es))
        @ map (cleared_record now) (recovered_keys r es), None)"
    and A: "map_of active =
       (\<lambda>k. if k \<in> event_key ` set es then Some (note_time now (active_map r k)) else None)"
    and D: "distinct (map fst active)"
    using Report_ok_eq [OF assms(1,2)] .
  have r1: "r1 = r\<lparr>reporter_active := active\<rparr>" and out: "out =
        map (warn_record now) (filter (\<lambda>k. warn_due now (active_map r k)) (map event_key es))
        @ map (cleared_record now) (recovered_keys r es)"
    using assms(4) R by simp_all
  show "reporter_inv r1" using D by (simp add: r1 reporter_inv_def)
  show "active_map r1 k = Some (note_time now (active_map r k))"
    using assms(3) by (simp add: r1 active_map_def A)
  have "distinct (filter (\<lambda>k. warn_due now (active_map r k)) (map event_key es))"
    using assms(1) by (intro distinct_filter) (simp add: report_ok_def)
  then show "warn_times k out = (if warn_due now (active_map r k) then [now] else [])"
    using assms(3) unfolding out warn_times_append warn_times_cleared
    by (subst warn_times_warned) auto
qed

lemma run_spaced:
  assumes "\<forall>(now, es) \<in> set rest. report_ok es \<and> k \<in> event_key ` set es"
    and "reporter_inv r" "active_map r k = Some t"
  shows "spaced_from t (warn_times k (snd (run_reports r rest)))"
  using assms
proof (induction rest arbitrary: r t)
  case Nil
  then show ?case by (simp add: warn_times_def)
next
  case (Cons p rest)
  obtain now es where p: "p = (now, es)" by fastforce
  obtain r1 out e where R: "Report now r es = (r1, out, e)" by (cases "Report now r es")
  from Cons.prems p have ok: "report_ok es" "k \<in> event_key ` set es" by auto
  note step = Report_step [OF ok(1) Cons.prems(2) ok(2) R]
  have "spaced_from (note_time now (Some t)) (warn_times k (snd (run_reports r1 rest)))"
    using Cons.prems step by (intro Cons.IH) auto
  with step Cons.prems(3) show ?case
    by (auto simp: p R note_time_def warn_due_def split: prod.splits)
qed

section \<open>Properties\<close>

text \<open>
  A report is refused exactly when it has more than 204 events, an
  empty metric, an unknown reason or a duplicated identity, and a refused report changes no
  state and emits nothing.
\<close>

theorem report_accepts_iff:
  "(if report_ok es then snd (snd (Report now r es)) = None
    else \<exists>e. Report now r es = (r, [], Some e))"
  using Report_accepts Report_refused by auto

text \<open>
  The contract of a report, with the reporter's documented numbers and words written out: which
  reports are acceptable, when a degradation is to be logged, what is logged, and which time
  stays noted.
\<close>

definition acceptable_report :: "degradationEvent list \<Rightarrow> bool" where
  "acceptable_report es \<longleftrightarrow>
     length es \<le> 204
     \<and> (\<forall>e\<in>set es. ev_metric e \<noteq> []
          \<and> ev_reason e \<in> {''unsupported'', ''permission_denied'', ''temporarily_unavailable''})
     \<and> distinct (map (\<lambda>e. (ev_metric e, ev_reason e)) es)"

definition log_due :: "gotime \<Rightarrow> gotime option \<Rightarrow> bool" where
  "log_due now logged \<longleftrightarrow> (\<forall>t. logged = Some t \<longrightarrow> t + 300000000000 \<le> now)"

definition logged_time :: "gotime \<Rightarrow> gotime option \<Rightarrow> gotime" where
  "logged_time now logged = (if log_due now logged then now else the logged)"

definition warning :: "gotime \<Rightarrow> degradationKey \<Rightarrow> DegradationRecord" where
  "warning now = (\<lambda>(metric, reason).
     \<lparr>RecAt = now, RecSeverity = DegradationWarn, RecMetric = metric, RecReason = reason,
      RecCleared = False\<rparr>)"

definition clearing :: "gotime \<Rightarrow> degradationKey \<Rightarrow> DegradationRecord" where
  "clearing now = (\<lambda>(metric, reason).
     \<lparr>RecAt = now, RecSeverity = DegradationInfo, RecMetric = metric, RecReason = reason,
      RecCleared = True\<rparr>)"

lemma acceptable_iff: "acceptable_report es \<longleftrightarrow> report_ok es"
  by (simp add: acceptable_report_def report_ok_def event_ok_def validIssueCode_def
      maximumDegradationStates_def event_key_def [abs_def])

lemma log_due_iff: "warn_due now logged \<longleftrightarrow> log_due now logged"
  by (auto simp: warn_due_def log_due_def time_sub_def degradationReminderInterval_def
      nanos_per_second_def split: option.splits)

lemma records_as_specified: "warn_record = warning" "cleared_record = clearing"
  by (simp_all add: fun_eq_iff warn_record_def warning_def cleared_record_def clearing_def)

lemma note_time_eq: "note_time = logged_time"
  by (simp add: fun_eq_iff note_time_def logged_time_def log_due_iff)

text \<open>
  C10 (report_refines_spec): a report of at most 204 distinct degradations, each with a metric
  and one of the three reasons, logs in event order exactly those that are new or whose last
  log is at least five minutes (300000000000 ns) old, then clears in sorted order exactly those
  that disappeared; afterwards the active set is the reported set, each with the time of its
  last log. Any other report is refused, changes no state and logs nothing.
\<close>

theorem report_refines_spec:
  assumes "reporter_inv r"
  shows "if acceptable_report es
         then \<exists>r'. Report now r es =
                (r', map (warning now)
                       (filter (\<lambda>k. log_due now (active_map r k)) (map event_key es))
                     @ map (clearing now)
                         (sorted_list_of_set (dom (active_map r) - event_key ` set es)), None)
              \<and> reporter_inv r'
              \<and> active_map r' = (\<lambda>k. if k \<in> event_key ` set es
                                    then Some (logged_time now (active_map r k)) else None)
         else \<exists>e. Report now r es = (r, [], Some e)"
proof (cases "report_ok es")
  case True
  obtain active where R: "Report now r es =
       (r\<lparr>reporter_active := active\<rparr>,
        map (warn_record now) (filter (\<lambda>k. warn_due now (active_map r k)) (map event_key es))
        @ map (cleared_record now) (recovered_keys r es), None)"
    and "map_of active =
       (\<lambda>k. if k \<in> event_key ` set es then Some (note_time now (active_map r k)) else None)"
    and "distinct (map fst active)"
    using Report_ok_eq [OF True assms] .
  then have "\<exists>r'. Report now r es =
                (r', map (warn_record now)
                       (filter (\<lambda>k. warn_due now (active_map r k)) (map event_key es))
                     @ map (cleared_record now)
                         (sorted_list_of_set (dom (active_map r) - event_key ` set es)), None)
              \<and> reporter_inv r'
              \<and> active_map r' = (\<lambda>k. if k \<in> event_key ` set es
                                    then Some (note_time now (active_map r k)) else None)"
    by (intro exI [of _ "r\<lparr>reporter_active := active\<rparr>"])
      (simp add: recovered_keys_def reporter_inv_def active_map_def)
  with True show ?thesis
    by (simp only: acceptable_iff log_due_iff records_as_specified note_time_eq if_True)
next
  case False
  then show ?thesis using Report_refused by (simp add: acceptable_iff)
qed

definition example_event :: degradationEvent where
  "example_event = \<lparr>ev_metric = ''/load'', ev_reason = ''unsupported''\<rparr>"

lemma example_report_ok: "report_ok [example_event]"
  by (simp add: report_ok_def maximumDegradationStates_def event_ok_def example_event_def
      validIssueCode_def)

lemma new_reporter_inv: "reporter_inv newDegradationReporter"
  by (simp add: reporter_inv_def newDegradationReporter_def)

definition example_reporter :: DegradationReporter where
  "example_reporter =
     \<lparr>reporter_active = [((''/load'', ''unsupported''), 5), ((''/memory'', ''unsupported''), 7)]\<rparr>"

text \<open>
  Five minutes after its log a degradation is logged again, and one that is no longer reported
  clears.
\<close>

theorem report_refines_spec_witness:
  "\<exists>r'. Report 300000000005 example_reporter [example_event] =
          (r', [warning 300000000005 (''/load'', ''unsupported''),
                clearing 300000000005 (''/memory'', ''unsupported'')], None)
        \<and> active_map r' (''/load'', ''unsupported'') = Some 300000000005"
proof -
  have inv: "reporter_inv example_reporter" by (simp add: reporter_inv_def example_reporter_def)
  have dom: "dom (active_map example_reporter) - event_key ` set [example_event]
             = {(''/memory'', ''unsupported'')}"
    by (auto simp: active_map_def example_reporter_def event_key_def example_event_def)
  have due: "log_due 300000000005 (active_map example_reporter (''/load'', ''unsupported''))"
    by (simp add: log_due_def active_map_def example_reporter_def)
  have keys: "map event_key [example_event] = [(''/load'', ''unsupported'')]"
    by (simp add: event_key_def example_event_def)
  show ?thesis
    using report_refines_spec [OF inv, of "[example_event]" 300000000005] example_report_ok due
    unfolding dom keys acceptable_iff
    by (auto simp: logged_time_def event_key_def example_event_def)
qed

text \<open>
  While a degradation stays reported, it is logged at once when it is
  new and then never twice within five minutes.
\<close>

theorem reminders_spaced:
  assumes "reporter_inv r" "active_map r k = None"
    and "\<forall>(now, es) \<in> set ((now, es) # rest). report_ok es \<and> k \<in> event_key ` set es"
  shows "\<exists>us. warn_times k (snd (run_reports r ((now, es) # rest))) = now # us
              \<and> spaced_from now us"
proof -
  obtain r1 out e where R: "Report now r es = (r1, out, e)" by (cases "Report now r es")
  have ok: "report_ok es" "k \<in> event_key ` set es" using assms(3) by auto
  note step = Report_step [OF ok(1) assms(1) ok(2) R]
  have "spaced_from now (warn_times k (snd (run_reports r1 rest)))"
    using assms step by (intro run_spaced) (auto simp: note_time_def warn_due_def)
  with step assms(2) show ?thesis
    by (auto simp: R warn_due_def split: prod.splits)
qed

theorem reminders_spaced_witness:
  "\<exists>us. warn_times (''/load'', ''unsupported'')
           (snd (run_reports newDegradationReporter
              [(0, [example_event]), (60000000000, [example_event]), (300000000000, [example_event])]))
         = 0 # us \<and> spaced_from 0 us"
  by (rule reminders_spaced [OF new_reporter_inv])
    (use example_report_ok in
      \<open>auto simp: active_map_def newDegradationReporter_def event_key_def example_event_def\<close>)

end
