(* ===== verification/GoBytes.thy ===== *)
theory GoBytes
  imports GoStrings
begin

text \<open>
  Byte buffers and \<open>encoding/binary\<close>. A \<open>[]byte\<close> is a list of bytes like a string, so the
  conversions between the two are the identity. \<open>NativeEndian\<close> is little-endian on the
  supported targets (linux on arm64), like \<open>LittleEndian\<close>; a read from a buffer that is too
  short panics.
\<close>

unbundle bit_operations_syntax

section \<open>Little-endian numbers\<close>

definition le_nat :: "string \<Rightarrow> nat" where
  "le_nat bs = foldr (\<lambda>c n. byte c + 256 * n) bs 0"

fun le_bytes :: "nat \<Rightarrow> nat \<Rightarrow> string" where
  "le_bytes 0 v = []"
| "le_bytes (Suc k) v = of_byte (v mod 256) # le_bytes k (v div 256)"

lemma length_le_bytes [simp]: "length (le_bytes k v) = k"
  by (induction k v rule: le_bytes.induct) auto

lemma le_nat_Nil [simp]: "le_nat [] = 0"
  by (simp add: le_nat_def)

lemma le_nat_Cons: "le_nat (c # cs) = byte c + 256 * le_nat cs"
  by (simp add: le_nat_def)

lemma le_nat_bound: "le_nat bs < 256 ^ length bs"
proof (induction bs)
  case Nil
  then show ?case by simp
next
  case (Cons b bs)
  have "256 * Suc (le_nat bs) \<le> 256 * 256 ^ length bs"
    using Cons by (intro mult_le_mono2) simp
  then show ?case
    unfolding le_nat_Cons length_Cons power_Suc mult_Suc_right
    using byte_less [of b] by (metis add_less_mono1 order_less_le_trans)
qed

lemma le_nat_le_bytes [simp]: "le_nat (le_bytes k v) = v mod 256 ^ k"
proof (induction k v rule: le_bytes.induct)
  case (2 k v)
  have "v mod 256 ^ Suc k = v mod 256 + 256 * (v div 256 mod 256 ^ k)"
    by (simp add: mod_mult2_eq add.commute)
  with 2 show ?case by (simp add: le_nat_Cons)
qed simp

lemma le_bytes_le_nat: "le_bytes (length bs) (le_nat bs) = bs"
proof (induction bs)
  case Nil
  then show ?case by simp
next
  case (Cons b bs)
  have "(byte b + 256 * le_nat bs) mod 256 = byte b" by simp
  moreover have "(byte b + 256 * le_nat bs) div 256 = le_nat bs" by simp
  ultimately show ?case using Cons by (simp add: le_nat_Cons)
qed

section \<open>Reading and writing\<close>

definition short_buffer :: "'a call" where
  "short_buffer = Panic (New ''index out of range'')"

definition Uint16 :: "string \<Rightarrow> u16 call" where
  "Uint16 b = (if length b < 2 then short_buffer else Return (of_nat (le_nat (take 2 b))))"

definition Uint32 :: "string \<Rightarrow> u32 call" where
  "Uint32 b = (if length b < 4 then short_buffer else Return (of_nat (le_nat (take 4 b))))"

definition Uint64 :: "string \<Rightarrow> u64 call" where
  "Uint64 b = (if length b < 8 then short_buffer else Return (of_nat (le_nat (take 8 b))))"

definition bytes16 :: "u16 \<Rightarrow> string" where "bytes16 v = le_bytes 2 (unat v)"
definition bytes32 :: "u32 \<Rightarrow> string" where "bytes32 v = le_bytes 4 (unat v)"
definition bytes64 :: "u64 \<Rightarrow> string" where "bytes64 v = le_bytes 8 (unat v)"

lemma length_bytes [simp]:
  "length (bytes16 v) = 2" "length (bytes32 w) = 4" "length (bytes64 x) = 8"
  by (simp_all add: bytes16_def bytes32_def bytes64_def)

lemma bytes_not_Nil [simp]: "bytes16 v \<noteq> []" "bytes32 w \<noteq> []" "bytes64 x \<noteq> []"
  by (simp_all flip: length_greater_0_conv)

lemma uint_returns [returns_intros]:
  "2 \<le> length b \<Longrightarrow> returns (Uint16 b)"
  "4 \<le> length b \<Longrightarrow> returns (Uint32 b)"
  "8 \<le> length b \<Longrightarrow> returns (Uint64 b)"
  by (simp_all add: Uint16_def Uint32_def Uint64_def)

lemma unat_lt_16: "unat (v :: u16) < 65536"
  using unsigned_less [of v, where ?'a = nat] by simp

lemma unat_lt_32: "unat (v :: u32) < 4294967296"
  using unsigned_less [of v, where ?'a = nat] by simp

lemma unat_lt_64: "unat (v :: u64) < 18446744073709551616"
  using unsigned_less [of v, where ?'a = nat] by simp

lemma unat_of_nat_small:
  "n < 65536 \<Longrightarrow> unat (of_nat n :: u16) = n"
  "n < 4294967296 \<Longrightarrow> unat (of_nat n :: u32) = n"
  "n < 18446744073709551616 \<Longrightarrow> unat (of_nat n :: u64) = n"
  by (simp_all add: unat_of_nat)

lemma Uint16_bytes16 [simp]: "Uint16 (bytes16 v @ r) = Return v"
  using unat_lt_16 [of v] by (simp add: Uint16_def bytes16_def)

lemma Uint32_bytes32 [simp]: "Uint32 (bytes32 v @ r) = Return v"
  using unat_lt_32 [of v] by (simp add: Uint32_def bytes32_def)

lemma Uint64_bytes64 [simp]: "Uint64 (bytes64 v @ r) = Return v"
  using unat_lt_64 [of v] by (simp add: Uint64_def bytes64_def)

lemmas Uint_bytes [simp] =
  Uint16_bytes16 [where r = "[]", simplified] Uint32_bytes32 [where r = "[]", simplified]
  Uint64_bytes64 [where r = "[]", simplified]

text \<open>A read of \<open>data[lo:hi]\<close>.\<close>

definition read16 :: "string \<Rightarrow> nat \<Rightarrow> nat \<Rightarrow> u16 call" where
  "read16 data lo hi = call_bind (checked_slice data lo hi) Uint16"

definition read32 :: "string \<Rightarrow> nat \<Rightarrow> nat \<Rightarrow> u32 call" where
  "read32 data lo hi = call_bind (checked_slice data lo hi) Uint32"

definition read64 :: "string \<Rightarrow> nat \<Rightarrow> nat \<Rightarrow> u64 call" where
  "read64 data lo hi = call_bind (checked_slice data lo hi) Uint64"

lemma read_returns [returns_intros]:
  "lo + 2 \<le> hi \<Longrightarrow> hi \<le> length data \<Longrightarrow> returns (read16 data lo hi)"
  "lo + 4 \<le> hi \<Longrightarrow> hi \<le> length data \<Longrightarrow> returns (read32 data lo hi)"
  "lo + 8 \<le> hi \<Longrightarrow> hi \<le> length data \<Longrightarrow> returns (read64 data lo hi)"
  by (auto simp: read16_def read32_def read64_def intro!: returns_intros)

lemma read_at:
  "length a = lo \<Longrightarrow> hi = lo + 2 \<Longrightarrow> read16 (a @ bytes16 v @ r) lo hi = Return v"
  "length a = lo \<Longrightarrow> hi = lo + 4 \<Longrightarrow> read32 (a @ bytes32 w @ r) lo hi = Return w"
  "length a = lo \<Longrightarrow> hi = lo + 8 \<Longrightarrow> read64 (a @ bytes64 x @ r) lo hi = Return x"
  by (simp_all add: read16_def read32_def read64_def go_slice_def)

text \<open>A write of bytes at an offset, which panics when they do not fit.\<close>

definition put_at :: "nat \<Rightarrow> string \<Rightarrow> string \<Rightarrow> string call" where
  "put_at off bs buf =
     (if off + length bs \<le> length buf
      then Return (take off buf @ bs @ drop (off + length bs) buf) else short_buffer)"

definition zero_bytes :: "nat \<Rightarrow> string" where
  "zero_bytes n = replicate n (of_byte 0)"

lemma length_zero_bytes [simp]: "length (zero_bytes n) = n"
  by (simp add: zero_bytes_def)

lemma put_at_next:
  assumes "length a = off" "length bs \<le> n"
  shows "put_at off bs (a @ zero_bytes n) = Return ((a @ bs) @ zero_bytes (n - length bs))"
  using assms by (simp add: put_at_def zero_bytes_def)

section \<open>Alignment to four bytes\<close>

text \<open>\<open>(n + 3) &^ 3\<close> on a non-negative \<open>int\<close>.\<close>

definition align4 :: "nat \<Rightarrow> nat" where
  "align4 n = nat ((int n + 3) AND NOT 3)"

lemma int_and_not_3: "(x :: int) AND NOT 3 = 4 * (x div 4)"
proof -
  have "x AND NOT (mask 2) = push_bit 2 (drop_bit 2 x)"
    by (rule bit_eqI)
      (auto simp: bit_and_iff bit_not_iff bit_mask_iff bit_push_bit_iff bit_drop_bit_eq not_less
        simp del: mask_numeral add_2_eq_Suc add_2_eq_Suc')
  also have "\<dots> = 4 * (x div 4)"
    by (simp add: push_bit_eq_mult drop_bit_eq_div)
  also have "mask 2 = (3 :: int)" by (simp add: mask_eq_exp_minus_1)
  finally show ?thesis .
qed

lemma align4_eq [code]: "align4 n = 4 * ((n + 3) div 4)"
  by (simp only: align4_def int_and_not_3) (simp add: nat_mult_distrib nat_div_distrib nat_add_distrib)

lemma align4_bounds: "n \<le> align4 n" "align4 n < n + 4"
  by (simp_all add: align4_eq)

lemma align4_aligned: "align4 n mod 4 = 0"
  by (simp add: align4_eq)

end
