(* ===== verification/FirmwareProtocol.thy ===== *)
theory FirmwareProtocol
  imports GoBytes
begin

text \<open>
  \<open>internal/platform/firmware_protocol.go\<close>, \<open>firmware_linux.go\<close> and the guard of
  \<open>firmware_ioctl_linux_arm64.go\<close>: the mailbox-property messages that ask the firmware for
  its throttling mask, over the restricted device and over the general one. The devices
  themselves (open and ioctl) are parameters.
\<close>

section \<open>Constants and words\<close>

abbreviation (input) firmwareRequestCode :: u32 where "firmwareRequestCode \<equiv> 0"
abbreviation (input) firmwareResponseOK :: u32 where "firmwareResponseOK \<equiv> 0x80000000"
abbreviation (input) firmwareTagResponse :: u32 where "firmwareTagResponse \<equiv> 0x80000000"
abbreviation (input) firmwareGetThrottled :: u32 where "firmwareGetThrottled \<equiv> 0x00030046"
abbreviation (input) firmwareGetCommand :: u32 where "firmwareGetCommand \<equiv> 0x00030080"
abbreviation (input) firmwareEndTag :: u32 where "firmwareEndTag \<equiv> 0"

definition firmwareCommandBytes :: nat where "firmwareCommandBytes = 4096"

definition word_at :: "string \<Rightarrow> nat \<Rightarrow> u32 call" where
  "word_at buffer index =
     call_bind (checked_slice buffer (index * 4) (length buffer)) Uint32"

definition putWord :: "nat \<Rightarrow> u32 \<Rightarrow> string \<Rightarrow> string call" where
  "putWord index value buffer =
     call_bind (checked_slice buffer (index * 4) (length buffer)) (\<lambda>_.
       put_at (index * 4) (bytes32 value) buffer)"

text \<open>\<open>copy(buffer[off:], s)\<close> copies as many bytes as fit.\<close>

definition copy_at :: "nat \<Rightarrow> string \<Rightarrow> string \<Rightarrow> string call" where
  "copy_at off s buffer =
     call_bind (checked_slice buffer off (length buffer)) (\<lambda>room.
       put_at off (take (length room) s) buffer)"

fun bytesIndexByte :: "string \<Rightarrow> char \<Rightarrow> nat option" where
  "bytesIndexByte [] v = None"
| "bytesIndexByte (c # cs) v = (if c = v then Some 0 else map_option Suc (bytesIndexByte cs v))"

text \<open>
  A condition \<open>word(buffer, index) != value || rest\<close> of an early return: the rest is only
  evaluated when the word is the expected one.
\<close>

definition expect_word :: "string \<Rightarrow> nat \<Rightarrow> u32 \<Rightarrow> ('a go) call \<Rightarrow> ('a go) call" where
  "expect_word buffer index value rest =
     call_bind (word_at buffer index) (\<lambda>w.
       if w \<noteq> value then Return (Inl ErrMalformedFirmwareResponse) else rest)"

section \<open>The property message\<close>

definition buildGetThrottledPropertyRequest :: "string call" where
  "buildGetThrottledPropertyRequest =
     (let buffer = zero_bytes (7 * 4)
      in call_bind (putWord 0 (of_nat (length buffer)) buffer) (\<lambda>buffer.
         call_bind (putWord 1 firmwareRequestCode buffer) (\<lambda>buffer.
         call_bind (putWord 2 firmwareGetThrottled buffer) (\<lambda>buffer.
         call_bind (putWord 3 4 buffer) (\<lambda>buffer.
         call_bind (putWord 4 0 buffer) (\<lambda>buffer.
         call_bind (putWord 5 0 buffer) (\<lambda>buffer.
         putWord 6 firmwareEndTag buffer)))))))"

definition parseGetThrottledPropertyResponse :: "string \<Rightarrow> (u32 go) call" where
  "parseGetThrottledPropertyResponse buffer =
     (if length buffer \<noteq> 7 * 4 then Return (Inl ErrMalformedFirmwareResponse)
      else expect_word buffer 0 (of_nat (length buffer))
          (expect_word buffer 1 firmwareResponseOK
          (expect_word buffer 2 firmwareGetThrottled
          (expect_word buffer 3 4
          (expect_word buffer 6 firmwareEndTag
          (call_bind (word_at buffer 4) (\<lambda>responseLength.
            if responseLength AND firmwareTagResponse = 0
               \<or> responseLength AND NOT firmwareTagResponse \<noteq> 4
            then Return (Inl ErrMalformedFirmwareResponse)
            else call_bind (word_at buffer 5) (\<lambda>m. Return (Inr m)))))))))"

section \<open>The command message\<close>

definition buildGetThrottledCommandRequest :: "string call" where
  "buildGetThrottledCommandRequest =
     (let buffer = zero_bytes ((7 + firmwareCommandBytes div 4) * 4)
      in call_bind (putWord 0 (of_nat (length buffer)) buffer) (\<lambda>buffer.
         call_bind (putWord 1 firmwareRequestCode buffer) (\<lambda>buffer.
         call_bind (putWord 2 firmwareGetCommand buffer) (\<lambda>buffer.
         call_bind (putWord 3 (of_nat firmwareCommandBytes) buffer) (\<lambda>buffer.
         call_bind (putWord 4 0 buffer) (\<lambda>buffer.
         call_bind (copy_at (6 * 4) ''get_throttled'' buffer) (\<lambda>buffer.
         putWord (6 + firmwareCommandBytes div 4) firmwareEndTag buffer)))))))"

definition throttled_prefix :: string where
  "throttled_prefix = ''throttled=0x''"

text \<open>The text after the status word, cut at its first NUL byte and parsed as hexadecimal.\<close>

definition parseThrottledText :: "string \<Rightarrow> u32 go" where
  "parseThrottledText data0 =
     (let data = (case bytesIndexByte data0 (of_byte 0) of None \<Rightarrow> data0 | Some i \<Rightarrow> take i data0);
          response = trim_space data
      in if \<not> has_prefix response throttled_prefix
            \<or> length response = length throttled_prefix
            \<or> length response > length throttled_prefix + 8
         then Inl ErrMalformedFirmwareResponse
         else (case parse_uint 16 32 (drop (length throttled_prefix) response) of
                 Inl e \<Rightarrow> Inl (Wrapf ''%w: %v'' [] ErrMalformedFirmwareResponse)
               | Inr m \<Rightarrow> Inr (of_nat m)))"

definition parseGetThrottledCommandResponse :: "string \<Rightarrow> (u32 go) call" where
  "parseGetThrottledCommandResponse buffer =
     (if length buffer \<noteq> (7 + firmwareCommandBytes div 4) * 4
      then Return (Inl ErrMalformedFirmwareResponse)
      else expect_word buffer 0 (of_nat (length buffer))
          (expect_word buffer 1 firmwareResponseOK
          (expect_word buffer 2 firmwareGetCommand
          (expect_word buffer 3 (of_nat firmwareCommandBytes)
          (expect_word buffer (6 + firmwareCommandBytes div 4) firmwareEndTag
          (call_bind (word_at buffer 4) (\<lambda>responseLength.
            let size = unat (responseLength AND NOT firmwareTagResponse)
            in if responseLength AND firmwareTagResponse = 0 \<or> size < 4
                  \<or> size > firmwareCommandBytes
               then Return (Inl ErrMalformedFirmwareResponse)
               else expect_word buffer 5 0
                      (call_bind (checked_slice buffer (6 * 4) (5 * 4 + size)) (\<lambda>data.
                         Return (parseThrottledText data))))))))))"

section \<open>The transaction\<close>

text \<open>
  The operating system's side: the error of \<open>os.Open\<close> for a path, and the errno and the
  buffer an ioctl leaves.
\<close>

record firmware_devices =
  dev_open :: "string \<Rightarrow> goerror option"
  dev_ioctl :: "string \<Rightarrow> string \<Rightarrow> nat \<times> string"

definition restrictedFirmwareDevice :: string where
  "restrictedFirmwareDevice = ''/dev/vcio_gencmd''"

definition generalFirmwareDevice :: string where
  "generalFirmwareDevice = ''/dev/vcio''"

definition firmwarePropertyIOCTL :: "firmware_devices \<Rightarrow> string \<Rightarrow> string \<Rightarrow> string go" where
  "firmwarePropertyIOCTL d path buffer =
     (if length buffer = 0 then Inl (New ''firmware ioctl buffer is empty'')
      else let (errno, buffer') = dev_ioctl d path buffer
           in if errno \<noteq> 0 then Inl (Errno errno) else Inr buffer')"

text \<open>One transaction over the \<open>ioctl\<close> of the architecture the program is built for.\<close>

definition transactFirmware ::
    "(string \<Rightarrow> string \<Rightarrow> string go) \<Rightarrow> firmware_devices \<Rightarrow> string \<Rightarrow> string call
     \<Rightarrow> (string \<Rightarrow> (u32 go) call) \<Rightarrow> (u32 go) call" where
  "transactFirmware ioctl d path request parse =
     call_bind request (\<lambda>buffer.
       case dev_open d path of
         Some e \<Rightarrow> Return (Inl e)
       | None \<Rightarrow>
           (case ioctl path buffer of
              Inl e \<Rightarrow> Return (Inl e)
            | Inr response \<Rightarrow> parse response))"

text \<open>The two transactions of \<open>GetThrottled\<close>, and its choice between their results.\<close>

definition askRestricted ::
    "(string \<Rightarrow> string \<Rightarrow> string go) \<Rightarrow> firmware_devices \<Rightarrow> (u32 go) call" where
  "askRestricted ioctl d =
     transactFirmware ioctl d restrictedFirmwareDevice buildGetThrottledCommandRequest
       parseGetThrottledCommandResponse"

definition askGeneral ::
    "(string \<Rightarrow> string \<Rightarrow> string go) \<Rightarrow> firmware_devices \<Rightarrow> (u32 go) call" where
  "askGeneral ioctl d =
     transactFirmware ioctl d generalFirmwareDevice buildGetThrottledPropertyRequest
       parseGetThrottledPropertyResponse"

definition askDevices ::
    "(string \<Rightarrow> string \<Rightarrow> string go) \<Rightarrow> firmware_devices \<Rightarrow> (u32 go) call" where
  "askDevices ioctl d =
     call_bind (askRestricted ioctl d) (\<lambda>restricted.
       case restricted of
         Inr m \<Rightarrow> Return (Inr m)
       | Inl restrictedErr \<Rightarrow>
           if \<not> errors_is restrictedErr ErrNotExist \<and> \<not> errors_is restrictedErr ErrPermission
           then Return (Inl restrictedErr)
           else call_bind (askGeneral ioctl d) (\<lambda>general.
             case general of
               Inr m \<Rightarrow> Return (Inr m)
             | Inl generalErr \<Rightarrow>
                 if errors_is restrictedErr ErrPermission \<or> errors_is generalErr ErrPermission
                 then Return (Inl (Wrapf ''firmware devices denied access: %w'' [] ErrPermission))
                 else if errors_is restrictedErr ErrNotExist \<and> errors_is generalErr ErrNotExist
                 then Return (Inl (Wrapf ''firmware devices unavailable: %w'' [] ErrNotExist))
                 else Return (Inl generalErr)))"

text \<open>On arm64, where the request is sent.\<close>

abbreviation restricted_result :: "firmware_devices \<Rightarrow> (u32 go) call" where
  "restricted_result d \<equiv> askRestricted (firmwarePropertyIOCTL d) d"

abbreviation general_result :: "firmware_devices \<Rightarrow> (u32 go) call" where
  "general_result d \<equiv> askGeneral (firmwarePropertyIOCTL d) d"

definition GetThrottled :: "firmware_devices \<Rightarrow> (u32 go) call" where
  "GetThrottled d = askDevices (firmwarePropertyIOCTL d) d"

section \<open>Words of a buffer\<close>

lemma word_at_Return_iff:
  "word_at buffer i = Return v \<longleftrightarrow>
     i * 4 + 4 \<le> length buffer \<and> take 4 (drop (i * 4) buffer) = bytes32 v"
proof (cases "i * 4 + 4 \<le> length buffer")
  case True
  let ?b = "take 4 (drop (i * 4) buffer)"
  have len: "length ?b = 4" using True by simp
  have "le_nat ?b < 256 ^ length ?b" by (rule le_nat_bound)
  then have lt: "le_nat ?b < 4294967296" unfolding len by simp
  have "\<not> length buffer - i * 4 < 4" using True by arith
  then have w: "word_at buffer i = Return (of_nat (le_nat ?b))"
    using True by (simp add: word_at_def Uint32_def go_slice_def)
  have "of_nat (le_nat ?b) = v \<longleftrightarrow> ?b = bytes32 v"
  proof
    assume "of_nat (le_nat ?b) = v"
    then have "unat v = le_nat ?b" using unat_of_nat_small(2) [OF lt] by metis
    then show "?b = bytes32 v" using le_bytes_le_nat [of ?b] unfolding bytes32_def len by simp
  next
    assume "?b = bytes32 v"
    moreover have "le_nat (bytes32 v) = unat v"
      using unat_lt_32 [of v] by (simp add: bytes32_def)
    ultimately show "of_nat (le_nat ?b) = v" by simp
  qed
  with True show ?thesis unfolding w by simp
next
  case False
  then show ?thesis
    by (auto simp: word_at_def Uint32_def short_buffer_def checked_slice_def go_slice_def)
qed

lemma word_at_returns [returns_intros]:
  "i * 4 + 4 \<le> length buffer \<Longrightarrow> returns (word_at buffer i)"
  by (auto simp: word_at_def intro!: returns_intros)

lemma expect_word_returns [returns_intros]:
  "i * 4 + 4 \<le> length buffer \<Longrightarrow> returns rest \<Longrightarrow> returns (expect_word buffer i v rest)"
  by (auto simp: expect_word_def intro!: returns_intros)

lemma expect_word_Inr_iff:
  "expect_word buffer i v rest = Return (Inr m) \<longleftrightarrow>
     word_at buffer i = Return v \<and> rest = Return (Inr m)"
  by (auto simp: expect_word_def call_bind_Return_iff)

lemma property_response_returns [returns_intros]:
  "returns (parseGetThrottledPropertyResponse buffer)"
  by (auto simp: parseGetThrottledPropertyResponse_def intro!: returns_intros)

lemma command_response_returns [returns_intros]:
  "returns (parseGetThrottledCommandResponse buffer)"
  by (auto simp: parseGetThrottledCommandResponse_def firmwareCommandBytes_def Let_def not_less
      intro!: returns_intros)

lemma bit_clear_iff: "bit ((r :: u32) AND NOT (2 ^ k)) n \<longleftrightarrow> n < 32 \<and> n \<noteq> k \<and> bit r n"
  by (auto simp: bit_and_iff bit_not_iff bit_exp_iff dest: bit_imp_le_length)

lemma clear_top: "(r :: u32) AND NOT 0x80000000 = take_bit 31 r"
proof -
  have "r AND NOT (2 ^ 31) = take_bit 31 r"
    by (rule bit_word_eqI) (simp only: bit_clear_iff bit_take_bit_iff, auto)
  then show ?thesis by simp
qed

lemma bit_top: "bit (r :: u32) 31 \<longleftrightarrow> odd (unat r div 2147483648)"
proof -
  have "bit r 31 = bit (unat r) 31" by (simp add: bit_unsigned_iff)
  then show ?thesis by (simp add: bit_iff_odd)
qed

lemma response_length_iff:
  "\<not> ((r :: u32) AND firmwareTagResponse = 0 \<or> r AND NOT firmwareTagResponse \<noteq> 4)
     \<longleftrightarrow> r = 0x80000004"
proof
  assume r: "\<not> (r AND firmwareTagResponse = 0 \<or> r AND NOT firmwareTagResponse \<noteq> 4)"
  have t: "(0x80000000 :: u32) = 2 ^ 31" by simp
  have b: "bit r 31" using r unfolding t and_exp_eq_0_iff_not_bit by simp
  have low: "r AND NOT (2 ^ 31) = 4" using r unfolding t by simp
  have "bit r n = bit (0x80000004 :: u32) n" if n: "n < 32" for n
  proof (cases "n = 31")
    case True
    then show ?thesis using b by simp
  next
    case False
    then have "bit r n = bit (r AND NOT (2 ^ 31)) n"
      using n by (simp only: bit_clear_iff simp_thms)
    also have "\<dots> = bit (4 :: u32) n" by (simp only: low)
    also have "\<dots> = bit ((0x80000004 :: u32) AND NOT (2 ^ 31)) n" by simp
    also have "\<dots> = bit (0x80000004 :: u32) n" using n False by (simp only: bit_clear_iff simp_thms)
    finally show ?thesis .
  qed
  then show "r = 0x80000004" by (intro bit_word_eqI) simp
qed simp

section \<open>The firmware's answers\<close>

text \<open>
  The wire format the parsers are compared with: a property response carries the mask as its
  value word, a command response a status word and a NUL-padded text.
\<close>

definition property_response :: "u32 \<Rightarrow> string" where
  "property_response m =
     bytes32 28 @ bytes32 firmwareResponseOK @ bytes32 firmwareGetThrottled @ bytes32 4
     @ bytes32 0x80000004 @ bytes32 m @ bytes32 firmwareEndTag"

definition command_response :: "string \<Rightarrow> string" where
  "command_response text =
     bytes32 4124 @ bytes32 firmwareResponseOK @ bytes32 firmwareGetCommand @ bytes32 4096
     @ bytes32 (of_nat (2147483648 + (4 + length text))) @ bytes32 0
     @ text @ zero_bytes (4096 - length text) @ bytes32 firmwareEndTag"

lemma word_at_drop:
  "word_at b i = Return v \<Longrightarrow> k = i * 4 \<Longrightarrow> drop k b = bytes32 v @ drop (k + 4) b"
  using append_take_drop_id [of 4 "drop k b"] by (simp add: word_at_Return_iff add.commute)

lemma property_response_words:
  assumes "length b = 28"
    and "word_at b 0 = Return w0" "word_at b 1 = Return w1" "word_at b 2 = Return w2"
    and "word_at b 3 = Return w3" "word_at b 4 = Return w4" "word_at b 5 = Return w5"
    and "word_at b 6 = Return w6"
  shows "b = bytes32 w0 @ bytes32 w1 @ bytes32 w2 @ bytes32 w3 @ bytes32 w4 @ bytes32 w5
             @ bytes32 w6"
proof -
  note d = assms(2-8) [THEN word_at_drop]
  have "drop 24 b = bytes32 w6" using d(7) [of 24] assms(1) by simp
  then have "drop 20 b = bytes32 w5 @ bytes32 w6" using d(6) [of 20] by simp
  then have "drop 16 b = bytes32 w4 @ bytes32 w5 @ bytes32 w6" using d(5) [of 16] by simp
  then have "drop 12 b = bytes32 w3 @ bytes32 w4 @ bytes32 w5 @ bytes32 w6"
    using d(4) [of 12] by simp
  then have "drop 8 b = bytes32 w2 @ bytes32 w3 @ bytes32 w4 @ bytes32 w5 @ bytes32 w6"
    using d(3) [of 8] by simp
  then have "drop 4 b = bytes32 w1 @ bytes32 w2 @ bytes32 w3 @ bytes32 w4 @ bytes32 w5 @ bytes32 w6"
    using d(2) [of 4] by simp
  then show ?thesis using d(1) [of 0] by simp
qed

lemma word_at_append:
  assumes "length a = i * 4"
  shows "word_at (a @ bytes32 v @ r) i = Return v"
  using assms by (simp add: word_at_Return_iff)

lemma property_response_word:
  "word_at (property_response m) 0 = Return 28"
  "word_at (property_response m) 1 = Return firmwareResponseOK"
  "word_at (property_response m) 2 = Return firmwareGetThrottled"
  "word_at (property_response m) 3 = Return 4"
  "word_at (property_response m) 4 = Return 0x80000004"
  "word_at (property_response m) 5 = Return m"
  "word_at (property_response m) 6 = Return firmwareEndTag"
  by (simp_all add: property_response_def word_at_Return_iff)

lemma length_property_response: "length (property_response m) = 28"
  by (simp add: property_response_def)

lemma property_parse_iff:
  "parseGetThrottledPropertyResponse b = Return (Inr m) \<longleftrightarrow> b = property_response m"
proof
  assume p: "parseGetThrottledPropertyResponse b = Return (Inr m)"
  then have len: "length b = 28"
    by (simp add: parseGetThrottledPropertyResponse_def split: if_splits)
  obtain r where w: "word_at b 0 = Return 28" "word_at b 1 = Return firmwareResponseOK"
      "word_at b 2 = Return firmwareGetThrottled" "word_at b 3 = Return 4"
      "word_at b 6 = Return firmwareEndTag" "word_at b 4 = Return r" "word_at b 5 = Return m"
      "\<not> (r AND firmwareTagResponse = 0 \<or> r AND NOT firmwareTagResponse \<noteq> 4)"
    using p len unfolding parseGetThrottledPropertyResponse_def
    by (auto simp: expect_word_Inr_iff call_bind_Return_iff simp del: bit_simps split: if_split_asm)
  then have "r = 0x80000004" by (simp only: response_length_iff)
  with property_response_words [OF len w(1-4,6,7,5)] show "b = property_response m"
    by (simp add: property_response_def)
next
  assume b: "b = property_response m"
  show "parseGetThrottledPropertyResponse b = Return (Inr m)"
    unfolding b parseGetThrottledPropertyResponse_def expect_word_def length_property_response
    by (simp add: property_response_word property_response_word(2) [unfolded One_nat_def])
qed

text \<open>The requests, as the driver receives them.\<close>

lemma putWord_eq:
  "i * 4 + 4 \<le> length b \<Longrightarrow>
   putWord i v b = Return (take (i * 4) b @ bytes32 v @ drop (i * 4 + 4) b)"
  by (simp add: putWord_def put_at_def)

lemma zero_bytes_0 [simp]: "zero_bytes 0 = []"
  by (simp add: zero_bytes_def)

lemma zero_bytes_take_drop [simp]:
  "take k (zero_bytes n) = zero_bytes (min k n)" "drop k (zero_bytes n) = zero_bytes (n - k)"
  by (simp_all add: zero_bytes_def)

lemma property_request_eq:
  "buildGetThrottledPropertyRequest =
     Return (bytes32 28 @ bytes32 0 @ bytes32 firmwareGetThrottled @ bytes32 4 @ bytes32 0
             @ bytes32 0 @ bytes32 0)"
  by (simp add: buildGetThrottledPropertyRequest_def putWord_eq)

lemma command_request_eq:
  "buildGetThrottledCommandRequest =
     Return (bytes32 4124 @ bytes32 0 @ bytes32 firmwareGetCommand @ bytes32 4096 @ bytes32 0
             @ zero_bytes 4 @ ''get_throttled'' @ zero_bytes 4083 @ bytes32 0)"
  by (simp add: buildGetThrottledCommandRequest_def firmwareCommandBytes_def putWord_eq copy_at_def
      put_at_def)

section \<open>Hexadecimal text\<close>

definition hex_char :: "nat \<Rightarrow> char" where
  "hex_char d = of_byte (if d < 10 then 48 + d else 87 + d)"

fun hex :: "nat \<Rightarrow> string" where
  "hex n = (if n < 16 then [hex_char n] else hex (n div 16) @ [hex_char (n mod 16)])"

declare hex.simps [simp del]

lemma byte_hex_char: "d < 16 \<Longrightarrow> byte (hex_char d) = (if d < 10 then 48 + d else 87 + d)"
  by (simp add: hex_char_def)

lemma digit_of_hex_char: "d < 16 \<Longrightarrow> digit_of (hex_char d) = Some d"
  by (auto simp: digit_of_def byte_hex_char)

lemma parse_uint_loop_append:
  "parse_uint_loop base bits s0 (xs @ ys) n =
     go_bind (parse_uint_loop base bits s0 xs n) (parse_uint_loop base bits s0 ys)"
  by (induction xs arbitrary: n) (auto split: option.split)

lemma parse_uint_loop_hex: "n < 2 ^ bits \<Longrightarrow> parse_uint_loop 16 bits s0 (hex n) 0 = Inr n"
proof (induction n rule: hex.induct)
  case (1 n)
  show ?case
  proof (cases "n < 16")
    case True
    with 1 show ?thesis by (simp add: hex.simps [of n] digit_of_hex_char)
  next
    case False
    have "n div 16 < 2 ^ bits" using 1(2) by (rule le_less_trans [rotated]) simp
    with 1 False have ih: "parse_uint_loop 16 bits s0 (hex (n div 16)) 0 = Inr (n div 16)" by simp
    have n: "n div 16 * 16 + n mod 16 = n" by simp
    have "hex n = hex (n div 16) @ [hex_char (n mod 16)]" using False by (subst hex.simps) simp
    with 1(2) show ?thesis
      by (simp add: parse_uint_loop_append ih digit_of_hex_char n del: div_mult_mod_eq)
  qed
qed

lemma hex_not_Nil [simp]: "hex n \<noteq> []"
  by (subst hex.simps) simp

lemma length_hex: "0 < k \<Longrightarrow> n < 16 ^ k \<Longrightarrow> length (hex n) \<le> k"
proof (induction k arbitrary: n)
  case (Suc k)
  show ?case
  proof (cases "n < 16")
    case True
    then show ?thesis by (simp add: hex.simps [of n])
  next
    case False
    then have "0 < k" using Suc.prems by (cases k) auto
    moreover have "n div 16 < 16 ^ k" using Suc.prems by (simp add: less_mult_imp_div_less mult.commute)
    ultimately have "length (hex (n div 16)) \<le> k" by (rule Suc.IH)
    with False show ?thesis by (subst hex.simps) simp
  qed
qed simp

lemma hex_chars: "c \<in> set (hex n) \<Longrightarrow> 48 \<le> byte c \<and> byte c < 103"
proof (induction n rule: hex.induct)
  case (1 n)
  show ?case
  proof (cases "n < 16")
    case True
    with 1(2) show ?thesis by (auto simp: hex.simps [of n] byte_hex_char)
  next
    case False
    have "n mod 16 < 16" by simp
    with False 1 show ?thesis by (subst (asm) hex.simps [of n]) (auto simp: byte_hex_char)
  qed
qed

lemma parse_hex:
  assumes "n < 2 ^ bits"
  shows "parse_uint 16 bits (hex n) = Inr n"
  using parse_uint_loop_hex [OF assms] by (simp add: parse_uint_def)

section \<open>The text of a command response\<close>

lemma bytesIndexByte_None: "c \<notin> set s \<Longrightarrow> bytesIndexByte s c = None"
  by (induction s) auto

lemma bytesIndexByte_found: "c \<notin> set s \<Longrightarrow> bytesIndexByte (s @ c # r) c = Some (length s)"
  by (induction s) auto

lemma parseThrottledText_hex:
  assumes "\<forall>c\<in>set ws. c = CHR 0x0A" "tail = [] \<or> (\<exists>r. tail = of_byte 0 # r)"
  shows "parseThrottledText (throttled_prefix @ hex (unat (m :: u32)) @ ws @ tail) = Inr m"
proof -
  let ?t = "throttled_prefix @ hex (unat m)"
  have lt: "unat m < 2 ^ 32" "unat m < 16 ^ 8" using unat_lt_32 [of m] by simp_all
  have pre: "\<forall>c\<in>set throttled_prefix. byte c < 128 \<and> \<not> is_space (byte c) \<and> c \<noteq> of_byte 0"
    by (simp add: throttled_prefix_def is_space_def of_byte_def char_of_def bit_0)
  have hx: "byte c < 128 \<and> \<not> is_space (byte c) \<and> c \<noteq> of_byte 0" if "c \<in> set (hex (unat m))" for c
    using hex_chars [OF that] by (auto simp: is_space_def)
  have w0: "c \<noteq> of_byte 0" "byte c < 128" "is_space (byte c)" if "c \<in> set ws" for c
  proof -
    have "c = CHR 0x0A" using assms(1) that by blast
    then have b: "byte c = 10" by simp
    then show "c \<noteq> of_byte 0" by (metis byte_of_byte zero_less_numeral zero_neq_numeral)
    show "byte c < 128" "is_space (byte c)" by (simp_all add: b is_space_def)
  qed
  have nz: "of_byte 0 \<notin> set (?t @ ws)" using pre hx w0 by auto
  have cut: "(case bytesIndexByte (?t @ ws @ tail) (of_byte 0) of None \<Rightarrow> ?t @ ws @ tail
              | Some i \<Rightarrow> take i (?t @ ws @ tail)) = ?t @ ws"
    using assms(2)
  proof
    assume "tail = []"
    then show ?thesis using bytesIndexByte_None [OF nz] by simp
  next
    assume "\<exists>r. tail = of_byte 0 # r"
    then obtain r where "tail = of_byte 0 # r" ..
    then show ?thesis using bytesIndexByte_found [OF nz, of r] by simp
  qed
  have trim: "trim_space (?t @ ws) = ?t"
    using pre hx w0 by (intro trim_space_id) auto
  have len: "length (hex (unat m)) \<le> 8" using length_hex [OF _ lt(2)] by simp
  note cut' = cut [unfolded append_assoc]
  show ?thesis
    unfolding parseThrottledText_def Let_def cut' [unfolded append_assoc]
      trim [unfolded append_assoc]
    using len parse_hex [OF lt(1)] by (simp add: has_prefix_def)
qed

lemma command_response_text:
  assumes "length text \<le> 4092"
  shows "parseGetThrottledCommandResponse (command_response text) = Return (parseThrottledText text)"
proof -
  let ?n = "4 + length text"
  let ?b = "command_response text"
  let ?size = "of_nat (2147483648 + ?n) :: u32"
  have len: "length ?b = 4124" using assms by (simp add: command_response_def)
  have w: "word_at ?b 0 = Return 4124" "word_at ?b 1 = Return firmwareResponseOK"
    "word_at ?b 2 = Return firmwareGetCommand" "word_at ?b 3 = Return 4096"
    "word_at ?b 4 = Return ?size" "word_at ?b 5 = Return 0" "word_at ?b 1030 = Return 0"
    using assms by (simp_all add: command_response_def word_at_Return_iff del: of_nat_add)
  have u: "unat ?size = 2147483648 + ?n" using assms by (intro unat_of_nat_small) simp
  have top: "?size AND firmwareTagResponse \<noteq> 0"
  proof -
    have "(2147483648 + ?n) div 2147483648 = 1" by (rule div_nat_eqI) (use assms in simp_all)
    then have "bit ?size 31" unfolding bit_top u by simp
    then show ?thesis using and_exp_eq_0_iff_not_bit [of ?size 31] by simp
  qed
  have low: "unat (?size AND NOT firmwareTagResponse) = ?n"
  proof -
    have "(2147483648 + ?n) mod 2147483648 = ?n mod 2147483648" by (rule mod_add_self1)
    also have "\<dots> = ?n" using assms by simp
    finally show ?thesis
      unfolding clear_top unsigned_take_bit_eq u unfolding take_bit_eq_mod by simp
  qed
  have data: "go_slice ?b 24 (24 + length text) = text"
    by (simp add: go_slice_def command_response_def)
  have slice: "checked_slice ?b (6 * 4) (5 * 4 + ?n) = Return text"
    using data len assms by simp
  have g: "\<not> (?size AND firmwareTagResponse = 0 \<or> ?n < 4 \<or> ?n > firmwareCommandBytes)"
    using top assms by (simp add: firmwareCommandBytes_def)
  have e: "(7 + firmwareCommandBytes div 4) * 4 = 4124" "6 + firmwareCommandBytes div 4 = 1030"
    "of_nat firmwareCommandBytes = (4096 :: u32)" "of_nat 4124 = (4124 :: u32)"
    by (simp_all add: firmwareCommandBytes_def)
  show ?thesis
    unfolding parseGetThrottledCommandResponse_def expect_word_def Let_def
    by (simp only: call_bind.simps low slice g if_False e len w simp_thms)
qed

section \<open>Devices that answer\<close>

lemma transactFirmware_returns [returns_intros]:
  assumes "returns request" "\<And>b. returns (parse b)"
  shows "returns (transactFirmware ioctl d path request parse)"
  using assms by (auto simp: transactFirmware_def intro!: returns_intros split: option.split sum.split)

lemma results_return [returns_intros]: "returns (askRestricted ioctl d)" "returns (askGeneral ioctl d)"
  by (auto simp: askRestricted_def askGeneral_def property_request_eq command_request_eq
      intro!: returns_intros)

lemma GetThrottled_returns: "returns (GetThrottled d)"
  unfolding GetThrottled_def askDevices_def by (auto intro!: returns_intros split: sum.split)

text \<open>A device that opens and whose ioctl leaves the given bytes.\<close>

definition device_answers :: "firmware_devices \<Rightarrow> string \<Rightarrow> string \<Rightarrow> bool" where
  "device_answers d path response \<longleftrightarrow>
     dev_open d path = None \<and> (\<forall>request. dev_ioctl d path request = (0, response))"

lemma restricted_answers:
  assumes "device_answers d restrictedFirmwareDevice response"
  shows "restricted_result d = parseGetThrottledCommandResponse response"
  using assms
  by (simp add: askRestricted_def transactFirmware_def command_request_eq device_answers_def
      firmwarePropertyIOCTL_def)

lemma general_answers:
  assumes "device_answers d generalFirmwareDevice response"
  shows "general_result d = parseGetThrottledPropertyResponse response"
  using assms
  by (simp add: askGeneral_def transactFirmware_def property_request_eq device_answers_def
      firmwarePropertyIOCTL_def)

section \<open>Properties\<close>

text \<open>
  Whatever bytes the firmware leaves in the buffer, the transaction
  returns a mask or an error; no word or slice of the buffer is out of bounds.
\<close>

theorem firmware_never_panics: "\<exists>r. GetThrottled d = Return r"
  using GetThrottled_returns by (simp add: returns_def)

text \<open>
  The property parser accepts exactly one byte sequence per mask,
  the one the firmware's format prescribes.
\<close>

theorem property_response_exact:
  "parseGetThrottledPropertyResponse buffer = Return (Inr m) \<longleftrightarrow> buffer = property_response m"
  by (rule property_parse_iff)

text \<open>
  C35 (firmware_mask_roundtrip): a mask that the restricted device prints in hexadecimal, with or
  without trailing newlines and NUL-terminated garbage, is the mask \<open>GetThrottled\<close> returns.
\<close>

theorem firmware_mask_roundtrip:
  assumes "text = throttled_prefix @ hex (unat m) @ newlines @ tail"
    and "\<forall>c\<in>set newlines. c = CHR 0x0A" "tail = [] \<or> (\<exists>r. tail = of_byte 0 # r)"
    and "length text \<le> 4092"
    and "device_answers d restrictedFirmwareDevice (command_response text)"
  shows "GetThrottled d = Return (Inr m)"
  using assms parseThrottledText_hex [OF assms(2,3)]
  by (simp add: GetThrottled_def askDevices_def restricted_answers command_response_text)

definition example_devices :: firmware_devices where
  "example_devices =
     \<lparr>dev_open = (\<lambda>p. None),
      dev_ioctl = (\<lambda>p b. (0, command_response (throttled_prefix @ hex (unat (0x50005 :: u32)) @ [CHR 0x0A])))\<rparr>"

theorem firmware_mask_roundtrip_witness: "GetThrottled example_devices = Return (Inr 0x50005)"
proof -
  have len: "length (throttled_prefix @ hex (unat (0x50005 :: u32)) @ [CHR 0x0A] @ []) \<le> 4092"
    using length_hex [of 8 "unat (0x50005 :: u32)"] by (simp add: throttled_prefix_def)
  show ?thesis
    by (rule firmware_mask_roundtrip [OF refl _ _ len])
      (simp_all add: device_answers_def example_devices_def)
qed

text \<open>
  When both devices fail, the error is a permission error exactly
  when one of them was denied, and a not-exist error exactly when both are absent.
\<close>

theorem firmware_error_classes:
  assumes "restricted_result d = Return (Inl r)" "errors_is r ErrNotExist \<or> errors_is r ErrPermission"
    and "general_result d = Return (Inl g)"
  shows "\<exists>e. GetThrottled d = Return (Inl e)
         \<and> (errors_is e ErrPermission \<longleftrightarrow> errors_is r ErrPermission \<or> errors_is g ErrPermission)
         \<and> (errors_is e ErrNotExist \<longleftrightarrow>
               \<not> errors_is r ErrPermission \<and> \<not> errors_is g ErrPermission
               \<and> errors_is r ErrNotExist \<and> errors_is g ErrNotExist)"
  using assms by (auto simp: GetThrottled_def askDevices_def)

definition missing_devices :: firmware_devices where
  "missing_devices =
     \<lparr>dev_open = (\<lambda>p. Some (PathError ''open'' p (Errno 2))), dev_ioctl = (\<lambda>p b. (0, b))\<rparr>"

theorem firmware_error_classes_witness:
  "\<exists>e. GetThrottled missing_devices = Return (Inl e) \<and> errors_is e ErrNotExist"
proof -
  have "restricted_result missing_devices = Return (Inl (PathError ''open'' restrictedFirmwareDevice (Errno 2)))"
    "general_result missing_devices = Return (Inl (PathError ''open'' generalFirmwareDevice (Errno 2)))"
    by (simp_all add: askRestricted_def askGeneral_def transactFirmware_def
        command_request_eq property_request_eq missing_devices_def)
  from firmware_error_classes [OF this(1) _ this(2)] show ?thesis by auto
qed

end
