(* ===== verification/Generic.thy ===== *)
theory Generic
  imports Outcome FloatText
begin

text \<open>
  \<open>internal/observe/generic.go\<close>: the parsers of the kernel's text files and the collectors of
  the generic metrics. The platform source is a record of the results its calls give during one
  collection; \<open>ctx.Err()\<close> is an argument.
\<close>

section \<open>Observations and the source\<close>

definition maximumUptimeInput :: nat where "maximumUptimeInput = 128"
definition maximumCPUInput :: nat where "maximumCPUInput = 4 * 1024"
definition maximumLoadInput :: nat where "maximumLoadInput = 256"
definition maximumMemoryInput :: nat where "maximumMemoryInput = 64 * 1024"

abbreviation (input) MaxUint64 :: u64 where "MaxUint64 \<equiv> 18446744073709551615"

record hostObservation =
  host_hostname :: "string outcome"
  host_uptime :: "u64 outcome"

record loadObservation =
  load_oneMinute :: float64
  load_fiveMinutes :: float64
  load_fifteenMinutes :: float64

record cpuLoadObservation =
  cl_logicalCPUCount :: "u64 outcome"
  cl_topologySignature :: string
  cl_load :: "loadObservation outcome"

record memoryObservation =
  mem_totalBytes :: u64
  mem_availableBytes :: u64
  mem_usedBytes :: u64

type_synonym filesystemObservation = memoryObservation

record cpuTopology =
  topology_count :: u64
  topology_signature :: string

record Filesystem =
  BlockSize :: u64
  TotalBlocks :: u64
  AvailableBlocks :: u64

record genericSource =
  src_hostname :: "string go"
  src_uptime :: "string go"
  src_cpuOnline :: "string go"
  src_loadAverage :: "string go"
  src_memoryInfo :: "string go"
  src_rootFilesystem :: "Filesystem go"

instantiation loadObservation_ext :: (zero) zero
begin
definition zero_loadObservation_ext :: "'a loadObservation_ext" where
  "zero_loadObservation_ext = loadObservation_ext 0 0 0 0"
instance by standard
end

instantiation memoryObservation_ext :: (zero) zero
begin
definition zero_memoryObservation_ext :: "'a memoryObservation_ext" where
  "zero_memoryObservation_ext = memoryObservation_ext 0 0 0 0"
instance by standard
end

instantiation cpuTopology_ext :: (zero) zero
begin
definition zero_cpuTopology_ext :: "'a cpuTopology_ext" where
  "zero_cpuTopology_ext = cpuTopology_ext 0 0 0"
instance by standard
end

section \<open>Uptime\<close>

definition decimalDigits :: "string \<Rightarrow> bool" where
  "decimalDigits data = list_all is_digit data"

definition parseUptime :: "string \<Rightarrow> u64 go" where
  "parseUptime data =
     (if length data = 0 \<or> length data > maximumUptimeInput
      then Inl (New ''uptime input is empty or oversized'')
      else let fs = split_fields data
           in if length fs < 1 then Inl (New ''uptime value is missing'')
              else let parts = split_on (CHR ''.'') (fs ! 0)
                   in if length parts > 2 \<or> length (parts ! 0) = 0
                         \<or> length parts = 2
                            \<and> (length (parts ! 1) = 0 \<or> \<not> decimalDigits (parts ! 1))
                         \<or> \<not> decimalDigits (parts ! 0)
                      then Inl (New ''uptime is not a non-negative decimal'')
                      else go_bind (parse_uint 10 64 (parts ! 0)) (\<lambda>n. Inr (of_nat n)))"

section \<open>CPU topology\<close>

definition formatRange :: "u64 \<Rightarrow> u64 \<Rightarrow> string" where
  "formatRange start stop =
     (if start = stop then dec (unat start) else dec (unat start) @ CHR ''-'' # dec (unat stop))"

definition parseRange :: "string \<Rightarrow> (u64 \<times> u64) go" where
  "parseRange item =
     (let bounds = split_on (CHR ''-'') item
      in if length bounds > 2 \<or> bounds ! 0 = []
         then Inl (New ''CPU list contains an invalid range'')
         else (case parse_uint 10 64 (bounds ! 0) of
            Inl e \<Rightarrow> Inl (New ''CPU list contains an invalid number'')
          | Inr start \<Rightarrow>
              if length bounds = 2
              then if bounds ! 1 = [] then Inl (New ''CPU list contains an invalid range'')
                   else (case parse_uint 10 64 (bounds ! 1) of
                      Inl e \<Rightarrow> Inl (New ''CPU list contains an invalid range'')
                    | Inr stop \<Rightarrow>
                        if (of_nat stop :: u64) < of_nat start
                        then Inl (New ''CPU list contains an invalid range'')
                        else Inr (of_nat start, of_nat stop))
              else Inr (of_nat start, of_nat start)))"

text \<open>The loop over the items; \<open>first\<close> is \<open>index == 0\<close>.\<close>

fun parseRanges ::
    "bool \<Rightarrow> string list \<Rightarrow> u64 \<Rightarrow> u64 \<Rightarrow> string list \<Rightarrow> (u64 \<times> string list) go" where
  "parseRanges first [] count previous canonical = Inr (count, canonical)"
| "parseRanges first (item # items) count previous canonical =
     (case parseRange item of
        Inl e \<Rightarrow> Inl e
      | Inr (start, stop) \<Rightarrow>
          if \<not> first \<and> start \<le> previous
          then Inl (New ''CPU list is overlapping or unordered'')
          else let size = stop - start + 1
               in if size = 0 \<or> count > MaxUint64 - size
                  then Inl (New ''CPU count overflows'')
                  else parseRanges False items (count + size) stop
                         (canonical @ [formatRange start stop]))"

definition parseCPUTopology :: "string \<Rightarrow> cpuTopology go" where
  "parseCPUTopology data =
     (if length data = 0 \<or> length data > maximumCPUInput
      then Inl (New ''CPU list is empty or oversized'')
      else let text = trim_space data
           in if text = [] then Inl (New ''CPU list is empty'')
              else go_bind (parseRanges True (split_on (CHR '','') text) 0 0 [])
                     (\<lambda>(count, canonical).
                        if count = 0 then Inl (New ''CPU list contains no processors'')
                        else Inr \<lparr>topology_count = count,
                                  topology_signature = join (CHR '','') canonical\<rparr>))"

definition parseCPUList :: "string \<Rightarrow> u64 go" where
  "parseCPUList data = go_bind (parseCPUTopology data) (\<lambda>t. Inr (topology_count t))"

section \<open>Load\<close>

definition parseLoadValue :: "string \<Rightarrow> float64 go" where
  "parseLoadValue field =
     (case parse_float field of
        Inl e \<Rightarrow> Inl (New ''load input contains an invalid value'')
      | Inr v \<Rightarrow>
          if is_NaN v \<or> is_Inf v \<or> f_less v (Fin 0)
          then Inl (New ''load input contains an invalid value'') else Inr v)"

definition parseLoad :: "string \<Rightarrow> loadObservation go" where
  "parseLoad data =
     (if length data = 0 \<or> length data > maximumLoadInput
      then Inl (New ''load input is empty or oversized'')
      else let fs = split_fields data
           in if length fs < 3 then Inl (New ''load input has fewer than three values'')
              else go_bind (parseLoadValue (fs ! 0)) (\<lambda>one.
                   go_bind (parseLoadValue (fs ! 1)) (\<lambda>five.
                   go_bind (parseLoadValue (fs ! 2)) (\<lambda>fifteen.
                     Inr \<lparr>load_oneMinute = one, load_fiveMinutes = five,
                          load_fifteenMinutes = fifteen\<rparr>))))"

section \<open>Memory\<close>

text \<open>
  \<open>bufio.Scanner\<close> with \<open>ScanLines\<close> and a buffer of at most 64 KiB over at most that many
  bytes: only a line that fills the whole buffer without a newline is too long.
\<close>

definition drop_cr :: "string \<Rightarrow> string" where
  "drop_cr line = (if line \<noteq> [] \<and> last line = CHR 0x0D then butlast line else line)"

definition scan_lines :: "string \<Rightarrow> string list" where
  "scan_lines data =
     (let parts = split_on (CHR 0x0A) data
      in map drop_cr (if last parts = [] then butlast parts else parts))"

definition line_too_long :: "string \<Rightarrow> bool" where
  "line_too_long data \<longleftrightarrow> length data \<ge> maximumMemoryInput \<and> CHR 0x0A \<notin> set data"

type_synonym memoryValues = "string \<rightharpoonup> u64"

definition parseMemoryLine :: "string \<Rightarrow> memoryValues \<Rightarrow> memoryValues go" where
  "parseMemoryLine line values =
     (let fs = split_fields line
      in if fs = [] then Inr values
         else let name = trim_suffix (fs ! 0) '':''
              in if name \<noteq> ''MemTotal'' \<and> name \<noteq> ''MemAvailable'' then Inr values
                 else if values name \<noteq> None \<or> length fs \<noteq> 3 \<or> fs ! 2 \<noteq> ''kB''
                 then Inl (Errorf ''invalid or duplicate %s entry'' [FStr name])
                 else (case parse_uint 10 64 (fs ! 1) of
                    Inl e \<Rightarrow> Inl (Errorf ''invalid %s value'' [FStr name])
                  | Inr kilobytes \<Rightarrow>
                      if (of_nat kilobytes :: u64) > MaxUint64 div 1024
                      then Inl (Errorf ''invalid %s value'' [FStr name])
                      else Inr (values(name \<mapsto> of_nat kilobytes * 1024))))"

fun parseMemoryLines :: "string list \<Rightarrow> memoryValues \<Rightarrow> memoryValues go" where
  "parseMemoryLines [] values = Inr values"
| "parseMemoryLines (l # ls) values = go_bind (parseMemoryLine l values) (parseMemoryLines ls)"

definition parseMemory :: "string \<Rightarrow> memoryObservation go" where
  "parseMemory data =
     (if length data = 0 \<or> length data > maximumMemoryInput
      then Inl (New ''memory input is empty or oversized'')
      else if line_too_long data then Inl (New ''bufio.Scanner: token too long'')
      else go_bind (parseMemoryLines (scan_lines data) Map.empty) (\<lambda>values.
        case (values ''MemTotal'', values ''MemAvailable'') of
          (Some tot, Some available) \<Rightarrow>
            if available > tot
            then Inl (New ''required memory values are missing or inconsistent'')
            else Inr \<lparr>mem_totalBytes = tot, mem_availableBytes = available,
                      mem_usedBytes = tot - available\<rparr>
        | _ \<Rightarrow> Inl (New ''required memory values are missing or inconsistent'')))"

section \<open>Collectors\<close>

definition collectHost :: "goerror option \<Rightarrow> genericSource \<Rightarrow> hostObservation" where
  "collectHost ctx_err source =
     (case ctx_err of
        Some e \<Rightarrow> \<lparr>host_hostname = unavailable reasonTemporarilyUnavailable (Some e),
                   host_uptime = unavailable reasonTemporarilyUnavailable (Some e)\<rparr>
      | None \<Rightarrow>
          (let hostnameResult =
             (case src_hostname source of
                Inl e \<Rightarrow> acquisitionFailure (Some e) reasonUnsupported
              | Inr hostname \<Rightarrow>
                  if hostname = [] \<or> \<not> valid_utf8 hostname
                  then unavailable reasonTemporarilyUnavailable
                         (Some (New ''hostname is empty or invalid UTF-8''))
                  else present hostname)
           in case src_uptime source of
                Inl e \<Rightarrow> \<lparr>host_hostname = hostnameResult,
                          host_uptime = acquisitionFailure (Some e) reasonUnsupported\<rparr>
              | Inr data \<Rightarrow>
                  (case parseUptime data of
                     Inl e \<Rightarrow> \<lparr>host_hostname = hostnameResult,
                               host_uptime = unavailable reasonTemporarilyUnavailable (Some e)\<rparr>
                   | Inr uptime \<Rightarrow> \<lparr>host_hostname = hostnameResult,
                                    host_uptime = present uptime\<rparr>)))"

definition collectCPULoad :: "goerror option \<Rightarrow> genericSource \<Rightarrow> cpuLoadObservation" where
  "collectCPULoad ctx_err source =
     (case ctx_err of
        Some e \<Rightarrow> \<lparr>cl_logicalCPUCount = unavailable reasonTemporarilyUnavailable (Some e),
                   cl_topologySignature = [],
                   cl_load = unavailable reasonTemporarilyUnavailable (Some e)\<rparr>
      | None \<Rightarrow>
          (let (cpuResult, topologySignature) =
             (case src_cpuOnline source of
                Inl e \<Rightarrow> (acquisitionFailure (Some e) reasonUnsupported, [])
              | Inr data \<Rightarrow>
                  (case parseCPUTopology data of
                     Inl e \<Rightarrow> (unavailable reasonTemporarilyUnavailable (Some e), [])
                   | Inr t \<Rightarrow> (present (topology_count t), topology_signature t)));
               loadResult =
             (case src_loadAverage source of
                Inl e \<Rightarrow> acquisitionFailure (Some e) reasonUnsupported
              | Inr data \<Rightarrow>
                  (case parseLoad data of
                     Inl e \<Rightarrow> unavailable reasonTemporarilyUnavailable (Some e)
                   | Inr l \<Rightarrow> present l))
           in \<lparr>cl_logicalCPUCount = cpuResult, cl_topologySignature = topologySignature,
               cl_load = loadResult\<rparr>))"

definition collectMemory :: "goerror option \<Rightarrow> genericSource \<Rightarrow> memoryObservation outcome" where
  "collectMemory ctx_err source =
     (case ctx_err of
        Some e \<Rightarrow> unavailable reasonTemporarilyUnavailable (Some e)
      | None \<Rightarrow>
          (case src_memoryInfo source of
             Inl e \<Rightarrow> acquisitionFailure (Some e) reasonUnsupported
           | Inr data \<Rightarrow>
               (case parseMemory data of
                  Inl e \<Rightarrow> unavailable reasonTemporarilyUnavailable (Some e)
                | Inr m \<Rightarrow> present m)))"

definition collectRootFilesystem ::
    "goerror option \<Rightarrow> genericSource \<Rightarrow> filesystemObservation outcome" where
  "collectRootFilesystem ctx_err source =
     (case ctx_err of
        Some e \<Rightarrow> unavailable reasonTemporarilyUnavailable (Some e)
      | None \<Rightarrow>
          (case src_rootFilesystem source of
             Inl e \<Rightarrow> acquisitionFailure (Some e) reasonUnsupported
           | Inr v \<Rightarrow>
               if BlockSize v = 0 \<or> TotalBlocks v > MaxUint64 div BlockSize v
                  \<or> AvailableBlocks v > MaxUint64 div BlockSize v
               then unavailable reasonTemporarilyUnavailable
                      (Some (New ''filesystem block values overflow''))
               else let tot = TotalBlocks v * BlockSize v; available = AvailableBlocks v * BlockSize v
                    in if available > tot
                       then unavailable reasonTemporarilyUnavailable
                              (Some (New ''filesystem available bytes exceed total bytes''))
                       else present \<lparr>mem_totalBytes = tot, mem_availableBytes = available,
                                     mem_usedBytes = tot - available\<rparr>))"

section \<open>Uptime: what is parsed\<close>

lemma parseUptime_value:
  assumes "n < 2 ^ 64" "f \<noteq> []" "\<forall>c\<in>set f. is_digit c" "\<forall>c\<in>set rest. byte c < 128"
    and "length (dec n @ CHR ''.'' # f @ CHR '' '' # rest) \<le> maximumUptimeInput"
  shows "parseUptime (dec n @ CHR ''.'' # f @ CHR '' '' # rest) = Inr (of_nat n)"
proof -
  let ?w = "dec n @ CHR ''.'' # f"
  have w: "\<forall>c\<in>set ?w. byte c < 128 \<and> \<not> is_space (byte c)"
  proof
    fix c assume "c \<in> set ?w"
    then have "is_digit c \<or> c = CHR ''.''" using assms(3) by (auto dest: dec_digits)
    then show "byte c < 128 \<and> \<not> is_space (byte c)"
      by (auto dest: digit_not_space simp: is_space_def)
  qed
  have fs: "split_fields (dec n @ CHR ''.'' # f @ CHR '' '' # rest) = ?w # split_fields rest"
    using split_fields_word [OF _ w, of "CHR '' ''" rest] by (simp add: is_space_def)
  have dot: "CHR ''.'' \<notin> set (dec n)" "CHR ''.'' \<notin> set f"
    using assms(3) by (auto simp: is_digit_def intro!: dec_no_char)
  have parts: "split_on (CHR ''.'') ?w = [dec n, f]"
    using dot by (simp add: split_on_append split_on_single)
  have dg: "decimalDigits (dec n)" "decimalDigits f"
    using assms(3) by (auto simp: decimalDigits_def list_all_iff dec_digits)
  show ?thesis
    unfolding parseUptime_def fs Let_def
    using assms(1,2,5) dg by (simp add: parts del: One_nat_def)
qed

section \<open>CPU topology: intervals\<close>

text \<open>
  The specification of a CPU list: non-empty, strictly increasing, disjoint intervals whose
  sizes add up within 64 bits.
\<close>

type_synonym cpuRange = "u64 \<times> u64"

definition range_set :: "cpuRange \<Rightarrow> nat set" where
  "range_set r = {unat (fst r)..unat (snd r)}"

definition range_size :: "cpuRange \<Rightarrow> nat" where
  "range_size r = unat (snd r) - unat (fst r) + 1"

fun ranges_from :: "u64 \<Rightarrow> cpuRange list \<Rightarrow> bool" where
  "ranges_from prev [] = True"
| "ranges_from prev (r # rs) = (prev < fst r \<and> fst r \<le> snd r \<and> ranges_from (snd r) rs)"

definition ranges_ok :: "cpuRange list \<Rightarrow> bool" where
  "ranges_ok rs \<longleftrightarrow>
     (case rs of [] \<Rightarrow> False | r # rest \<Rightarrow> fst r \<le> snd r \<and> ranges_from (snd r) rest)
     \<and> sum_list (map range_size rs) < 2 ^ 64"

definition cpu_set :: "cpuRange list \<Rightarrow> nat set" where
  "cpu_set rs = \<Union> (range_set ` set rs)"

definition format_ranges :: "cpuRange list \<Rightarrow> string" where
  "format_ranges rs = join (CHR '','') (map (\<lambda>r. formatRange (fst r) (snd r)) rs)"

lemma card_range_set: "fst r \<le> snd r \<Longrightarrow> card (range_set r) = range_size r"
  by (simp add: range_set_def range_size_def word_le_nat_alt Suc_diff_le)

lemma ranges_from_above: "ranges_from prev rs \<Longrightarrow> c \<in> cpu_set rs \<Longrightarrow> unat prev < c"
proof (induction prev rs rule: ranges_from.induct)
  case (2 prev r rs)
  have pr: "unat prev < unat (fst r)" "unat (fst r) \<le> unat (snd r)"
    using 2 by (simp_all add: word_less_nat_alt word_le_nat_alt)
  show ?case
  proof (cases "c \<in> range_set r")
    case True
    with pr show ?thesis by (simp add: range_set_def)
  next
    case False
    with 2 have "unat (snd r) < c" by (simp add: cpu_set_def)
    with pr show ?thesis by simp
  qed
qed (simp add: cpu_set_def)

lemma finite_cpu_set [simp]: "finite (cpu_set rs)"
  by (simp add: cpu_set_def range_set_def)

lemma card_cpu_set_from: "ranges_from prev rs \<Longrightarrow> card (cpu_set rs) = sum_list (map range_size rs)"
proof (induction prev rs rule: ranges_from.induct)
  case (2 prev r rs)
  have "range_set r \<inter> cpu_set rs = {}"
    using ranges_from_above [of "snd r" rs] 2 by (fastforce simp: range_set_def)
  moreover have "cpu_set (r # rs) = range_set r \<union> cpu_set rs" by (auto simp: cpu_set_def)
  moreover have "finite (range_set r)" by (simp add: range_set_def)
  ultimately show ?case using 2 by (simp add: card_Un_disjoint card_range_set)
qed (simp add: cpu_set_def)

lemma card_cpu_set: "ranges_ok rs \<Longrightarrow> card (cpu_set rs) = sum_list (map range_size rs)"
proof -
  assume ok: "ranges_ok rs"
  then obtain r rest where rs: "rs = r # rest" "fst r \<le> snd r" "ranges_from (snd r) rest"
    by (auto simp: ranges_ok_def split: list.splits)
  have "range_set r \<inter> cpu_set rest = {}"
    using ranges_from_above [OF rs(3)] by (fastforce simp: range_set_def)
  moreover have "cpu_set rs = range_set r \<union> cpu_set rest" by (auto simp: rs cpu_set_def)
  moreover have "finite (range_set r)" by (simp add: range_set_def)
  ultimately show ?thesis
    using rs card_cpu_set_from [OF rs(3)] by (simp add: card_Un_disjoint card_range_set)
qed

lemma parseRange_ordered: "parseRange item = Inr (s, e) \<Longrightarrow> s \<le> e"
  by (auto simp: parseRange_def Let_def not_less split: if_splits sum.splits)

lemma range_size_word:
  assumes "s \<le> e" "e - s + 1 \<noteq> (0 :: u64)"
  shows "unat (e - s + 1) = range_size (s, e)"
proof -
  have "e - s \<noteq> -1" using assms(2) by (metis add.left_inverse)
  then have "unat (e - s + 1) = Suc (unat (e - s))" by (metis add.commute unatSuc word_neq_0_conv assms(2))
  then show ?thesis using assms(1) by (simp add: range_size_def unat_sub word_le_nat_alt)
qed

definition range_chain :: "bool \<Rightarrow> u64 \<Rightarrow> cpuRange list \<Rightarrow> bool" where
  "range_chain first prev rs \<longleftrightarrow>
     (case rs of [] \<Rightarrow> True
      | r # rest \<Rightarrow> (first \<or> prev < fst r) \<and> fst r \<le> snd r \<and> ranges_from (snd r) rest)"

lemma range_chain_False [simp]: "range_chain False prev rs = ranges_from prev rs"
  by (cases rs) (simp_all add: range_chain_def)

abbreviation format_list :: "cpuRange list \<Rightarrow> string list" where
  "format_list rs \<equiv> map (\<lambda>r. formatRange (fst r) (snd r)) rs"

lemma count_fits:
  fixes count size :: u64
  shows "\<not> count > MaxUint64 - size \<longleftrightarrow> unat count + unat size < 2 ^ 64"
proof -
  have "unat (MaxUint64 - size) = 18446744073709551615 - unat size"
    using unsigned_less [of size, where ?'a = nat] by (simp add: unat_sub word_le_nat_alt)
  then show ?thesis
    using unsigned_less [of size, where ?'a = nat]
    by (simp add: word_less_nat_alt not_less) arith
qed

lemma parseRanges_sound:
  assumes "parseRanges first items count prev canon = Inr (count', canon')"
  shows "\<exists>rs. length rs = length items \<and> range_chain first prev rs \<and> canon' = canon @ format_list rs
         \<and> unat count' = unat count + sum_list (map range_size rs)"
  using assms
proof (induction items arbitrary: first count prev canon)
  case Nil
  then show ?case by (simp add: range_chain_def)
next
  case (Cons item items)
  from Cons.prems obtain s e where se: "parseRange item = Inr (s, e)" by (auto split: sum.splits)
  let ?size = "e - s + 1"
  have g: "first \<or> prev < s" "?size \<noteq> 0" "\<not> count > MaxUint64 - ?size"
    and rest: "parseRanges False items (count + ?size) e (canon @ [formatRange s e]) = Inr (count', canon')"
    using Cons.prems se by (auto simp: Let_def not_le split: if_splits)
  from Cons.IH [OF rest] obtain rs where rs: "length rs = length items" "ranges_from e rs"
      "canon' = canon @ [formatRange s e] @ format_list rs"
      "unat count' = unat (count + ?size) + sum_list (map range_size rs)" by auto
  have le: "s \<le> e" by (rule parseRange_ordered [OF se])
  have "unat (count + ?size) = unat count + range_size (s, e)"
    using g(3) unfolding count_fits range_size_word [OF le g(2), symmetric]
    by (simp add: unat_word_ariths)
  with rs g le show ?case
    by (intro exI [of _ "(s, e) # rs"]) (simp add: range_chain_def)
qed

lemma dash_not_digit: "CHR ''-'' \<notin> set (dec n)" "CHR '','' \<notin> set (dec n)"
  by (simp_all add: dec_no_char is_digit_def)

lemma parseRange_format:
  assumes "s \<le> e"
  shows "parseRange (formatRange s e) = Inr (s, e)"
proof -
  have lt: "unat s < 2 ^ 64" "unat e < 2 ^ 64"
    using unsigned_less [of s, where ?'a = nat] unsigned_less [of e, where ?'a = nat] by simp_all
  show ?thesis
  proof (cases "s = e")
    case True
    then show ?thesis
      using lt by (simp add: parseRange_def formatRange_def split_on_single dash_not_digit)
  next
    case False
    have "split_on (CHR ''-'') (dec (unat s) @ CHR ''-'' # dec (unat e)) = [dec (unat s), dec (unat e)]"
      by (simp add: split_on_append split_on_single dash_not_digit)
    with False lt assms show ?thesis
      by (simp add: parseRange_def formatRange_def not_less)
  qed
qed

lemma parseRanges_format:
  assumes "range_chain first prev rs" "unat count + sum_list (map range_size rs) < 2 ^ 64"
  shows "parseRanges first (format_list rs) count prev canon =
           Inr (count + of_nat (sum_list (map range_size rs)), canon @ format_list rs)"
  using assms
proof (induction rs arbitrary: first prev count canon)
  case Nil
  then show ?case by simp
next
  case (Cons r rs)
  obtain s e where r: "r = (s, e)" by fastforce
  have c: "first \<or> prev < s" "s \<le> e" "ranges_from e rs"
    using Cons.prems(1) by (simp_all add: r range_chain_def)
  have sz: "range_size (s, e) < 2 ^ 64" using Cons.prems(2) r by simp
  have nz: "e - s + 1 \<noteq> 0"
  proof
    assume "e - s + 1 = 0"
    then have "e - s = -1" by (metis add_eq_0_iff2)
    moreover have "unat (- 1 :: u64) = 18446744073709551615"
      by (simp add: unsigned_minus_1_eq_mask mask_eq_exp_minus_1)
    ultimately have "unat e - unat s = 18446744073709551615"
      using c(2) by (simp flip: unat_sub add: word_le_nat_alt)
    with sz show False by (simp add: range_size_def)
  qed
  note u = range_size_word [OF c(2) nz]
  have fits: "\<not> count > MaxUint64 - (e - s + 1)"
    using Cons.prems(2) unfolding count_fits u by (simp add: r)
  have add: "unat (count + (e - s + 1)) = unat count + range_size (s, e)"
    using fits unfolding count_fits u [symmetric] by (simp add: unat_word_ariths)
  have w: "of_nat (range_size (s, e)) = e - s + 1"
    unfolding u [symmetric] by simp
  have "parseRanges False (format_list rs) (count + (e - s + 1)) e (canon @ [formatRange s e])
      = Inr (count + (e - s + 1) + of_nat (sum_list (map range_size rs)),
             (canon @ [formatRange s e]) @ format_list rs)"
    using Cons.prems(2) c(3) add by (intro Cons.IH) (simp_all add: r)
  with c nz fits w show ?case
    by (auto simp: r parseRange_format Let_def add.assoc)
qed

lemma format_chars:
  assumes "c \<in> set (formatRange s e)"
  shows "is_digit c \<or> c = CHR ''-''"
  using assms by (auto simp: formatRange_def dest: dec_digits split: if_splits)

lemma set_join: "set (join c ps) \<subseteq> insert c (\<Union> (set ` set ps))"
  by (induction c ps rule: join.induct) auto

lemma format_ranges_chars:
  "c \<in> set (format_ranges rs) \<Longrightarrow> is_digit c \<or> c = CHR ''-'' \<or> c = CHR '',''"
  using set_join [of "CHR '',''" "format_list rs"]
  by (auto simp: format_ranges_def dest!: format_chars subsetD)

lemma split_format_ranges: "rs \<noteq> [] \<Longrightarrow> split_on (CHR '','') (format_ranges rs) = format_list rs"
  unfolding format_ranges_def
  by (rule split_on_join) (auto dest!: format_chars simp: is_digit_def)

lemma format_ranges_not_Nil: "rs \<noteq> [] \<Longrightarrow> format_ranges rs \<noteq> []"
  by (cases rs; cases "tl rs") (auto simp: format_ranges_def formatRange_def)

lemma parseCPUTopology_format:
  assumes "ranges_ok rs" "length (format_ranges rs @ blanks) \<le> maximumCPUInput"
    and "\<forall>c\<in>set blanks. c = CHR 0x0A"
  shows "parseCPUTopology (format_ranges rs @ blanks) =
           Inr \<lparr>topology_count = of_nat (card (cpu_set rs)), topology_signature = format_ranges rs\<rparr>"
proof -
  have ne: "rs \<noteq> []" using assms(1) by (auto simp: ranges_ok_def)
  have sum: "sum_list (map range_size rs) < 2 ^ 64" using assms(1) by (simp add: ranges_ok_def)
  note newlines_space [OF assms(3)]
  moreover have "\<forall>c\<in>set (format_ranges rs). byte c < 128 \<and> \<not> is_space (byte c)"
    by (auto dest!: format_ranges_chars dest: digit_not_space simp: is_space_def)
  ultimately have trim: "trim_space (format_ranges rs @ blanks) = format_ranges rs"
    by (intro trim_space_id) auto
  have chain: "range_chain True 0 rs"
    using assms(1) by (auto simp: ranges_ok_def range_chain_def split: list.splits)
  have pos: "0 < sum_list (map range_size rs)" using ne by (cases rs) (simp_all add: range_size_def)
  define S where "S = sum_list (map range_size rs)"
  have "unat (of_nat S :: u64) = S" using sum by (simp add: unat_of_nat S_def)
  then have nz: "(of_nat S :: u64) \<noteq> 0" using pos by (metis S_def less_numeral_extra(3) unat_0)
  have p: "parseRanges True (split_on (CHR '','') (format_ranges rs)) 0 0 [] = Inr (of_nat S, format_list rs)"
    using parseRanges_format [OF chain, of 0 "[]"] sum
    by (simp add: split_format_ranges [OF ne] S_def)
  have card: "card (cpu_set rs) = S" unfolding S_def by (rule card_cpu_set [OF assms(1)])
  have len: "\<not> (length (format_ranges rs @ blanks) = 0 \<or> length (format_ranges rs @ blanks) > maximumCPUInput)"
    using assms(2) format_ranges_not_Nil [OF ne] by auto
  show ?thesis
    unfolding parseCPUTopology_def Let_def trim if_not_P [OF len]
      if_not_P [OF format_ranges_not_Nil [OF ne]] p go_bind.simps prod.case if_not_P [OF nz] card
    by (simp only: format_ranges_def)
qed

lemma parseCPUTopology_sound:
  assumes "parseCPUTopology data = Inr t"
  shows "\<exists>rs. ranges_ok rs \<and> topology_signature t = format_ranges rs
           \<and> unat (topology_count t) = card (cpu_set rs)"
proof -
  from assms obtain canon where p: "parseRanges True (split_on (CHR '','') (trim_space data)) 0 0 []
      = Inr (topology_count t, canon)" "topology_signature t = join (CHR '','') canon"
    by (auto simp: parseCPUTopology_def Let_def go_bind_Inr_iff split: if_splits)
  from parseRanges_sound [OF p(1)] obtain rs where
    rs: "length rs = length (split_on (CHR '','') (trim_space data))" "range_chain True 0 rs"
      "canon = format_list rs" "unat (topology_count t) = sum_list (map range_size rs)" by auto
  have "rs \<noteq> []" using rs(1) by (metis length_0_conv split_on_not_Nil)
  then have ok: "ranges_ok rs"
    using rs(2) rs(4) [symmetric] unsigned_less [of "topology_count t", where ?'a = nat]
    by (auto simp: ranges_ok_def range_chain_def split: list.splits)
  with rs p(2) show ?thesis
    by (intro exI [of _ rs]) (simp add: format_ranges_def card_cpu_set [OF ok])
qed

lemma parseCPUTopology_nonzero:
  assumes "parseCPUTopology data = Inr t"
  shows "topology_count t \<noteq> 0" "topology_signature t \<noteq> []"
proof -
  show "topology_count t \<noteq> 0"
    using assms by (auto simp: parseCPUTopology_def Let_def go_bind_Inr_iff split: if_splits)
  from parseCPUTopology_sound [OF assms] obtain rs where
    "ranges_ok rs" "topology_signature t = format_ranges rs" by blast
  then show "topology_signature t \<noteq> []"
    using format_ranges_not_Nil [of rs] by (auto simp: ranges_ok_def split: list.splits)
qed

section \<open>Memory: the lines that count\<close>

definition line_name :: "string \<Rightarrow> string option" where
  "line_name line =
     (let fs = split_fields line in if fs = [] then None else Some (trim_suffix (fs ! 0) '':''))"

definition memory_lines :: "string \<Rightarrow> string list \<Rightarrow> string list" where
  "memory_lines name ls = filter (\<lambda>l. line_name l = Some name) ls"

text \<open>A line of the form \<open>name: k kB\<close>.\<close>

definition memory_entry :: "string \<Rightarrow> nat \<Rightarrow> bool" where
  "memory_entry line k \<longleftrightarrow>
     (let fs = split_fields line
      in length fs = 3 \<and> fs ! 2 = ''kB'' \<and> parse_uint 10 64 (fs ! 1) = Inr k)"

definition memory_name :: "string \<Rightarrow> bool" where
  "memory_name name \<longleftrightarrow> name = ''MemTotal'' \<or> name = ''MemAvailable''"

definition kilobytes_of :: "string \<Rightarrow> u64 \<Rightarrow> string \<Rightarrow> bool" where
  "kilobytes_of name v line \<longleftrightarrow>
     line_name line = Some name \<and> (\<exists>k. memory_entry line k \<and> unat v = 1024 * k)"

lemma kilobytes_product:
  assumes "k < 2 ^ 64" "\<not> (of_nat k :: u64) > MaxUint64 div 1024"
  shows "unat (of_nat k * 1024 :: u64) = 1024 * k"
proof -
  have k: "unat (of_nat k :: u64) = k" using assms(1) by (simp add: unat_of_nat)
  have "unat (MaxUint64 div 1024 :: u64) = 18014398509481983" by (simp add: unat_div)
  then have "k \<le> 18014398509481983" using assms(2) k by (simp add: word_less_nat_alt)
  then show ?thesis using k by (simp add: unat_word_ariths)
qed

lemma parseMemoryLine_Inr:
  assumes "parseMemoryLine line vals = Inr vals'"
  shows "(vals' = vals \<and> (\<forall>name. memory_name name \<longrightarrow> line_name line \<noteq> Some name))
         \<or> (\<exists>name v. memory_name name \<and> vals name = None \<and> vals' = vals(name \<mapsto> v)
              \<and> kilobytes_of name v line)"
proof (cases "\<exists>name. memory_name name \<and> line_name line = Some name")
  case False
  then have "vals' = vals"
    using assms by (auto simp: parseMemoryLine_def Let_def line_name_def memory_name_def split: if_splits)
  with False show ?thesis by auto
next
  case True
  then obtain name where n: "memory_name name" "line_name line = Some name" by blast
  define fs where "fs = split_fields line"
  have fs: "fs \<noteq> []" "trim_suffix (fs ! 0) '':'' = name"
    using n(2) by (auto simp: line_name_def Let_def fs_def split: if_splits)
  obtain k where k: "vals name = None" "length fs = 3" "fs ! 2 = ''kB''"
    "parse_uint 10 64 (fs ! 1) = Inr k" "\<not> (of_nat k :: u64) > MaxUint64 div 1024"
    "vals' = vals(name \<mapsto> of_nat k * 1024)"
  proof -
    have nn: "\<not> (name \<noteq> ''MemTotal'' \<and> name \<noteq> ''MemAvailable'')"
      using n(1) by (auto simp: memory_name_def)
    note p = assms [unfolded parseMemoryLine_def Let_def fs_def [symmetric] if_not_P [OF fs(1)] fs(2)
        if_not_P [OF nn]]
    have g: "\<not> (vals name \<noteq> None \<or> length fs \<noteq> 3 \<or> fs ! 2 \<noteq> ''kB'')"
      using p by (metis Inl_Inr_False)
    note q = p [unfolded if_not_P [OF g]]
    show thesis
    proof (cases "parse_uint 10 64 (fs ! 1)")
      case (Inl e)
      with q show thesis by simp
    next
      case (Inr k)
      with q g show thesis by (intro that [of k]) (auto split: if_splits)
    qed
  qed
  have "memory_entry line k" using k by (simp add: memory_entry_def fs_def)
  moreover have "unat (of_nat k * 1024 :: u64) = 1024 * k"
    using parse_uint_bound [OF k(4)] k(5) by (rule kilobytes_product)
  ultimately have "kilobytes_of name (of_nat k * 1024) line" using n by (auto simp: kilobytes_of_def)
  with n k show ?thesis by blast
qed

lemma parseMemoryLines_Inr:
  assumes "parseMemoryLines ls vals = Inr vals'" "memory_name name"
  shows "(vals' name = vals name \<and> memory_lines name ls = [])
         \<or> (vals name = None \<and> (\<exists>l v. memory_lines name ls = [l] \<and> vals' name = Some v
                               \<and> kilobytes_of name v l))"
  using assms(1)
proof (induction ls arbitrary: vals)
  case Nil
  then show ?case by (simp add: memory_lines_def)
next
  case (Cons l ls)
  from Cons.prems obtain vals1 where v1: "parseMemoryLine l vals = Inr vals1"
      "parseMemoryLines ls vals1 = Inr vals'"
    by (auto simp: go_bind_Inr_iff)
  note ih = Cons.IH [OF v1(2)]
  from parseMemoryLine_Inr [OF v1(1)] show ?case
  proof (elim disjE exE conjE)
    assume "vals1 = vals" "\<forall>name. memory_name name \<longrightarrow> line_name l \<noteq> Some name"
    with ih assms(2) show ?case by (simp add: memory_lines_def)
  next
    fix n v
    assume n: "memory_name n" "vals n = None" "vals1 = vals(n \<mapsto> v)" "kilobytes_of n v l"
    show ?case
    proof (cases "n = name")
      case True
      with ih n show ?thesis by (auto simp: memory_lines_def kilobytes_of_def)
    next
      case False
      with ih n show ?thesis by (simp add: memory_lines_def kilobytes_of_def)
    qed
  qed
qed

lemma parseMemory_values:
  assumes "parseMemory data = Inr m"
  shows "\<exists>lt la. memory_lines ''MemTotal'' (scan_lines data) = [lt]
           \<and> memory_lines ''MemAvailable'' (scan_lines data) = [la]
           \<and> kilobytes_of ''MemTotal'' (mem_totalBytes m) lt
           \<and> kilobytes_of ''MemAvailable'' (mem_availableBytes m) la
           \<and> mem_availableBytes m \<le> mem_totalBytes m
           \<and> mem_usedBytes m = mem_totalBytes m - mem_availableBytes m"
proof -
  from assms obtain vals t a where v: "parseMemoryLines (scan_lines data) Map.empty = Inr vals"
    "vals ''MemTotal'' = Some t" "vals ''MemAvailable'' = Some a" "a \<le> t"
    "m = \<lparr>mem_totalBytes = t, mem_availableBytes = a, mem_usedBytes = t - a\<rparr>"
  proof -
    from assms obtain vals where v: "parseMemoryLines (scan_lines data) Map.empty = Inr vals"
      and r: "(case (vals ''MemTotal'', vals ''MemAvailable'') of
          (Some t, Some a) \<Rightarrow>
            if a > t then Inl (New ''required memory values are missing or inconsistent'')
            else Inr \<lparr>mem_totalBytes = t, mem_availableBytes = a, mem_usedBytes = t - a\<rparr>
        | _ \<Rightarrow> Inl (New ''required memory values are missing or inconsistent'')) = Inr m"
      by (auto simp: parseMemory_def go_bind_Inr_iff split: if_splits)
    show thesis
    proof (cases "vals ''MemTotal''")
      case None
      with r show thesis by simp
    next
      case (Some t)
      note t = Some
      show thesis
      proof (cases "vals ''MemAvailable''")
        case None
        with r t show thesis by simp
      next
        case (Some a)
        with r t v show thesis by (intro that [of vals t a]) (auto split: if_splits)
      qed
    qed
  qed
  from parseMemoryLines_Inr [OF v(1), of "''MemTotal''"]
    parseMemoryLines_Inr [OF v(1), of "''MemAvailable''"] v show ?thesis
    by (auto simp: memory_name_def)
qed

section \<open>Well-formed observations\<close>

text \<open>What the coordinator's validators accept; the collectors always produce it.\<close>

definition host_ok :: "hostObservation \<Rightarrow> bool" where
  "host_ok v \<longleftrightarrow>
     valid_outcome (host_hostname v) \<and> valid_outcome (host_uptime v)
     \<and> (is_present (host_hostname v) \<longrightarrow>
          o_value (host_hostname v) \<noteq> [] \<and> valid_utf8 (o_value (host_hostname v)))"

definition load_value_ok :: "float64 \<Rightarrow> bool" where
  "load_value_ok x \<longleftrightarrow> \<not> is_NaN x \<and> \<not> is_Inf x \<and> \<not> f_less x (Fin 0)"

definition load_ok :: "loadObservation \<Rightarrow> bool" where
  "load_ok l \<longleftrightarrow>
     load_value_ok (load_oneMinute l) \<and> load_value_ok (load_fiveMinutes l)
     \<and> load_value_ok (load_fifteenMinutes l)"

definition cpuLoad_ok :: "cpuLoadObservation \<Rightarrow> bool" where
  "cpuLoad_ok v \<longleftrightarrow>
     valid_outcome (cl_logicalCPUCount v) \<and> valid_outcome (cl_load v)
     \<and> (if is_present (cl_logicalCPUCount v)
         then o_value (cl_logicalCPUCount v) \<noteq> 0 \<and> cl_topologySignature v \<noteq> []
         else cl_topologySignature v = [])
     \<and> (is_present (cl_load v) \<longrightarrow> load_ok (o_value (cl_load v)))"

definition bytes_ok :: "memoryObservation \<Rightarrow> bool" where
  "bytes_ok m \<longleftrightarrow>
     mem_availableBytes m \<le> mem_totalBytes m
     \<and> mem_usedBytes m = mem_totalBytes m - mem_availableBytes m"

definition memory_outcome_ok :: "memoryObservation outcome \<Rightarrow> bool" where
  "memory_outcome_ok v \<longleftrightarrow> valid_outcome v \<and> (is_present v \<longrightarrow> bytes_ok (o_value v))"

lemma collectHost_ok: "host_ok (collectHost c s)"
  by (auto simp: collectHost_def host_ok_def Let_def split: option.split sum.split)

lemma parseLoad_ok: "parseLoad data = Inr l \<Longrightarrow> load_ok l"
  by (auto simp: parseLoad_def parseLoadValue_def Let_def go_bind_Inr_iff load_ok_def load_value_ok_def
      split: if_splits sum.splits)

lemma collectCPULoad_ok: "cpuLoad_ok (collectCPULoad c s)"
  using parseCPUTopology_nonzero parseLoad_ok
  by (auto simp: collectCPULoad_def cpuLoad_ok_def Let_def split: option.split sum.split)

lemma collectMemory_ok: "memory_outcome_ok (collectMemory c s)"
  using parseMemory_values
  by (fastforce simp: collectMemory_def memory_outcome_ok_def bytes_ok_def split: option.split sum.split)

lemma collectRootFilesystem_ok: "memory_outcome_ok (collectRootFilesystem c s)"
  by (auto simp: collectRootFilesystem_def memory_outcome_ok_def bytes_ok_def Let_def not_less
      split: option.split sum.split)

lemma unat_mult_fits:
  fixes a b :: u64
  assumes "b \<noteq> 0" "\<not> a > MaxUint64 div b"
  shows "unat (a * b) = unat a * unat b"
proof -
  have m: "unat (MaxUint64 :: u64) = 18446744073709551615" by simp
  have "unat a \<le> 18446744073709551615 div unat b"
    using assms(2) unfolding word_less_nat_alt unat_div m by simp
  then have "unat a * unat b \<le> 18446744073709551615 div unat b * unat b"
    by (rule mult_le_mono1)
  also have "\<dots> \<le> 18446744073709551615" by (rule div_times_less_eq_dividend)
  finally show ?thesis by (simp add: unat_word_ariths)
qed

section \<open>Properties\<close>

text \<open>
  The uptime the kernel prints, whole seconds, a fraction and anything
  after a blank, is parsed to exactly the whole seconds, up to the largest 64-bit value.
\<close>

theorem uptime_roundtrip:
  assumes "f \<noteq> []" "\<forall>c\<in>set f. is_digit c" "\<forall>c\<in>set rest. byte c < 128"
    and "length (dec (unat n) @ CHR ''.'' # f @ CHR '' '' # rest) \<le> maximumUptimeInput"
  shows "parseUptime (dec (unat n) @ CHR ''.'' # f @ CHR '' '' # rest) = Inr n"
  using parseUptime_value [of "unat n" f rest] assms unsigned_less [of n, where ?'a = nat] by simp

theorem uptime_roundtrip_witness: "parseUptime ''3512.07 100.00'' = Inr 3512"
proof -
  have f: "is_digit c" if "c \<in> set ''07''" for c using that by (auto simp: is_digit_def)
  have r: "byte c < 128" if "c \<in> set ''100.00''" for c using that by auto
  have d: "dec (unat (3512 :: u64)) = ''3512''" by (simp add: wire_simps)
  show ?thesis
    using uptime_roundtrip [of "''07''" "''100.00''" 3512] f r
    by (simp add: maximumUptimeInput_def wire_simps)
qed

text \<open>
  A CPU list that is accepted denotes disjoint increasing intervals; the
  count is the exact number of CPUs in them, without overflow, and the signature is their
  canonical text.
\<close>

theorem cpu_topology_sound:
  assumes "parseCPUTopology data = Inr t"
  shows "\<exists>rs. ranges_ok rs \<and> topology_signature t = format_ranges rs
           \<and> unat (topology_count t) = card (cpu_set rs) \<and> topology_count t \<noteq> 0"
  using parseCPUTopology_sound [OF assms] parseCPUTopology_nonzero(1) [OF assms] by blast

text \<open>
  The text of any well-formed interval list, with trailing newlines,
  is accepted, and gives the number of its CPUs and itself as the signature; so equal
  signatures mean equal CPU sets.
\<close>

theorem cpu_topology_roundtrip:
  assumes "ranges_ok rs" "length (format_ranges rs @ newlines) \<le> maximumCPUInput"
    and "\<forall>c\<in>set newlines. c = CHR 0x0A"
  shows "parseCPUTopology (format_ranges rs @ newlines) =
           Inr \<lparr>topology_count = of_nat (card (cpu_set rs)), topology_signature = format_ranges rs\<rparr>"
  using assms by (rule parseCPUTopology_format)

lemma example_ranges: "ranges_ok [(0, 3), (6, 6)]" "format_ranges [(0, 3), (6, 6)] = ''0-3,6''"
  "card (cpu_set [(0, 3), (6, 6)]) = 5"
proof -
  show ok: "ranges_ok [(0, 3), (6, 6)]" by (simp add: ranges_ok_def range_size_def)
  show "format_ranges [(0, 3), (6, 6)] = ''0-3,6''"
    by (simp add: format_ranges_def formatRange_def wire_simps)
  show "card (cpu_set [(0, 3), (6, 6)]) = 5"
    unfolding card_cpu_set [OF ok] by (simp add: range_size_def)
qed

theorem cpu_topology_roundtrip_witness:
  "parseCPUTopology (''0-3,6'' @ [CHR 0x0A]) =
     Inr \<lparr>topology_count = 5, topology_signature = ''0-3,6''\<rparr>"
  using cpu_topology_roundtrip [OF example_ranges(1), of "[CHR 0x0A]"] example_ranges(2,3)
  by (simp add: maximumCPUInput_def)

theorem cpu_topology_sound_witness:
  "\<exists>rs. ranges_ok rs \<and> ''0-3,6'' = format_ranges rs \<and> 5 = card (cpu_set rs)"
proof -
  have "parseCPUTopology (''0-3,6'') = Inr \<lparr>topology_count = 5, topology_signature = ''0-3,6''\<rparr>"
    using parseCPUTopology_format [OF example_ranges(1), of "[]"] example_ranges(2,3)
    by (simp add: maximumCPUInput_def)
  from cpu_topology_sound [OF this] show ?thesis by auto
qed

text \<open>
  C39 (memory_exact): accepted memory information has exactly one MemTotal and one MemAvailable
  line, in any order and among any other lines; total and available are their kilobytes times
  1024 without overflow, and used is the rest.
\<close>

theorem memory_exact:
  assumes "parseMemory data = Inr m"
  shows "\<exists>lt la kt ka. memory_lines ''MemTotal'' (scan_lines data) = [lt]
           \<and> memory_lines ''MemAvailable'' (scan_lines data) = [la]
           \<and> memory_entry lt kt \<and> memory_entry la ka
           \<and> unat (mem_totalBytes m) = 1024 * kt \<and> unat (mem_availableBytes m) = 1024 * ka
           \<and> unat (mem_usedBytes m) + 1024 * ka = 1024 * kt"
proof -
  from parseMemory_values [OF assms] obtain lt la kt ka where
    l: "memory_lines ''MemTotal'' (scan_lines data) = [lt]"
      "memory_lines ''MemAvailable'' (scan_lines data) = [la]"
      "memory_entry lt kt" "memory_entry la ka"
      "unat (mem_totalBytes m) = 1024 * kt" "unat (mem_availableBytes m) = 1024 * ka"
    and le: "mem_availableBytes m \<le> mem_totalBytes m"
    and used: "mem_usedBytes m = mem_totalBytes m - mem_availableBytes m"
    by (auto simp: kilobytes_of_def)
  have "unat (mem_usedBytes m) = 1024 * kt - 1024 * ka"
    using le l(5,6) unfolding used by (simp add: unat_sub)
  moreover have "1024 * ka \<le> 1024 * kt" using le l(5,6) by (simp add: word_le_nat_alt)
  ultimately have "unat (mem_usedBytes m) + 1024 * ka = 1024 * kt" by linarith
  with l show ?thesis by blast
qed

definition example_meminfo :: string where
  "example_meminfo =
     ''MemTotal: 8 kB'' @ CHR 0x0A # ''MemFree: 1 kB'' @ CHR 0x0A # ''MemAvailable: 3 kB'' @ [CHR 0x0A]"

lemma example_lines:
  "scan_lines example_meminfo = [''MemTotal: 8 kB'', ''MemFree: 1 kB'', ''MemAvailable: 3 kB'']"
proof -
  have "split_on (CHR 0x0A) example_meminfo =
      [''MemTotal: 8 kB'', ''MemFree: 1 kB'', ''MemAvailable: 3 kB'', []]"
  proof -
    have n: "CHR 0x0A \<notin> set ''MemTotal: 8 kB''" "CHR 0x0A \<notin> set ''MemFree: 1 kB''"
      "CHR 0x0A \<notin> set ''MemAvailable: 3 kB''" by simp_all
    show ?thesis
      unfolding example_meminfo_def split_on_append [OF n(1)] split_on_append [OF n(2)]
        split_on_append [OF n(3)] by simp
  qed
  then show ?thesis by (simp add: scan_lines_def drop_cr_def)
qed

lemma example_fields:
  "split_fields ''MemTotal: 8 kB'' = [''MemTotal:'', ''8'', ''kB'']"
  "split_fields ''MemFree: 1 kB'' = [''MemFree:'', ''1'', ''kB'']"
  "split_fields ''MemAvailable: 3 kB'' = [''MemAvailable:'', ''3'', ''kB'']"
  by (simp_all add: split_fields_def is_space_def)

lemma example_memory:
  "parseMemory example_meminfo =
     Inr \<lparr>mem_totalBytes = 8192, mem_availableBytes = 3072, mem_usedBytes = 5120\<rparr>"
proof -
  have l1: "parseMemoryLine ''MemTotal: 8 kB'' vals = Inr (vals(''MemTotal'' \<mapsto> 8192))"
    if "vals ''MemTotal'' = None" for vals
    using that by (simp add: parseMemoryLine_def example_fields trim_suffix_def has_suffix_def
        parse_uint_def digit_of_def)
  have l2: "parseMemoryLine ''MemFree: 1 kB'' vals = Inr vals" for vals
    by (simp add: parseMemoryLine_def example_fields trim_suffix_def has_suffix_def)
  have l3: "parseMemoryLine ''MemAvailable: 3 kB'' vals = Inr (vals(''MemAvailable'' \<mapsto> 3072))"
    if "vals ''MemAvailable'' = None" for vals
    using that by (simp add: parseMemoryLine_def example_fields trim_suffix_def has_suffix_def
        parse_uint_def digit_of_def)
  have "length example_meminfo = 48" by (simp add: example_meminfo_def)
  then show ?thesis
    using l1 l2 l3 by (auto simp: parseMemory_def example_lines maximumMemoryInput_def line_too_long_def)
qed

theorem memory_exact_witness:
  "\<exists>lt kt. memory_lines ''MemTotal'' (scan_lines example_meminfo) = [lt] \<and> memory_entry lt kt
     \<and> 8192 = 1024 * kt"
  using memory_exact [OF example_memory] by auto

text \<open>
  A root-filesystem observation that is presented carries the exact
  products of block counts and block size as natural numbers: nothing wraps around.
\<close>

theorem root_filesystem_exact:
  assumes "src_rootFilesystem s = Inr v"
    and "is_present (collectRootFilesystem None s)"
    and "m = o_value (collectRootFilesystem None s)"
  shows "unat (mem_totalBytes m) = unat (TotalBlocks v) * unat (BlockSize v)
         \<and> unat (mem_availableBytes m) = unat (AvailableBlocks v) * unat (BlockSize v)
         \<and> unat (mem_usedBytes m) =
             (unat (TotalBlocks v) - unat (AvailableBlocks v)) * unat (BlockSize v)"
proof -
  have g: "BlockSize v \<noteq> 0" "\<not> TotalBlocks v > MaxUint64 div BlockSize v"
    "\<not> AvailableBlocks v > MaxUint64 div BlockSize v"
    using assms(1,2) by (auto simp: collectRootFilesystem_def split: if_splits)
  have m: "m = \<lparr>mem_totalBytes = TotalBlocks v * BlockSize v,
      mem_availableBytes = AvailableBlocks v * BlockSize v,
      mem_usedBytes = TotalBlocks v * BlockSize v - AvailableBlocks v * BlockSize v\<rparr>"
    and le: "AvailableBlocks v * BlockSize v \<le> TotalBlocks v * BlockSize v"
    using assms g by (auto simp: collectRootFilesystem_def Let_def not_less split: if_splits)
  note mult = unat_mult_fits [OF g(1,2)] unat_mult_fits [OF g(1,3)]
  have "unat (TotalBlocks v * BlockSize v - AvailableBlocks v * BlockSize v)
      = (unat (TotalBlocks v) - unat (AvailableBlocks v)) * unat (BlockSize v)"
    using le by (simp add: unat_sub mult diff_mult_distrib)
  then show ?thesis by (simp add: m mult)
qed

definition example_source :: genericSource where
  "example_source =
     \<lparr>src_hostname = Inr ''pi'', src_uptime = Inr ''3512.07 100.00'', src_cpuOnline = Inr ''0-3,6'',
      src_loadAverage = Inl (Errno 2), src_memoryInfo = Inr example_meminfo,
      src_rootFilesystem = Inr \<lparr>BlockSize = 4096, TotalBlocks = 100, AvailableBlocks = 30\<rparr>\<rparr>"

theorem root_filesystem_exact_witness:
  "unat (mem_usedBytes (o_value (collectRootFilesystem None example_source))) = 286720"
proof -
  have "src_rootFilesystem example_source =
      Inr \<lparr>BlockSize = 4096, TotalBlocks = 100, AvailableBlocks = 30\<rparr>"
    by (simp add: example_source_def)
  moreover have "is_present (collectRootFilesystem None example_source)"
    by (simp add: collectRootFilesystem_def example_source_def Let_def)
  ultimately show ?thesis
    using root_filesystem_exact [OF _ _ refl, of example_source] by simp
qed

end
