(* ===== verification/Netlink.thy ===== *)
theory Netlink
  imports GoBytes
begin

text \<open>
  \<open>internal/platform/netlink.go\<close>, the record of \<open>internal/platform/platform.go\<close> it fills and
  the dump loop of \<open>internal/platform/netlink_linux.go\<close>. Slices and fixed-width reads are
  checked, so that a read out of bounds is a panic of the model too; the kernel's side of the
  socket is a list of steps that the loop consumes.
\<close>

section \<open>Link observations\<close>

record Link =
  Index :: i32
  LinkName :: string
  HardwareType :: u16
  Flags :: u32
  Kind :: string
  LinkIndex :: "i32 option"
  MasterIndex :: "i32 option"
  OperState :: "u8 option"
  LinkRXBytes :: "u64 option"
  LinkTXBytes :: "u64 option"
  DevicePath :: string

definition empty_link :: Link where
  "empty_link =
     \<lparr>Index = 0, LinkName = [], HardwareType = 0, Flags = 0, Kind = [], LinkIndex = None,
      MasterIndex = None, OperState = None, LinkRXBytes = None, LinkTXBytes = None,
      DevicePath = []\<rparr>"

definition ifInfoMessageSize :: nat where "ifInfoMessageSize = 16"

abbreviation (input) iflaIfName :: u16 where "iflaIfName \<equiv> 3"
abbreviation (input) iflaLink :: u16 where "iflaLink \<equiv> 5"
abbreviation (input) iflaMaster :: u16 where "iflaMaster \<equiv> 10"
abbreviation (input) iflaOperState :: u16 where "iflaOperState \<equiv> 16"
abbreviation (input) iflaLinkInfo :: u16 where "iflaLinkInfo \<equiv> 18"
abbreviation (input) iflaStats64 :: u16 where "iflaStats64 \<equiv> 23"
abbreviation (input) iflaInfoKind :: u16 where "iflaInfoKind \<equiv> 1"

record netlinkAttribute =
  attr_kind :: u16
  attr_data :: string

section \<open>Decoding\<close>

definition netlinkString :: "string \<Rightarrow> string" where
  "netlinkString data = (if data \<noteq> [] \<and> last data = of_byte 0 then butlast data else data)"

definition attributeInt32 :: "string \<Rightarrow> (i32 go) call" where
  "attributeInt32 data =
     (if length data \<noteq> 4 then Return (Inl (New ''invalid link index attribute''))
      else call_bind (Uint32 data) (\<lambda>v. Return (Inr v)))"

text \<open>The loop of \<open>parseAttributes\<close>; it ends because every round consumes at least four bytes.\<close>

function parseAttributes :: "string \<Rightarrow> (netlinkAttribute list go) call" where
  "parseAttributes data =
     (if data = [] then Return (Inr [])
      else if length data < 4 then Return (Inl (New ''truncated netlink attribute''))
      else call_bind (read16 data 0 2) (\<lambda>size.
        if unat size < 4 \<or> unat size > length data
        then Return (Inl (New ''invalid netlink attribute length''))
        else call_bind (read16 data 2 4) (\<lambda>kind.
             call_bind (checked_slice data 4 (unat size)) (\<lambda>payload.
               let aligned = align4 (unat size)
               in if aligned > length data
                  then Return (Inl (New ''truncated netlink attribute padding''))
                  else call_bind (checked_slice data aligned (length data)) (\<lambda>rest.
                         io_bind (parseAttributes rest) (\<lambda>others.
                           Return (Inr (\<lparr>attr_kind = kind AND 0x3fff, attr_data = payload\<rparr>
                                        # others))))))))"
  by pat_completeness auto
termination
proof (relation "measure length")
  fix data rest :: string and size kind payload aligned
  assume "\<not> (unat size < 4 \<or> unat size > length data)" "aligned = align4 (unat size)"
    "checked_slice data aligned (length data) = Return rest"
  then have "4 \<le> aligned" "aligned \<le> length data" "length rest = length data - aligned"
    using align4_bounds(1) [of "unat size"] by (auto dest!: checked_slice_Return_D)
  then show "(rest, data) \<in> measure length" by simp
qed simp

declare parseAttributes.simps [simp del]

fun findLinkKind :: "netlinkAttribute list \<Rightarrow> string" where
  "findLinkKind [] = []"
| "findLinkKind (a # as) =
     (if attr_kind a = iflaInfoKind then netlinkString (attr_data a) else findLinkKind as)"

definition decodeLinkKind :: "string \<Rightarrow> (string go) call" where
  "decodeLinkKind data = io_bind (parseAttributes data) (\<lambda>as. Return (Inr (findLinkKind as)))"

text \<open>One iteration of the loop over the attributes of a link.\<close>

definition decodeAttribute :: "netlinkAttribute \<Rightarrow> Link \<Rightarrow> (Link go) call" where
  "decodeAttribute a link =
     (let kind = attr_kind a; data = attr_data a
      in if kind = iflaIfName then Return (Inr (link\<lparr>LinkName := netlinkString data\<rparr>))
         else if kind = iflaLink then
           io_bind (attributeInt32 data) (\<lambda>v. Return (Inr (link\<lparr>LinkIndex := Some v\<rparr>)))
         else if kind = iflaMaster then
           io_bind (attributeInt32 data) (\<lambda>v. Return (Inr (link\<lparr>MasterIndex := Some v\<rparr>)))
         else if kind = iflaOperState then
           (if length data \<noteq> 1 then Return (Inl (New ''invalid operational state attribute''))
            else Return (Inr (link\<lparr>OperState := Some (of_nat (byte (hd data)))\<rparr>)))
         else if kind = iflaLinkInfo then
           io_bind (decodeLinkKind data) (\<lambda>k. Return (Inr (link\<lparr>Kind := k\<rparr>)))
         else if kind = iflaStats64 then
           (if length data < 32 then Return (Inl (New ''truncated 64-bit link statistics''))
            else call_bind (read64 data 16 24) (\<lambda>rx.
                 call_bind (read64 data 24 32) (\<lambda>tx.
                   Return (Inr (link\<lparr>LinkRXBytes := Some rx, LinkTXBytes := Some tx\<rparr>)))))
         else Return (Inr link))"

fun decodeAttributes :: "netlinkAttribute list \<Rightarrow> Link \<Rightarrow> (Link go) call" where
  "decodeAttributes [] link = Return (Inr link)"
| "decodeAttributes (a # as) link = io_bind (decodeAttribute a link) (decodeAttributes as)"

definition decodeLink :: "string \<Rightarrow> (Link go) call" where
  "decodeLink data =
     (if length data < ifInfoMessageSize
      then Return (Inl (New ''truncated interface message''))
      else call_bind (read16 data 2 4) (\<lambda>hw.
           call_bind (read32 data 4 8) (\<lambda>index.
           call_bind (read32 data 8 12) (\<lambda>flags.
           call_bind (checked_slice data ifInfoMessageSize (length data)) (\<lambda>tail.
           io_bind (parseAttributes tail) (\<lambda>as.
           io_bind (decodeAttributes as
                      (empty_link\<lparr>HardwareType := hw, Index := index, Flags := flags\<rparr>))
             (\<lambda>link. if sint (Index link) \<le> 0 \<or> LinkName link = []
                     then Return (Inl (New ''interface message lacks identity''))
                     else Return (Inr link))))))))"

section \<open>Netlink messages\<close>

definition netlinkHeaderSize :: nat where "netlinkHeaderSize = 16"
definition maximumDatagram :: nat where "maximumDatagram = 64 * 1024"
definition maximumDumpBytes :: nat where "maximumDumpBytes = 256 * 1024"
definition maximumLinks :: nat where "maximumLinks = 64"

record NetlinkMessage =
  msg_type :: u16
  msg_seq :: u32
  msg_data :: string

text \<open>
  \<open>syscall.ParseNetlinkMessage\<close> of the standard library: messages with a 16-byte header, each
  padded to four bytes; a bad length is EINVAL (22).
\<close>

function ParseNetlinkMessage :: "string \<Rightarrow> (NetlinkMessage list go) call" where
  "ParseNetlinkMessage b =
     (if length b < netlinkHeaderSize then Return (Inr [])
      else call_bind (read32 b 0 4) (\<lambda>size.
           call_bind (read16 b 4 6) (\<lambda>ty.
           call_bind (read32 b 8 12) (\<lambda>seq.
             let l = align4 (unat size)
             in if unat size < netlinkHeaderSize \<or> l > length b then Return (Inl (Errno 22))
                else call_bind (checked_slice b netlinkHeaderSize (unat size)) (\<lambda>payload.
                     call_bind (checked_slice b l (length b)) (\<lambda>rest.
                     io_bind (ParseNetlinkMessage rest) (\<lambda>others.
                       Return (Inr (\<lparr>msg_type = ty, msg_seq = seq, msg_data = payload\<rparr>
                                    # others)))))))))"
  by pat_completeness auto
termination
proof (relation "measure length")
  fix b rest :: string and size ty seq l payload
  assume "\<not> length b < netlinkHeaderSize" "l = align4 (unat size)"
    "\<not> (unat size < netlinkHeaderSize \<or> l > length b)"
    "checked_slice b l (length b) = Return rest"
  then have "16 \<le> l" "l \<le> length b" "length rest = length b - l"
    using align4_bounds(1) [of "unat size"]
    by (auto simp: netlinkHeaderSize_def dest!: checked_slice_Return_D)
  then show "(rest, b) \<in> measure length" by simp
qed simp

declare ParseNetlinkMessage.simps [simp del]

text \<open>\<open>decodeNetlinkError\<close>: the conversion to \<open>syscall.Errno\<close> sign-extends to 64 bits.\<close>

definition decodeNetlinkError :: "string \<Rightarrow> (goerror option) call" where
  "decodeNetlinkError data =
     (if length data < 4 then Return (Some (New ''malformed netlink error''))
      else call_bind (read32 data 0 4) (\<lambda>code.
             if code = 0 then Return None
             else let c = (if sint code < 0 then - code else code)
                  in Return (Some (Errno (nat (sint c mod 2 ^ 64))))))"

section \<open>The dump\<close>

abbreviation (input) NLMSG_ERROR :: u16 where "NLMSG_ERROR \<equiv> 2"
abbreviation (input) NLMSG_DONE :: u16 where "NLMSG_DONE \<equiv> 3"
abbreviation (input) RTM_NEWLINK :: u16 where "RTM_NEWLINK \<equiv> 16"
abbreviation (input) RTM_GETLINK :: u16 where "RTM_GETLINK \<equiv> 18"
abbreviation (input) dump_sequence :: u32 where "dump_sequence \<equiv> 1"

text \<open>The request: \<open>NLM_F_REQUEST | NLM_F_DUMP\<close> is 0x301 and \<open>AF_UNSPEC\<close> is 0.\<close>

definition linkRequest :: "string call" where
  "linkRequest =
     (let buf = zero_bytes (netlinkHeaderSize + ifInfoMessageSize)
      in call_bind (put_at 0 (bytes32 (of_nat (length buf))) buf) (\<lambda>buf.
         call_bind (put_at 4 (bytes16 RTM_GETLINK) buf) (\<lambda>buf.
         call_bind (put_at 6 (bytes16 0x301) buf) (\<lambda>buf.
         call_bind (put_at 8 (bytes32 dump_sequence) buf) (\<lambda>buf.
         put_at 16 [of_byte 0] buf)))))"

text \<open>What the loop over the messages of one datagram decides: the dump is done, or goes on.\<close>

datatype dump = Dumped "Link list" | Dumping "Link list"

fun dumpMessages :: "NetlinkMessage list \<Rightarrow> Link list \<Rightarrow> (dump go) call" where
  "dumpMessages [] links = Return (Inr (Dumping links))"
| "dumpMessages (m # ms) links =
     (if msg_seq m \<noteq> dump_sequence then dumpMessages ms links
      else if msg_type m = NLMSG_DONE then Return (Inr (Dumped links))
      else if msg_type m = NLMSG_ERROR then
        call_bind (decodeNetlinkError (msg_data m)) (\<lambda>err.
          case err of Some e \<Rightarrow> Return (Inl e) | None \<Rightarrow> dumpMessages ms links)
      else if msg_type m = RTM_NEWLINK then
        io_bind (decodeLink (msg_data m)) (\<lambda>link.
          if length (links @ [link]) > maximumLinks then Return (Inl ErrTooManyLinks)
          else dumpMessages ms (links @ [link]))
      else dumpMessages ms links)"

text \<open>
  What the system answers in one round of the receive loop: \<open>ctx.Err()\<close>, the time left, and
  the results of the two system calls.
\<close>

record dump_step =
  step_ctx :: "goerror option"
  step_remaining :: int
  step_setsockopt :: "goerror option"
  step_recv :: "string go"

record dump_env =
  env_ctx :: "goerror option"
  env_socket :: "goerror option"
  env_bind :: "goerror option"
  env_sendto :: "goerror option"
  env_steps :: "dump_step list"

text \<open>The receive loop; \<open>None\<close> means that it still waits after the given rounds.\<close>

fun dumpLoop :: "dump_step list \<Rightarrow> nat \<Rightarrow> Link list \<Rightarrow> (Link list go) call option" where
  "dumpLoop [] totalBytes links = None"
| "dumpLoop (s # steps) totalBytes links =
     (case step_ctx s of
        Some e \<Rightarrow> Some (Return (Inl e))
      | None \<Rightarrow>
         if step_remaining s \<le> 0 then Some (Return (Inl (New ''netlink dump timed out'')))
         else (case step_setsockopt s of
            Some e \<Rightarrow> Some (Return (Inl e))
          | None \<Rightarrow>
             (case step_recv s of
                Inl e \<Rightarrow> Some (Return (Inl e))
              | Inr data \<Rightarrow>
                  if length data = maximumDatagram
                  then Some (Return (Inl (New ''netlink datagram may be truncated'')))
                  else if totalBytes + length data > maximumDumpBytes
                  then Some (Return (Inl (New ''netlink dump exceeds byte limit'')))
                  else (case io_bind (ParseNetlinkMessage data) (\<lambda>ms. dumpMessages ms links) of
                          Panic e \<Rightarrow> Some (Panic e)
                        | Return (Inl e) \<Rightarrow> Some (Return (Inl e))
                        | Return (Inr (Dumped ls)) \<Rightarrow> Some (Return (Inr ls))
                        | Return (Inr (Dumping ls)) \<Rightarrow>
                            dumpLoop steps (totalBytes + length data) ls))))"

definition readLinks :: "dump_env \<Rightarrow> (Link list go) call option" where
  "readLinks env =
     (case env_ctx env of Some e \<Rightarrow> Some (Return (Inl e)) | None \<Rightarrow>
      (case env_socket env of Some e \<Rightarrow> Some (Return (Inl e)) | None \<Rightarrow>
      (case env_bind env of Some e \<Rightarrow> Some (Return (Inl e)) | None \<Rightarrow>
      (case linkRequest of Panic e \<Rightarrow> Some (Panic e) | Return request \<Rightarrow>
      (case env_sendto env of Some e \<Rightarrow> Some (Return (Inl e)) | None \<Rightarrow>
         dumpLoop (env_steps env) 0 [])))))"

section \<open>No input panics\<close>

lemma parseAttributes_returns [returns_intros]: "returns (parseAttributes data)"
proof (induction data rule: parseAttributes.induct)
  case (1 data)
  show ?case
    by (subst parseAttributes.simps)
      (auto simp: Let_def not_less intro!: returns_intros 1 dest: checked_slice_Return_D)
qed

lemma attributeInt32_returns [returns_intros]: "returns (attributeInt32 data)"
  by (auto simp: attributeInt32_def intro!: returns_intros)

lemma decodeLinkKind_returns [returns_intros]: "returns (decodeLinkKind data)"
  by (auto simp: decodeLinkKind_def intro!: returns_intros)

lemma decodeAttribute_returns [returns_intros]: "returns (decodeAttribute a link)"
  unfolding decodeAttribute_def Let_def by (auto intro!: returns_intros)

lemma decodeAttributes_returns [returns_intros]: "returns (decodeAttributes as link)"
  by (induction "as" arbitrary: link) (auto intro!: returns_intros)

lemma decodeLink_returns [returns_intros]: "returns (decodeLink data)"
  by (auto simp: decodeLink_def ifInfoMessageSize_def intro!: returns_intros)

lemma ParseNetlinkMessage_returns [returns_intros]: "returns (ParseNetlinkMessage b)"
proof (induction b rule: ParseNetlinkMessage.induct)
  case (1 b)
  have "unat size \<le> length b" if "align4 (unat size) \<le> length b" for size :: u32
    using that align4_bounds(1) le_trans by blast
  then show ?case
    by (subst ParseNetlinkMessage.simps)
      (auto simp: Let_def not_less netlinkHeaderSize_def intro!: returns_intros 1)
qed

lemma decodeNetlinkError_returns [returns_intros]: "returns (decodeNetlinkError data)"
  by (auto simp: decodeNetlinkError_def Let_def intro!: returns_intros)

lemma dumpMessages_returns [returns_intros]: "returns (dumpMessages ms links)"
  by (induction ms arbitrary: links) (auto intro!: returns_intros split: option.split)

lemma dumpLoop_no_panic: "dumpLoop steps n links \<noteq> Some (Panic e)"
proof (induction steps arbitrary: n links)
  case Nil
  then show ?case by simp
next
  case (Cons s steps)
  have "returns (io_bind (ParseNetlinkMessage d) (\<lambda>ms. dumpMessages ms links))" for d
    by (auto intro!: returns_intros)
  then have "io_bind (ParseNetlinkMessage d) (\<lambda>ms. dumpMessages ms links) \<noteq> Panic e'" for d e'
    by (metis returns_Panic)
  with Cons show ?case
    by (auto split: option.split sum.split call.split dump.split)
qed

lemma linkRequest_eq:
  "linkRequest = Return (bytes32 32 @ bytes16 RTM_GETLINK @ bytes16 0x301 @ bytes32 1 @ zero_bytes 20)"
  by (simp add: linkRequest_def Let_def netlinkHeaderSize_def ifInfoMessageSize_def put_at_def
      zero_bytes_def replicate_eval)

section \<open>The kernel's encoding\<close>

text \<open>
  The wire format the decoders are compared with: attributes with a four-byte header padded to
  four bytes, a link message with one attribute per known fact, and messages in a datagram.
\<close>

definition encode_attr :: "netlinkAttribute \<Rightarrow> string" where
  "encode_attr a =
     (let n = 4 + length (attr_data a)
      in bytes16 (of_nat n) @ bytes16 (attr_kind a) @ attr_data a @ zero_bytes (align4 n - n))"

definition attr_ok :: "netlinkAttribute \<Rightarrow> bool" where
  "attr_ok a \<longleftrightarrow> attr_kind a AND 0x3fff = attr_kind a \<and> length (attr_data a) \<le> 65531"

definition opt_attr :: "u16 \<Rightarrow> ('a \<Rightarrow> string) \<Rightarrow> 'a option \<Rightarrow> netlinkAttribute list" where
  "opt_attr k f v =
     (case v of None \<Rightarrow> [] | Some x \<Rightarrow> [\<lparr>attr_kind = k, attr_data = f x\<rparr>])"

definition link_attributes :: "Link \<Rightarrow> netlinkAttribute list" where
  "link_attributes l =
     \<lparr>attr_kind = iflaIfName, attr_data = LinkName l @ [of_byte 0]\<rparr>
     # opt_attr iflaLink bytes32 (LinkIndex l)
     @ opt_attr iflaMaster bytes32 (MasterIndex l)
     @ opt_attr iflaOperState (\<lambda>v. [of_byte (unat v)]) (OperState l)
     @ opt_attr iflaLinkInfo
         (\<lambda>k. encode_attr \<lparr>attr_kind = iflaInfoKind, attr_data = k @ [of_byte 0]\<rparr>)
         (if Kind l = [] then None else Some (Kind l))
     @ opt_attr iflaStats64
         (\<lambda>rx. zero_bytes 16 @ bytes64 rx @ bytes64 (the (LinkTXBytes l))) (LinkRXBytes l)"

definition encode_link :: "Link \<Rightarrow> string" where
  "encode_link l =
     zero_bytes 2 @ bytes16 (HardwareType l) @ bytes32 (Index l) @ bytes32 (Flags l)
     @ zero_bytes 4 @ concat (map encode_attr (link_attributes l))"

definition link_ok :: "Link \<Rightarrow> bool" where
  "link_ok l \<longleftrightarrow>
     sint (Index l) > 0 \<and> LinkName l \<noteq> [] \<and> length (LinkName l) \<le> 1000
     \<and> length (Kind l) \<le> 1000 \<and> (LinkRXBytes l = None \<longleftrightarrow> LinkTXBytes l = None)
     \<and> DevicePath l = []"

lemma length_encode_attr: "length (encode_attr a) = align4 (4 + length (attr_data a))"
  using align4_bounds(1) [of "4 + length (attr_data a)"] by (simp add: encode_attr_def Let_def)

lemma encode_attr_not_Nil: "encode_attr a @ r \<noteq> []"
  by (simp add: encode_attr_def Let_def bytes16_def numeral_2_eq_2)

lemma parseAttributes_Cons:
  assumes "attr_ok a"
  shows "parseAttributes (encode_attr a @ r) =
           io_bind (parseAttributes r) (\<lambda>as. Return (Inr (a # as)))"
proof -
  define n where "n = 4 + length (attr_data a)"
  define p where "p = zero_bytes (align4 n - n)"
  have n: "4 \<le> n" "n \<le> 65535" using assms by (simp_all add: n_def attr_ok_def)
  then have u: "unat (of_nat n :: u16) = n" by (intro unat_of_nat_small) simp
  have e: "encode_attr a @ r = bytes16 (of_nat n) @ bytes16 (attr_kind a) @ attr_data a @ p @ r"
    by (simp add: encode_attr_def Let_def n_def p_def)
  let ?d = "bytes16 (of_nat n) @ bytes16 (attr_kind a) @ attr_data a @ p @ r"
  have len: "length ?d = align4 n + length r"
    using align4_bounds(1) [of n] by (simp add: n_def p_def)
  have r1: "read16 ?d 0 2 = Return (of_nat n)"
    using read_at(1) [of "[]" 0 2 "of_nat n"] by simp
  have r2: "read16 ?d 2 4 = Return (attr_kind a)"
    using read_at(1) [of "bytes16 (of_nat n)" 2 4 "attr_kind a"] by simp
  have s1: "go_slice ?d 4 n = attr_data a"
    by (simp add: go_slice_def n_def)
  have s2: "go_slice ?d (align4 n) (length ?d) = r"
    using align4_bounds(1) [of n] unfolding len by (simp add: go_slice_def n_def p_def)
  have "parseAttributes ?d = io_bind (parseAttributes r) (\<lambda>as. Return (Inr (a # as)))"
  proof (subst parseAttributes.simps, goal_cases)
    case 1
    have "?d \<noteq> []" "\<not> length ?d < 4" "n \<le> length ?d" "align4 n \<le> length ?d"
      using encode_attr_not_Nil [of a r] n align4_bounds(1) [of n] unfolding e len by simp_all
    moreover have "attr_kind a AND 0x3fff = attr_kind a" using assms by (simp add: attr_ok_def)
    moreover have "\<lparr>attr_kind = attr_kind a, attr_data = attr_data a\<rparr> = a" by simp
    ultimately show ?case
      using n by (simp only: if_False r1 r2 call_bind.simps Let_def checked_slice_ok s1 s2 u
          not_less [symmetric] simp_thms order_refl)
  qed
  then show ?thesis by (simp only: e)
qed

lemma parseAttributes_encode:
  "\<forall>a\<in>set as. attr_ok a \<Longrightarrow> parseAttributes (concat (map encode_attr as)) = Return (Inr as)"
proof (induction "as")
  case Nil
  then show ?case by (simp add: parseAttributes.simps)
next
  case (Cons a as)
  then show ?case by (simp add: parseAttributes_Cons)
qed

lemma netlinkString_terminated [simp]: "netlinkString (s @ [of_byte 0]) = s"
  by (simp add: netlinkString_def)

lemma attributeInt32_bytes [simp]: "attributeInt32 (bytes32 v) = Return (Inr v)"
  by (simp add: attributeInt32_def)

lemma decodeLinkKind_encode:
  assumes "length k \<le> 1000"
  shows "decodeLinkKind (encode_attr \<lparr>attr_kind = iflaInfoKind, attr_data = k @ [of_byte 0]\<rparr>)
           = Return (Inr k)"
  using parseAttributes_encode [of "[\<lparr>attr_kind = iflaInfoKind, attr_data = k @ [of_byte 0]\<rparr>]"]
    assms by (simp add: decodeLinkKind_def attr_ok_def)

lemma link_attributes_ok: "link_ok l \<Longrightarrow> a \<in> set (link_attributes l) \<Longrightarrow> attr_ok a"
  using align4_bounds(2) [of "5 + length (Kind l)"]
  by (auto simp: link_attributes_def link_ok_def opt_attr_def attr_ok_def length_encode_attr
      split: option.splits if_splits)

lemma decodeAttributes_append:
  "decodeAttributes (as @ bs) link = io_bind (decodeAttributes as link) (decodeAttributes bs)"
proof (induction "as" arbitrary: link)
  case (Cons a as)
  show ?case
    by (cases "(decodeAttribute a link, decodeAttributes as)" rule: io_bind.cases) (simp_all add: Cons)
qed simp

lemma byte_u8: "of_nat (byte (of_byte (unat (v :: u8)))) = v"
  using unsigned_less [of v, where ?'a = nat] by simp

lemma stats_reads:
  "read64 (zero_bytes 16 @ bytes64 rx @ bytes64 tx) 16 24 = Return rx"
  "read64 (zero_bytes 16 @ bytes64 rx @ bytes64 tx) 24 32 = Return tx"
  using read_at(3) [of "zero_bytes 16" 16 24 rx "bytes64 tx"]
    read_at(3) [of "zero_bytes 16 @ bytes64 rx" 24 32 tx "[]"] by simp_all

lemma decodeAttributes_link:
  assumes "link_ok l"
  shows "decodeAttributes (link_attributes l)
           (empty_link\<lparr>HardwareType := HardwareType l, Index := Index l, Flags := Flags l\<rparr>)
         = Return (Inr l)"
proof -
  have kind: "decodeLinkKind
        (encode_attr \<lparr>attr_kind = iflaInfoKind, attr_data = Kind l @ [of_byte 0]\<rparr>)
      = Return (Inr (Kind l))"
    using assms by (intro decodeLinkKind_encode) (simp add: link_ok_def)
  show ?thesis
    using assms kind
    by (cases l)
      (auto simp: link_attributes_def opt_attr_def decodeAttributes_append decodeAttribute_def
        empty_link_def link_ok_def byte_u8 stats_reads split: option.splits if_splits)
qed

lemma decodeLink_encode:
  assumes "link_ok l"
  shows "decodeLink (encode_link l) = Return (Inr l)"
proof -
  define attrs where "attrs = concat (map encode_attr (link_attributes l))"
  let ?d = "zero_bytes 2 @ bytes16 (HardwareType l) @ bytes32 (Index l) @ bytes32 (Flags l)
            @ zero_bytes 4 @ attrs"
  have r: "read16 ?d 2 4 = Return (HardwareType l)" "read32 ?d 4 8 = Return (Index l)"
    "read32 ?d 8 12 = Return (Flags l)"
    using read_at(1) [of "zero_bytes 2" 2 4 "HardwareType l"]
      read_at(2) [of "zero_bytes 2 @ bytes16 (HardwareType l)" 4 8 "Index l"]
      read_at(2) [of "zero_bytes 2 @ bytes16 (HardwareType l) @ bytes32 (Index l)" 8 12 "Flags l"]
    by simp_all
  have t: "go_slice ?d 16 (length ?d) = attrs"
    by (simp add: go_slice_def)
  have len: "length ?d = 16 + length attrs" by simp
  have p: "parseAttributes attrs = Return (Inr (link_attributes l))"
    unfolding attrs_def using link_attributes_ok [OF assms] by (intro parseAttributes_encode) blast
  have g: "\<not> (sint (Index l) \<le> 0 \<or> LinkName l = [])" using assms by (auto simp: link_ok_def)
  have "decodeLink ?d = Return (Inr l)"
    unfolding decodeLink_def r call_bind.simps ifInfoMessageSize_def
    by (subst checked_slice_ok)
      (simp_all only: len if_False call_bind.simps t [unfolded len] p io_bind.simps
        decodeAttributes_link [OF assms] g, simp_all)
  then show ?thesis by (simp add: encode_link_def attrs_def)
qed

section \<open>Messages and datagrams\<close>

definition encode_message :: "NetlinkMessage \<Rightarrow> string" where
  "encode_message m =
     (let n = 16 + length (msg_data m)
      in bytes32 (of_nat n) @ bytes16 (msg_type m) @ bytes16 0 @ bytes32 (msg_seq m) @ bytes32 0
         @ msg_data m @ zero_bytes (align4 n - n))"

definition link_message :: "Link \<Rightarrow> NetlinkMessage" where
  "link_message l = \<lparr>msg_type = RTM_NEWLINK, msg_seq = dump_sequence, msg_data = encode_link l\<rparr>"

definition done_message :: NetlinkMessage where
  "done_message = \<lparr>msg_type = NLMSG_DONE, msg_seq = dump_sequence, msg_data = zero_bytes 4\<rparr>"

definition datagram :: "NetlinkMessage list \<Rightarrow> string" where
  "datagram ms = concat (map encode_message ms)"

text \<open>A dump: the links in any grouping into datagrams, then the done message.\<close>

definition dump_datagrams :: "Link list list \<Rightarrow> string list" where
  "dump_datagrams chunks = map (\<lambda>c. datagram (map link_message c)) chunks @ [datagram [done_message]]"

lemma ParseNetlinkMessage_Cons:
  assumes "length (msg_data m) < 65536"
  shows "ParseNetlinkMessage (encode_message m @ r) =
           io_bind (ParseNetlinkMessage r) (\<lambda>ms. Return (Inr (m # ms)))"
proof -
  define n where "n = 16 + length (msg_data m)"
  define p where "p = zero_bytes (align4 n - n)"
  have n: "16 \<le> n" "\<not> n < netlinkHeaderSize" by (simp_all add: n_def netlinkHeaderSize_def)
  have u: "unat (of_nat n :: u32) = n"
    using assms by (intro unat_of_nat_small) (simp add: n_def)
  let ?d = "bytes32 (of_nat n) @ bytes16 (msg_type m) @ bytes16 0 @ bytes32 (msg_seq m) @ bytes32 0
            @ msg_data m @ p @ r"
  have e: "encode_message m @ r = ?d"
    by (simp add: encode_message_def Let_def n_def p_def)
  have len: "length ?d = align4 n + length r"
    using align4_bounds(1) [of n] by (simp add: n_def p_def)
  have r: "read32 ?d 0 4 = Return (of_nat n)" "read16 ?d 4 6 = Return (msg_type m)"
    "read32 ?d 8 12 = Return (msg_seq m)"
    using read_at(2) [of "[]" 0 4 "of_nat n"]
      read_at(1) [of "bytes32 (of_nat n)" 4 6 "msg_type m"]
      read_at(2) [of "bytes32 (of_nat n) @ bytes16 (msg_type m) @ bytes16 0" 8 12 "msg_seq m"]
    by simp_all
  have s1: "go_slice ?d netlinkHeaderSize n = msg_data m"
    by (simp add: go_slice_def n_def netlinkHeaderSize_def)
  have s2: "go_slice ?d (align4 n) (length ?d) = r"
    using align4_bounds(1) [of n] unfolding len by (simp add: go_slice_def n_def p_def)
  have le: "netlinkHeaderSize \<le> n" "n \<le> length ?d" "align4 n \<le> length ?d"
    "\<not> length ?d < netlinkHeaderSize" "\<not> length ?d < align4 n"
    using n align4_bounds(1) [of n] unfolding len netlinkHeaderSize_def by simp_all
  have m: "\<lparr>msg_type = msg_type m, msg_seq = msg_seq m, msg_data = msg_data m\<rparr> = m" by simp
  have "ParseNetlinkMessage ?d = io_bind (ParseNetlinkMessage r) (\<lambda>ms. Return (Inr (m # ms)))"
    by (subst ParseNetlinkMessage.simps)
      (simp only: if_False r call_bind.simps Let_def u checked_slice_ok [OF le(1,2)]
        checked_slice_ok [OF le(3) order_refl] s1 s2 le n m simp_thms)
  then show ?thesis by (simp only: e)
qed

lemma ParseNetlinkMessage_datagram:
  "\<forall>m\<in>set ms. length (msg_data m) < 65536 \<Longrightarrow> ParseNetlinkMessage (datagram ms) = Return (Inr ms)"
proof (induction ms)
  case Nil
  then show ?case
    by (simp add: ParseNetlinkMessage.simps datagram_def netlinkHeaderSize_def)
next
  case (Cons m ms)
  then show ?case by (simp add: ParseNetlinkMessage_Cons datagram_def)
qed

lemma dumpMessages_links:
  assumes "\<forall>l\<in>set c. link_ok l" "length links + length c \<le> maximumLinks"
  shows "dumpMessages (map link_message c) links = Return (Inr (Dumping (links @ c)))"
  using assms
  by (induction c arbitrary: links) (auto simp: link_message_def decodeLink_encode)

lemma message_fits:
  assumes "length (datagram ms) < maximumDatagram" "m \<in> set ms"
  shows "length (msg_data m) < 65536"
proof -
  have "length (msg_data m) \<le> length (encode_message m)"
    by (simp add: encode_message_def Let_def)
  also have "\<dots> \<le> length (datagram ms)"
    using assms(2) unfolding datagram_def length_concat
    by (intro member_le_sum_list) auto
  finally show ?thesis using assms(1) by (simp add: maximumDatagram_def)
qed

text \<open>A round in which the kernel delivers a datagram.\<close>

definition delivers :: "dump_step \<Rightarrow> string \<Rightarrow> bool" where
  "delivers s d \<longleftrightarrow>
     step_ctx s = None \<and> step_remaining s > 0 \<and> step_setsockopt s = None \<and> step_recv s = Inr d"

lemma dumpLoop_delivers:
  assumes "delivers s d" "length d < maximumDatagram" "n + length d \<le> maximumDumpBytes"
    and "io_bind (ParseNetlinkMessage d) (\<lambda>ms. dumpMessages ms links) = Return (Inr r)"
  shows "dumpLoop (s # steps) n links =
           (case r of Dumped ls \<Rightarrow> Some (Return (Inr ls))
            | Dumping ls \<Rightarrow> dumpLoop steps (n + length d) ls)"
  using assms by (auto simp: delivers_def split: dump.split)

lemma dumpLoop_links:
  assumes "list_all2 delivers steps (dump_datagrams chunks)"
    and "\<forall>l\<in>set (concat chunks). link_ok l"
    and "length links + length (concat chunks) \<le> maximumLinks"
    and "\<forall>d\<in>set (dump_datagrams chunks). length d < maximumDatagram"
    and "n + sum_list (map length (dump_datagrams chunks)) \<le> maximumDumpBytes"
  shows "dumpLoop steps n links = Some (Return (Inr (links @ concat chunks)))"
  using assms
proof (induction chunks arbitrary: steps n links)
  case Nil
  then obtain s where s: "steps = [s]" "delivers s (datagram [done_message])"
    by (auto simp: dump_datagrams_def list_all2_Cons2)
  have fits: "length (datagram [done_message]) < maximumDatagram"
    and total: "n + length (datagram [done_message]) \<le> maximumDumpBytes"
    using Nil.prems(4,5) by (simp_all add: dump_datagrams_def)
  have "ParseNetlinkMessage (datagram [done_message]) = Return (Inr [done_message])"
    by (rule ParseNetlinkMessage_datagram) (simp add: done_message_def)
  then have "io_bind (ParseNetlinkMessage (datagram [done_message])) (\<lambda>ms. dumpMessages ms links)
        = Return (Inr (Dumped links))"
    by (simp add: done_message_def)
  from dumpLoop_delivers [OF s(2) fits total this] s(1) show ?case by simp
next
  case (Cons c chunks)
  define d where "d = datagram (map link_message c)"
  obtain s rest where s: "steps = s # rest" "delivers s d"
      "list_all2 delivers rest (dump_datagrams chunks)"
    using Cons.prems(1) by (auto simp: dump_datagrams_def list_all2_Cons2 d_def)
  have fits: "length d < maximumDatagram" and total: "n + length d \<le> maximumDumpBytes"
    using Cons.prems(4,5) by (simp_all add: dump_datagrams_def d_def)
  have "ParseNetlinkMessage d = Return (Inr (map link_message c))"
    unfolding d_def using message_fits [OF fits [unfolded d_def]]
    by (intro ParseNetlinkMessage_datagram) blast
  then have "io_bind (ParseNetlinkMessage d) (\<lambda>ms. dumpMessages ms links)
        = Return (Inr (Dumping (links @ c)))"
    using Cons.prems(2,3) by (simp add: dumpMessages_links)
  from dumpLoop_delivers [OF s(2) fits total this, of rest]
  have "dumpLoop steps n links = dumpLoop rest (n + length d) (links @ c)"
    by (simp add: s(1))
  also have "\<dots> = Some (Return (Inr ((links @ c) @ concat chunks)))"
    using Cons.prems by (intro Cons.IH s(3)) (simp_all add: dump_datagrams_def d_def)
  finally show ?case by simp
qed

section \<open>What a dump returns\<close>

definition link_identified :: "Link \<Rightarrow> bool" where
  "link_identified l \<longleftrightarrow> sint (Index l) > 0 \<and> LinkName l \<noteq> []"

lemma decodeLink_identified: "decodeLink data = Return (Inr l) \<Longrightarrow> link_identified l"
  by (auto simp: decodeLink_def link_identified_def io_bind_Inr_iff call_bind_Return_iff
      split: if_splits)

definition dump_links :: "dump \<Rightarrow> Link list" where
  "dump_links d = (case d of Dumped ls \<Rightarrow> ls | Dumping ls \<Rightarrow> ls)"

lemma dumpMessages_bounded:
  assumes "dumpMessages ms links = Return (Inr r)"
    and "length links \<le> maximumLinks" "\<forall>l\<in>set links. link_identified l"
  shows "length (dump_links r) \<le> maximumLinks \<and> (\<forall>l\<in>set (dump_links r). link_identified l)"
  using assms
proof (induction ms arbitrary: links)
  case Nil
  then show ?case by (auto simp: dump_links_def)
next
  case (Cons m ms)
  show ?case
    using Cons.prems
    by (auto simp: io_bind_Inr_iff call_bind_Return_iff dump_links_def split: if_splits option.splits
        dest!: Cons.IH [unfolded dump_links_def] dest: decodeLink_identified)
qed

lemma dumpLoop_bounded:
  assumes "dumpLoop steps n links = Some (Return (Inr ls))"
    and "length links \<le> maximumLinks" "\<forall>l\<in>set links. link_identified l"
  shows "length ls \<le> maximumLinks \<and> (\<forall>l\<in>set ls. link_identified l)"
  using assms
proof (induction steps arbitrary: n links)
  case Nil
  then show ?case by simp
next
  case (Cons s steps)
  from Cons.prems(1) obtain d r where
    "io_bind (ParseNetlinkMessage d) (\<lambda>ms. dumpMessages ms links) = Return (Inr r)"
    and next_r: "(case r of Dumped l \<Rightarrow> Some (Return (Inr l))
                 | Dumping l \<Rightarrow> dumpLoop steps (n + length d) l) = Some (Return (Inr ls))"
    by (auto split: option.splits if_splits sum.splits call.splits dump.splits)
  then obtain ms where "dumpMessages ms links = Return (Inr r)" by (auto simp: io_bind_Inr_iff)
  note b = dumpMessages_bounded [OF this Cons.prems(2,3)]
  show ?case
  proof (cases r)
    case (Dumped l)
    with next_r b show ?thesis by (simp add: dump_links_def)
  next
    case (Dumping l)
    with next_r b show ?thesis by (intro Cons.IH [of "n + length d" l]) (simp_all add: dump_links_def)
  qed
qed

lemma dumpLoop_deadline:
  "\<exists>s\<in>set steps. step_remaining s \<le> 0 \<Longrightarrow> dumpLoop steps n links \<noteq> None"
  by (induction steps arbitrary: n links)
    (auto split: option.split sum.split call.split dump.split)

section \<open>Properties\<close>

text \<open>
  Whatever bytes the kernel sends, decoding a link message and the
  whole dump return; no slice or fixed-width read is out of bounds.
\<close>

theorem netlink_never_panics:
  "(\<exists>r. decodeLink data = Return r) \<and> readLinks env \<noteq> Some (Panic e)"
proof -
  have "\<exists>r. decodeLink data = Return r" using decodeLink_returns by (simp add: returns_def)
  then show ?thesis
    by (auto simp: readLinks_def linkRequest_eq dumpLoop_no_panic split: option.splits)
qed

text \<open>
  C16 (readLinks_reads_dump): for a dump of at most 64 well-formed links, encoded by the kernel's
  format and split over any datagrams within the limits, \<open>readLinks\<close> returns exactly these
  links in order.
\<close>

theorem readLinks_reads_dump:
  assumes "env_ctx env = None" "env_socket env = None" "env_bind env = None" "env_sendto env = None"
    and "list_all2 delivers (env_steps env) (dump_datagrams chunks)"
    and "\<forall>l\<in>set (concat chunks). link_ok l"
    and "length (concat chunks) \<le> maximumLinks"
    and "\<forall>d\<in>set (dump_datagrams chunks). length d < maximumDatagram"
    and "sum_list (map length (dump_datagrams chunks)) \<le> maximumDumpBytes"
  shows "readLinks env = Some (Return (Inr (concat chunks)))"
  using assms dumpLoop_links [of "env_steps env" chunks "[]" 0]
  by (simp add: readLinks_def linkRequest_eq)

definition example_link :: Link where
  "example_link =
     empty_link\<lparr>Index := 2, LinkName := ''eth0'', HardwareType := 1, Flags := 0x1003,
       OperState := Some 6, MasterIndex := Some 5, LinkRXBytes := Some 77, LinkTXBytes := Some 88\<rparr>"

definition example_env :: dump_env where
  "example_env =
     \<lparr>env_ctx = None, env_socket = None, env_bind = None, env_sendto = None,
      env_steps =
        map (\<lambda>d. \<lparr>step_ctx = None, step_remaining = 100000000, step_setsockopt = None,
                   step_recv = Inr d\<rparr>) (dump_datagrams [[example_link]])\<rparr>"

lemma example_link_ok: "link_ok example_link"
  by (simp add: link_ok_def example_link_def empty_link_def)

lemma example_datagram_lengths: "map length (dump_datagrams [[example_link]]) = [96, 20]"
  by (simp add: dump_datagrams_def datagram_def link_message_def done_message_def
      encode_message_def encode_link_def link_attributes_def opt_attr_def encode_attr_def Let_def
      example_link_def empty_link_def align4_eq)

theorem readLinks_reads_dump_witness:
  "readLinks example_env = Some (Return (Inr [example_link]))"
proof -
  have d: "\<forall>d\<in>set (dump_datagrams [[example_link]]). length d < maximumDatagram"
  proof
    fix d assume "d \<in> set (dump_datagrams [[example_link]])"
    then have "length d \<in> set (map length (dump_datagrams [[example_link]]))" by simp
    then show "length d < maximumDatagram"
      unfolding example_datagram_lengths by (auto simp: maximumDatagram_def)
  qed
  have "list_all2 delivers (env_steps example_env) (dump_datagrams [[example_link]])"
    by (simp add: example_env_def list_all2_map1 delivers_def list_all2_same)
  from readLinks_reads_dump [OF _ _ _ _ this _ _ d] show ?thesis
    by (simp add: example_env_def example_link_ok example_datagram_lengths maximumLinks_def
        maximumDumpBytes_def)
qed

text \<open>
  A successful dump has at most 64 links, each with a positive index and a
  name.
\<close>

theorem readLinks_bounded:
  assumes "readLinks env = Some (Return (Inr ls))"
  shows "length ls \<le> maximumLinks \<and> (\<forall>l\<in>set ls. sint (Index l) > 0 \<and> LinkName l \<noteq> [])"
  using assms dumpLoop_bounded [of "env_steps env" 0 "[]" ls]
  by (auto simp: readLinks_def linkRequest_eq link_identified_def split: option.splits)

theorem readLinks_bounded_witness:
  "\<exists>ls. readLinks example_env = Some (Return (Inr ls)) \<and> length ls \<le> maximumLinks"
proof -
  have l: "list_all2 delivers (env_steps example_env) (dump_datagrams [[example_link]])"
    by (simp add: example_env_def list_all2_map1 delivers_def list_all2_same)
  have "\<forall>d\<in>set (dump_datagrams [[example_link]]). length d < maximumDatagram"
    using example_datagram_lengths
    by (simp add: maximumDatagram_def dump_datagrams_def)
  then have "dumpLoop (env_steps example_env) 0 [] = Some (Return (Inr (concat [[example_link]])))"
    using dumpLoop_links [OF l, of "[]" 0]
    by (simp add: example_link_ok example_datagram_lengths maximumLinks_def maximumDumpBytes_def)
  then have r: "readLinks example_env = Some (Return (Inr [example_link]))"
    by (simp add: readLinks_def linkRequest_eq example_env_def)
  from readLinks_bounded [OF r] r show ?thesis by blast
qed

text \<open>
  The dump returns as soon as a round finds its deadline passed,
  whatever the datagrams are.
\<close>

theorem readLinks_deadline:
  assumes "\<exists>s\<in>set (env_steps env). step_remaining s \<le> 0"
  shows "\<exists>r. readLinks env = Some (Return r)"
proof -
  have "readLinks env \<noteq> None"
    using dumpLoop_deadline [OF assms]
    by (auto simp: readLinks_def linkRequest_eq split: option.split)
  moreover have "readLinks env \<noteq> Some (Panic e)" for e
    using dumpLoop_no_panic by (auto simp: readLinks_def linkRequest_eq split: option.splits)
  ultimately show ?thesis by (metis call.exhaust option.exhaust)
qed

theorem readLinks_deadline_witness:
  "\<exists>r. readLinks (example_env\<lparr>env_steps :=
          [\<lparr>step_ctx = None, step_remaining = -5, step_setsockopt = None, step_recv = Inl (Errno 11)\<rparr>]\<rparr>)
        = Some (Return r)"
  by (rule readLinks_deadline) simp

end
