(* ===== verification/Network.thy ===== *)
theory Network
  imports Outcome Netlink
begin

text \<open>
  \<open>internal/observe/network.go\<close>: the link topology, the recursive search for externally capable
  interfaces with its memo table and its cycle check, and the network collector. The maps of
  the topology are a partial map, a function into member lists and a set; the recursion takes
  fuel, one unit per nested call, and a run out of fuel is \<open>None\<close>.
\<close>

section \<open>Observations\<close>

definition ethernetHardwareType :: u16 where "ethernetHardwareType = 1"
definition loopbackFlag :: u32 where "loopbackFlag = push_bit 3 1"
definition maximumInterfaces :: nat where "maximumInterfaces = 64"

record networkInterfaceObservation =
  ifo_name :: string
  ifo_state :: "string outcome"
  ifo_rxBytes :: "u64 outcome"
  ifo_txBytes :: "u64 outcome"

record networkObservation =
  obs_interfaces :: "networkInterfaceObservation list"

instantiation networkObservation_ext :: (zero) zero
begin
definition zero_networkObservation_ext :: "'a networkObservation_ext" where
  "zero_networkObservation_ext = networkObservation_ext [] 0"
instance by standard
end

definition operationalState :: "u8 option \<Rightarrow> string outcome" where
  "operationalState v =
     (case v of
        None \<Rightarrow> unavailable reasonTemporarilyUnavailable (Some (New ''operational state is missing''))
      | Some s \<Rightarrow>
          if s = 0 then present ''unknown''
          else if s = 6 then present ''up''
          else if s = 1 \<or> s = 2 \<or> s = 3 \<or> s = 4 \<or> s = 5 then present ''down''
          else unavailable reasonTemporarilyUnavailable
                 (Some (New ''operational state is invalid'')))"

definition counterValue :: "u64 option \<Rightarrow> string \<Rightarrow> u64 outcome" where
  "counterValue v description =
     (case v of
        None \<Rightarrow> unavailable reasonTemporarilyUnavailable
                  (Some (Errorf ''%s is missing'' [FStr description]))
      | Some n \<Rightarrow> present n)"

section \<open>Building the topology\<close>

record linkTopology =
  topo_links :: "i32 \<rightharpoonup> Link"
  topo_members :: "i32 \<Rightarrow> i32 list"
  topo_resolved :: "i32 \<rightharpoonup> bool"
  topo_visiting :: "i32 set"

definition validDevicePath :: "string \<Rightarrow> bool" where
  "validDevicePath path \<longleftrightarrow> has_prefix path ''/sys/devices/'' \<and> path \<noteq> ''/sys/devices/''"

definition physicalDevicePath :: "string \<Rightarrow> bool" where
  "physicalDevicePath path \<longleftrightarrow> \<not> has_prefix path ''/sys/devices/virtual/''"

text \<open>The first loop: identities and device paths.\<close>

fun indexLinks :: "Link list \<Rightarrow> (i32 \<rightharpoonup> Link) \<Rightarrow> string set \<Rightarrow> (i32 \<rightharpoonup> Link) go" where
  "indexLinks [] links names = Inr links"
| "indexLinks (l # ls) links names =
     (if sint (Index l) \<le> 0 \<or> LinkName l = [] \<or> of_byte 0 \<in> set (LinkName l)
         \<or> \<not> valid_utf8 (LinkName l)
      then Inl (New ''interface identity is invalid'')
      else if links (Index l) \<noteq> None then Inl (New ''interface index is duplicated'')
      else if LinkName l \<in> names then Inl (New ''interface name is duplicated'')
      else if \<not> validDevicePath (DevicePath l)
      then Inl (Errorf ''interface %q has an invalid device path'' [FStr (LinkName l)])
      else indexLinks ls (links(Index l \<mapsto> l)) (insert (LinkName l) names))"

text \<open>The second loop: masters and lower links.\<close>

fun indexMembers :: "Link list \<Rightarrow> linkTopology \<Rightarrow> linkTopology go" where
  "indexMembers [] t = Inr t"
| "indexMembers (l # ls) t =
     go_bind
       (case MasterIndex l of
          None \<Rightarrow> Inr t
        | Some m \<Rightarrow>
            if topo_links t m = None
            then Inl (Errorf ''interface %q refers to an unknown master'' [FStr (LinkName l)])
            else Inr (t\<lparr>topo_members := (topo_members t)(m := topo_members t m @ [Index l])\<rparr>))
       (\<lambda>t. if Kind l = ''vlan''
            then (case LinkIndex l of
                    None \<Rightarrow>
                      Inl (Errorf ''VLAN interface %q lacks its lower link'' [FStr (LinkName l)])
                  | Some j \<Rightarrow>
                      if topo_links t j = None
                      then Inl (Errorf ''VLAN interface %q refers to an unknown lower link''
                                  [FStr (LinkName l)])
                      else indexMembers ls t)
            else indexMembers ls t)"

definition newLinkTopology :: "Link list \<Rightarrow> linkTopology go" where
  "newLinkTopology links =
     go_bind (indexLinks links Map.empty {}) (\<lambda>m.
       indexMembers links
         \<lparr>topo_links = m, topo_members = (\<lambda>i. []), topo_resolved = Map.empty, topo_visiting = {}\<rparr>)"

section \<open>Externally capable interfaces\<close>

type_synonym capability = "((bool go) call \<times> linkTopology) option"

text \<open>The loop over the members of a bond or bridge: it stops at the first external member.\<close>

fun anyExternal :: "(i32 \<Rightarrow> linkTopology \<Rightarrow> capability) \<Rightarrow> i32 list \<Rightarrow> linkTopology \<Rightarrow> capability" where
  "anyExternal f [] t = Some (Return (Inr False), t)"
| "anyExternal f (m # ms) t =
     (case f m t of
        None \<Rightarrow> None
      | Some (r, t1) \<Rightarrow> if r = Return (Inr False) then anyExternal f ms t1 else Some (r, t1))"

definition eligible :: "Link \<Rightarrow> bool" where
  "eligible l \<longleftrightarrow> Flags l AND loopbackFlag = 0 \<and> HardwareType l = ethernetHardwareType"

definition is_master :: "Link \<Rightarrow> bool" where
  "is_master l \<longleftrightarrow> Kind l = ''bond'' \<or> Kind l = ''bridge''"

definition nil_dereference :: goerror where
  "nil_dereference = New ''invalid memory address or nil pointer dereference''"

text \<open>The body of the search for an unresolved link, the recursive calls being \<open>f\<close>.\<close>

definition resolveLink ::
    "(i32 \<Rightarrow> linkTopology \<Rightarrow> capability) \<Rightarrow> i32 \<Rightarrow> Link \<Rightarrow> linkTopology \<Rightarrow> capability" where
  "resolveLink f index link t =
     (if \<not> eligible link then Some (Return (Inr False), t)
      else if physicalDevicePath (DevicePath link) then Some (Return (Inr True), t)
      else if Kind link = ''vlan'' then
        (case LinkIndex link of
           None \<Rightarrow> Some (Panic nil_dereference, t)
         | Some lower \<Rightarrow> f lower t)
      else if is_master link then anyExternal f (topo_members t index) t
      else Some (Return (Inr False), t))"

definition leave_link :: "i32 \<Rightarrow> (bool go) call \<Rightarrow> linkTopology \<Rightarrow> linkTopology" where
  "leave_link index r t =
     t\<lparr>topo_resolved :=
         (case r of Return (Inr b) \<Rightarrow> (topo_resolved t)(index \<mapsto> b) | _ \<Rightarrow> topo_resolved t),
       topo_visiting := topo_visiting t - {index}\<rparr>"

fun externallyCapable :: "nat \<Rightarrow> i32 \<Rightarrow> linkTopology \<Rightarrow> capability" where
  "externallyCapable 0 index t = None"
| "externallyCapable (Suc n) index t =
     (case topo_resolved t index of
        Some b \<Rightarrow> Some (Return (Inr b), t)
      | None \<Rightarrow>
          if index \<in> topo_visiting t
          then Some (Return (Inl (New ''interface topology contains a cycle'')), t)
          else (case topo_links t index of
             None \<Rightarrow>
               Some (Return (Inl (New ''interface topology refers to an unknown link'')), t)
           | Some link \<Rightarrow>
               (case resolveLink (externallyCapable n) index link
                       (t\<lparr>topo_visiting := insert index (topo_visiting t)\<rparr>) of
                  None \<Rightarrow> None
                | Some (r, t1) \<Rightarrow> Some (r, leave_link index r t1))))"

section \<open>The collector\<close>

definition observeLink :: "Link \<Rightarrow> networkInterfaceObservation" where
  "observeLink l =
     \<lparr>ifo_name = LinkName l, ifo_state = operationalState (OperState l),
      ifo_rxBytes = counterValue (LinkRXBytes l) ''receive byte counter'',
      ifo_txBytes = counterValue (LinkTXBytes l) ''transmit byte counter''\<rparr>"

fun collectInterfaces ::
    "nat \<Rightarrow> Link list \<Rightarrow> linkTopology \<Rightarrow> ((networkInterfaceObservation list go) call) option" where
  "collectInterfaces fuel [] t = Some (Return (Inr []))"
| "collectInterfaces fuel (l # ls) t =
     (case externallyCapable fuel (Index l) t of
        None \<Rightarrow> None
      | Some (Panic e, t1) \<Rightarrow> Some (Panic e)
      | Some (Return (Inl e), t1) \<Rightarrow> Some (Return (Inl e))
      | Some (Return (Inr b), t1) \<Rightarrow>
          map_option (\<lambda>r. io_bind r (\<lambda>rest.
              Return (Inr (if b then observeLink l # rest else rest))))
            (collectInterfaces fuel ls t1))"

text \<open>
  \<open>ctx.Err()\<close> and the result of \<open>source.Links\<close> are arguments. The names of the interfaces are
  distinct, so every sort by name gives the same list.
\<close>

definition collectNetwork ::
    "goerror option \<Rightarrow> Link list go \<Rightarrow> (networkObservation outcome) call option" where
  "collectNetwork ctx_err links_result =
     (case ctx_err of
        Some e \<Rightarrow> Some (Return (unavailable reasonTemporarilyUnavailable (Some e)))
      | None \<Rightarrow>
         (case links_result of
            Inl e \<Rightarrow>
              Some (Return
                (if errors_is e ErrTooManyLinks
                 then unavailable reasonTemporarilyUnavailable (Some e)
                 else acquisitionFailure (Some e) reasonUnsupported))
          | Inr links \<Rightarrow>
              if length links > maximumInterfaces
              then Some (Return (unavailable reasonTemporarilyUnavailable (Some ErrTooManyLinks)))
              else (case newLinkTopology links of
                 Inl e \<Rightarrow> Some (Return (unavailable reasonTemporarilyUnavailable (Some e)))
               | Inr t \<Rightarrow>
                   (case collectInterfaces (Suc (length links)) links t of
                      None \<Rightarrow> None
                    | Some (Panic e) \<Rightarrow> Some (Panic e)
                    | Some (Return (Inl e)) \<Rightarrow>
                        Some (Return (unavailable reasonTemporarilyUnavailable (Some e)))
                    | Some (Return (Inr is)) \<Rightarrow>
                        Some (Return (present \<lparr>obs_interfaces = sort_key ifo_name is\<rparr>))))))"

section \<open>What externally capable means\<close>

text \<open>
  The specification: an Ethernet link that is no loopback is externally capable when it has a
  physical device, when it is a VLAN over an externally capable link, or when it is a bond or
  bridge with an externally capable member. The relation \<open>depends\<close> holds the links the search
  may have to follow; the code reports an error only where it has a cycle.
\<close>

inductive external :: "(i32 \<rightharpoonup> Link) \<Rightarrow> (i32 \<Rightarrow> i32 list) \<Rightarrow> i32 \<Rightarrow> bool" for L M where
  physical: "L i = Some l \<Longrightarrow> eligible l \<Longrightarrow> physicalDevicePath (DevicePath l) \<Longrightarrow> external L M i"
| vlan: "L i = Some l \<Longrightarrow> eligible l \<Longrightarrow> Kind l = ''vlan'' \<Longrightarrow> LinkIndex l = Some j \<Longrightarrow>
    external L M j \<Longrightarrow> external L M i"
| member: "L i = Some l \<Longrightarrow> eligible l \<Longrightarrow> is_master l \<Longrightarrow> j \<in> set (M i) \<Longrightarrow>
    external L M j \<Longrightarrow> external L M i"

inductive depends :: "(i32 \<rightharpoonup> Link) \<Rightarrow> (i32 \<Rightarrow> i32 list) \<Rightarrow> i32 \<Rightarrow> i32 \<Rightarrow> bool" for L M where
  lower: "L i = Some l \<Longrightarrow> Kind l = ''vlan'' \<Longrightarrow> LinkIndex l = Some j \<Longrightarrow> depends L M i j"
| member: "L i = Some l \<Longrightarrow> is_master l \<Longrightarrow> j \<in> set (M i) \<Longrightarrow> depends L M i j"

inductive_cases externalE: "external L M i"

definition cyclic_links :: "(i32 \<rightharpoonup> Link) \<Rightarrow> (i32 \<Rightarrow> i32 list) \<Rightarrow> bool" where
  "cyclic_links L M \<longleftrightarrow> (\<exists>i. (depends L M)\<^sup>+\<^sup>+ i i)"

lemma external_resolve:
  assumes "L i = Some l"
  shows "external L M i \<longleftrightarrow>
    (eligible l \<and>
      (physicalDevicePath (DevicePath l)
       \<or> (Kind l = ''vlan'' \<and> (\<exists>j. LinkIndex l = Some j \<and> external L M j))
       \<or> (is_master l \<and> (\<exists>j\<in>set (M i). external L M j))))"
proof (intro iffI)
  assume "external L M i"
  then show "eligible l \<and> (physicalDevicePath (DevicePath l)
       \<or> (Kind l = ''vlan'' \<and> (\<exists>j. LinkIndex l = Some j \<and> external L M j))
       \<or> (is_master l \<and> (\<exists>j\<in>set (M i). external L M j)))"
    using assms by (cases rule: external.cases) auto
next
  assume "eligible l \<and> (physicalDevicePath (DevicePath l)
       \<or> (Kind l = ''vlan'' \<and> (\<exists>j. LinkIndex l = Some j \<and> external L M j))
       \<or> (is_master l \<and> (\<exists>j\<in>set (M i). external L M j)))"
  then show "external L M i"
    using external.physical [where L = L and i = i and l = l and M = M, OF assms]
      external.vlan [where L = L and i = i and l = l and M = M, OF assms]
      external.member [where L = L and i = i and l = l and M = M, OF assms] by blast
qed

definition topo_wf :: "(i32 \<rightharpoonup> Link) \<Rightarrow> (i32 \<Rightarrow> i32 list) \<Rightarrow> bool" where
  "topo_wf L M \<longleftrightarrow>
     finite (dom L)
     \<and> (\<forall>i l. L i = Some l \<longrightarrow> Kind l = ''vlan'' \<longrightarrow> (\<exists>j. LinkIndex l = Some j \<and> L j \<noteq> None))
     \<and> (\<forall>i. \<forall>j\<in>set (M i). L j \<noteq> None)"

definition topo_inv :: "(i32 \<rightharpoonup> Link) \<Rightarrow> (i32 \<Rightarrow> i32 list) \<Rightarrow> i32 set \<Rightarrow> linkTopology \<Rightarrow> bool" where
  "topo_inv L M V t \<longleftrightarrow>
     topo_links t = L \<and> topo_members t = M \<and> topo_visiting t = V
     \<and> (\<forall>i b. topo_resolved t i = Some b \<longrightarrow> b = external L M i)"

text \<open>An answer: the truth about \<open>P\<close>, or an error and a cycle; the invariant holds after it.\<close>

definition answers ::
    "(i32 \<rightharpoonup> Link) \<Rightarrow> (i32 \<Rightarrow> i32 list) \<Rightarrow> i32 set \<Rightarrow> bool \<Rightarrow> capability \<Rightarrow> bool" where
  "answers L M V P res \<longleftrightarrow>
     (\<exists>r t'. res = Some (Return r, t') \<and> topo_inv L M V t'
        \<and> (case r of Inr b \<Rightarrow> b = P | Inl e \<Rightarrow> cyclic_links L M))"

lemma answersE:
  assumes "answers L M V P res"
  obtains t' where "res = Some (Return (Inr P), t')" "topo_inv L M V t'"
  | e t' where "res = Some (Return (Inl e), t')" "topo_inv L M V t'" "cyclic_links L M"
proof -
  from assms obtain r t' where r: "res = Some (Return r, t')" "topo_inv L M V t'"
    and c: "case r of Inr b \<Rightarrow> b = P | Inl e \<Rightarrow> cyclic_links L M"
    unfolding answers_def by blast
  show thesis
  proof (cases r)
    case (Inl e)
    with r c show thesis by (intro that(2) [of e t']) simp_all
  next
    case (Inr b)
    with r c show thesis by (intro that(1) [of t']) simp_all
  qed
qed

lemma answers_value: "topo_inv L M V t \<Longrightarrow> answers L M V b (Some (Return (Inr b), t))"
  by (simp add: answers_def)

lemma anyExternal_answers:
  assumes "\<And>m t. m \<in> set ms \<Longrightarrow> topo_inv L M V t \<Longrightarrow> answers L M V (external L M m) (f m t)"
    and "topo_inv L M V t"
  shows "answers L M V (\<exists>m\<in>set ms. external L M m) (anyExternal f ms t)"
  using assms
proof (induction ms arbitrary: t)
  case Nil
  then show ?case by (simp add: answers_def)
next
  case (Cons m ms)
  have "answers L M V (external L M m) (f m t)" using Cons.prems by simp
  then show ?case
  proof (cases rule: answersE)
    case (1 t')
    show ?thesis
    proof (cases "external L M m")
      case True
      with 1 show ?thesis by (simp add: answers_def)
    next
      case False
      have "answers L M V (\<exists>m\<in>set ms. external L M m) (anyExternal f ms t')"
        using Cons 1(2) by simp
      with 1 False show ?thesis by simp
    qed
  next
    case (2 e t')
    then show ?thesis by (simp add: answers_def)
  qed
qed

lemma resolveLink_answers:
  assumes "topo_wf L M" "L i = Some l" "topo_inv L M V t"
    and "\<And>j t. depends L M i j \<Longrightarrow> topo_inv L M V t \<Longrightarrow> answers L M V (external L M j) (f j t)"
  shows "answers L M V (external L M i) (resolveLink f i l t)"
proof -
  have vlan: "answers L M V (external L M i) (f j t)"
    if "eligible l" "\<not> physicalDevicePath (DevicePath l)" "Kind l = ''vlan''" "LinkIndex l = Some j" for j
  proof -
    have "external L M i = external L M j"
      using that external_resolve [of L i l M, OF assms(2)] by (auto simp: is_master_def)
    then show ?thesis using assms that by (auto intro: depends.intros)
  qed
  have master: "answers L M V (external L M i) (anyExternal f (topo_members t i) t)"
    if "eligible l" "\<not> physicalDevicePath (DevicePath l)" "Kind l \<noteq> ''vlan''" "is_master l"
  proof -
    have "external L M i = (\<exists>j\<in>set (M i). external L M j)"
      using that external_resolve [of L i l M, OF assms(2)] by auto
    moreover have "topo_members t i = M i" using assms(3) by (simp add: topo_inv_def)
    ultimately show ?thesis
      using assms that by (auto intro!: anyExternal_answers intro: depends.intros)
  qed
  have lower: "\<exists>j. LinkIndex l = Some j" if "Kind l = ''vlan''"
    using assms(1,2) that unfolding topo_wf_def by blast
  show ?thesis
  proof (cases "eligible l \<and> \<not> physicalDevicePath (DevicePath l) \<and> (Kind l = ''vlan'' \<or> is_master l)")
    case True
    then show ?thesis using vlan master lower by (auto simp: resolveLink_def)
  next
    case False
    then have "resolveLink f i l t = Some (Return (Inr (external L M i)), t)"
      unfolding external_resolve [of L i l M, OF assms(2)] resolveLink_def by auto
    then show ?thesis using answers_value [OF assms(3)] by simp
  qed
qed

lemma externallyCapable_answers:
  assumes "topo_wf L M" "topo_inv L M V t" "V \<subseteq> dom L" "i \<in> dom L"
    and "card (dom L - V) < n" "\<forall>v\<in>V. (depends L M)\<^sup>+\<^sup>+ v i"
  shows "answers L M V (external L M i) (externallyCapable n i t)"
  using assms
proof (induction n arbitrary: i V t)
  case 0
  then show ?case by simp
next
  case (Suc n)
  obtain l where l: "L i = Some l" using Suc.prems(4) by blast
  have t: "topo_links t = L" "topo_visiting t = V" using Suc.prems(2) by (simp_all add: topo_inv_def)
  show ?case
  proof (cases "topo_resolved t i")
    case (Some b)
    moreover have "b = external L M i" using Some Suc.prems(2) by (simp add: topo_inv_def)
    ultimately show ?thesis using Suc.prems(2) by (simp add: answers_def)
  next
    case None
    show ?thesis
    proof (cases "i \<in> V")
      case True
      then have "cyclic_links L M" using Suc.prems(6) by (auto simp: cyclic_links_def)
      with True None Suc.prems(2) t show ?thesis by (simp add: answers_def)
    next
      case False
      define W where "W = insert i V"
      define t1 where "t1 = t\<lparr>topo_visiting := W\<rparr>"
      have inv: "topo_inv L M W t1" using Suc.prems(2) by (simp add: topo_inv_def t1_def)
      have fin: "finite (dom L)" using Suc.prems(1) by (simp add: topo_wf_def)
      have "dom L - V = insert i (dom L - W)" using False Suc.prems(4) by (auto simp: W_def)
      then have card: "card (dom L - W) < n" using Suc.prems(5) fin by (simp add: W_def)
      have "answers L M W (external L M i) (resolveLink (externallyCapable n) i l t1)"
      proof (rule resolveLink_answers [OF Suc.prems(1) l inv])
        fix j u
        assume d: "depends L M i j" and u: "topo_inv L M W u"
        have "j \<in> dom L"
          using d Suc.prems(1) by (auto simp: topo_wf_def elim!: depends.cases) fastforce+
        moreover have "\<forall>v\<in>W. (depends L M)\<^sup>+\<^sup>+ v j"
          using Suc.prems(6) d by (auto simp: W_def)
        ultimately show "answers L M W (external L M j) (externallyCapable n j u)"
          using Suc.prems(1,3,4) u card by (intro Suc.IH) (auto simp: W_def)
      qed
      moreover have leave: "topo_inv L M V (leave_link i r u)"
        if "topo_inv L M W u" "\<forall>b. r = Return (Inr b) \<longrightarrow> b = external L M i" for r u
        using that False
        by (auto simp: topo_inv_def leave_link_def W_def split: call.splits sum.splits if_splits)
      have run: "externallyCapable (Suc n) i t =
          (case resolveLink (externallyCapable n) i l t1 of
             None \<Rightarrow> None | Some (r, u) \<Rightarrow> Some (r, leave_link i r u))"
        using None False l t by (simp add: t1_def W_def)
      ultimately show ?thesis
      proof (cases rule: answersE)
        case (1 u)
        with run leave [OF 1(2), of "Return (Inr (external L M i))"] show ?thesis
          by (simp add: answers_def)
      next
        case (2 e u)
        with run leave [OF 2(2), of "Return (Inl e)"] show ?thesis by (simp add: answers_def)
      qed
    qed
  qed
qed

section \<open>The topology of a list of links\<close>

definition link_map :: "Link list \<Rightarrow> i32 \<rightharpoonup> Link" where
  "link_map links = map_of (map (\<lambda>l. (Index l, l)) links)"

definition members_of :: "Link list \<Rightarrow> i32 \<Rightarrow> i32 list" where
  "members_of links i = map Index (filter (\<lambda>l. MasterIndex l = Some i) links)"

definition identity_ok :: "Link \<Rightarrow> bool" where
  "identity_ok l \<longleftrightarrow>
     sint (Index l) > 0 \<and> LinkName l \<noteq> [] \<and> of_byte 0 \<notin> set (LinkName l)
     \<and> valid_utf8 (LinkName l) \<and> validDevicePath (DevicePath l)"

lemma indexLinks_Inr:
  assumes "indexLinks ls m names = Inr m'"
  shows "(\<forall>l\<in>set ls. identity_ok l \<and> m (Index l) = None \<and> LinkName l \<notin> names)
         \<and> distinct (map Index ls) \<and> distinct (map LinkName ls) \<and> m' = m ++ link_map ls"
  using assms
proof (induction ls arbitrary: m names)
  case Nil
  then show ?case by (simp add: link_map_def)
next
  case (Cons l ls)
  have l: "identity_ok l" "m (Index l) = None" "LinkName l \<notin> names"
    and r: "indexLinks ls (m(Index l \<mapsto> l)) (insert (LinkName l) names) = Inr m'"
    using Cons.prems by (auto simp: identity_ok_def split: if_splits)
  note ih = Cons.IH [OF r]
  have fresh: "\<forall>k\<in>set ls. Index k \<noteq> Index l" using ih by (metis fun_upd_same option.distinct(1))
  then have "Index l \<notin> dom (link_map ls)"
    by (auto simp: link_map_def dom_map_of_conv_image_fst)
  then have "m(Index l \<mapsto> l) ++ link_map ls = m ++ link_map (l # ls)"
    by (simp add: link_map_def map_add_upd_left)
  with ih [THEN conjunct2, THEN conjunct2, THEN conjunct2]
  have "m' = m ++ link_map (l # ls)" by (rule trans)
  moreover have "\<forall>k\<in>set ls. identity_ok k \<and> m (Index k) = None \<and> LinkName k \<notin> names
      \<and> LinkName k \<noteq> LinkName l" using ih fresh by (auto split: if_splits)
  ultimately show ?case using ih l fresh by auto
qed

lemma indexMembers_Inr:
  assumes "indexMembers ls t = Inr t'"
  shows "topo_links t' = topo_links t \<and> topo_resolved t' = topo_resolved t
         \<and> topo_visiting t' = topo_visiting t
         \<and> topo_members t' = (\<lambda>i. topo_members t i @ members_of ls i)
         \<and> (\<forall>l\<in>set ls. (\<forall>m. MasterIndex l = Some m \<longrightarrow> topo_links t m \<noteq> None)
              \<and> (Kind l = ''vlan'' \<longrightarrow> (\<exists>j. LinkIndex l = Some j \<and> topo_links t j \<noteq> None)))"
  using assms
proof (induction ls arbitrary: t)
  case Nil
  then show ?case by (simp add: members_of_def)
next
  case (Cons l ls)
  from Cons.prems obtain t1 where
    t1: "(case MasterIndex l of None \<Rightarrow> Inr t
        | Some m \<Rightarrow> if topo_links t m = None
            then Inl (Errorf ''interface %q refers to an unknown master'' [FStr (LinkName l)])
            else Inr (t\<lparr>topo_members := (topo_members t)(m := topo_members t m @ [Index l])\<rparr>))
        = Inr t1"
    and rest: "indexMembers ls t1 = Inr t'"
    and vlan: "Kind l = ''vlan'' \<longrightarrow> (\<exists>j. LinkIndex l = Some j \<and> topo_links t1 j \<noteq> None)"
    by (auto simp: go_bind_Inr_iff split: if_splits option.splits)
  have "topo_links t1 = topo_links t" "topo_resolved t1 = topo_resolved t"
    "topo_visiting t1 = topo_visiting t"
    "topo_members t1 = (\<lambda>i. topo_members t i @ members_of [l] i)"
    "\<forall>m. MasterIndex l = Some m \<longrightarrow> topo_links t m \<noteq> None"
    using t1 by (auto simp: members_of_def split: option.splits if_splits)
  with Cons.IH [OF rest] vlan show ?case by (auto simp: members_of_def)
qed

text \<open>What the topology promises about its links.\<close>

definition links_ok :: "Link list \<Rightarrow> bool" where
  "links_ok links \<longleftrightarrow>
     (\<forall>l\<in>set links. identity_ok l
        \<and> (\<forall>m. MasterIndex l = Some m \<longrightarrow> link_map links m \<noteq> None)
        \<and> (Kind l = ''vlan'' \<longrightarrow> (\<exists>j. LinkIndex l = Some j \<and> link_map links j \<noteq> None)))
     \<and> distinct (map Index links) \<and> distinct (map LinkName links)"

lemma link_map_Some_iff:
  assumes "distinct (map Index links)"
  shows "link_map links i = Some l \<longleftrightarrow> l \<in> set links \<and> Index l = i"
proof -
  have "distinct (map fst (map (\<lambda>l. (Index l, l)) links))" using assms by (simp add: comp_def)
  from map_of_eq_Some_iff [OF this] show ?thesis by (auto simp: link_map_def)
qed

lemma newLinkTopology_Inr:
  assumes "newLinkTopology links = Inr t"
  shows "links_ok links" "topo_wf (link_map links) (members_of links)"
    "topo_inv (link_map links) (members_of links) {} t"
proof -
  from assms obtain m where m: "indexLinks links Map.empty {} = Inr m"
    and t: "indexMembers links \<lparr>topo_links = m, topo_members = (\<lambda>i. []), topo_resolved = Map.empty,
              topo_visiting = {}\<rparr> = Inr t"
    by (auto simp: newLinkTopology_def go_bind_Inr_iff)
  have m': "m = link_map links" using indexLinks_Inr [OF m] by simp
  show ok: "links_ok links"
    using indexLinks_Inr [OF m] indexMembers_Inr [OF t] by (simp add: links_ok_def m')
  then have d: "distinct (map Index links)" by (simp add: links_ok_def)
  show "topo_wf (link_map links) (members_of links)"
  proof -
    have "finite (dom (link_map links))" by (simp add: link_map_def finite_dom_map_of)
    moreover have "\<exists>j. LinkIndex l = Some j \<and> link_map links j \<noteq> None"
      if "link_map links i = Some l" "Kind l = ''vlan''" for i l
      using that ok unfolding link_map_Some_iff [OF d] links_ok_def by blast
    moreover have "link_map links j \<noteq> None" if "j \<in> set (members_of links i)" for i j
    proof -
      from that obtain l where "l \<in> set links" "Index l = j" by (auto simp: members_of_def)
      then show ?thesis using link_map_Some_iff [OF d, of j l] by simp
    qed
    ultimately show ?thesis unfolding topo_wf_def by blast
  qed
  show "topo_inv (link_map links) (members_of links) {} t"
    using indexMembers_Inr [OF t] by (simp add: topo_inv_def m')
qed

section \<open>The collector finds the externally capable links\<close>

definition capable :: "Link list \<Rightarrow> Link \<Rightarrow> bool" where
  "capable links l \<longleftrightarrow> external (link_map links) (members_of links) (Index l)"

definition cyclic_topology :: "Link list \<Rightarrow> bool" where
  "cyclic_topology links \<longleftrightarrow> cyclic_links (link_map links) (members_of links)"

lemma collectInterfaces_answers:
  assumes "topo_wf L M" "topo_inv L M {} t" "card (dom L) < n" "\<forall>l\<in>set ls. Index l \<in> dom L"
  shows "collectInterfaces n ls t =
           Some (Return (Inr (map observeLink (filter (\<lambda>l. external L M (Index l)) ls))))
         \<or> (cyclic_links L M \<and> (\<exists>e. collectInterfaces n ls t = Some (Return (Inl e))))"
  using assms(2,4)
proof (induction ls arbitrary: t)
  case Nil
  then show ?case by simp
next
  case (Cons l ls)
  have "answers L M {} (external L M (Index l)) (externallyCapable n (Index l) t)"
    using assms(1,3) Cons.prems by (intro externallyCapable_answers) auto
  then show ?case
  proof (cases rule: answersE)
    case (1 u)
    with Cons.IH [OF 1(2)] Cons.prems(2) show ?thesis by auto
  next
    case (2 e u)
    then show ?thesis by simp
  qed
qed

lemma collectNetwork_answers:
  assumes "length links \<le> maximumInterfaces" "newLinkTopology links = Inr t"
  shows "collectNetwork None (Inr links) =
           Some (Return (present \<lparr>obs_interfaces =
             sort_key ifo_name (map observeLink (filter (capable links) links))\<rparr>))
         \<or> (cyclic_topology links
            \<and> (\<exists>e. collectNetwork None (Inr links) =
                 Some (Return (unavailable reasonTemporarilyUnavailable (Some e)))))"
proof -
  note top = newLinkTopology_Inr [OF assms(2)]
  have d: "distinct (map Index links)" using top(1) by (simp add: links_ok_def)
  have dom: "dom (link_map links) = Index ` set links"
    by (auto simp: link_map_def dom_map_of_conv_image_fst image_image)
  have "card (dom (link_map links)) < Suc (length links)"
    unfolding dom by (metis card_image_le card_length finite_set le_trans less_Suc_eq_le)
  from collectInterfaces_answers [OF top(2,3) this, of links] dom assms
  show ?thesis
    by (auto simp: collectNetwork_def capable_def [abs_def] cyclic_topology_def)
qed

lemma collectNetwork_returns: "\<exists>v. collectNetwork c r = Some (Return v)"
proof -
  have "\<exists>v. collectNetwork None (Inr links) = Some (Return v)" for links
  proof (cases "length links > maximumInterfaces")
    case True
    then show ?thesis by (simp add: collectNetwork_def)
  next
    case False
    show ?thesis
    proof (cases "newLinkTopology links")
      case (Inl e)
      with False show ?thesis by (simp add: collectNetwork_def)
    next
      case (Inr t)
      from collectNetwork_answers [OF _ Inr] False show ?thesis by auto
    qed
  qed
  then show ?thesis
    by (cases c; cases r) (auto simp: collectNetwork_def)
qed

section \<open>Observations are well formed\<close>

lemma valid_operationalState [simp]: "valid_outcome (operationalState v)"
  by (simp add: operationalState_def split: option.split)

lemma valid_counterValue [simp]: "valid_outcome (counterValue v d)"
  by (simp add: counterValue_def split: option.split)

lemma operationalState_value:
  "is_present (operationalState v) \<Longrightarrow> o_value (operationalState v) \<in> {''unknown'', ''up'', ''down''}"
  by (auto simp: operationalState_def split: option.splits if_splits)

definition interface_observation_ok :: "networkInterfaceObservation \<Rightarrow> bool" where
  "interface_observation_ok n \<longleftrightarrow>
     ifo_name n \<noteq> [] \<and> valid_utf8 (ifo_name n)
     \<and> valid_outcome (ifo_state n) \<and> valid_outcome (ifo_rxBytes n) \<and> valid_outcome (ifo_txBytes n)
     \<and> (is_present (ifo_state n) \<longrightarrow> o_value (ifo_state n) \<in> {''unknown'', ''up'', ''down''})"

definition network_observation_ok :: "networkObservation outcome \<Rightarrow> bool" where
  "network_observation_ok v \<longleftrightarrow>
     valid_outcome v
     \<and> (is_present v \<longrightarrow>
          length (obs_interfaces (o_value v)) \<le> maximumInterfaces
          \<and> sorted_wrt (<) (map ifo_name (obs_interfaces (o_value v)))
          \<and> (\<forall>n\<in>set (obs_interfaces (o_value v)). interface_observation_ok n))"

lemma observeLink_ok: "identity_ok l \<Longrightarrow> interface_observation_ok (observeLink l)"
  using operationalState_value [of "OperState l"]
  by (simp add: observeLink_def interface_observation_ok_def identity_ok_def)

lemma map_sort_key_distinct:
  fixes f :: "'a \<Rightarrow> 'b :: linorder"
  assumes "distinct (map f xs)"
  shows "sorted_wrt (<) (map f (sort_key f xs))"
proof -
  have "sorted (map f (sort_key f xs))" by simp
  moreover have "distinct (map f (sort_key f xs))"
    using assms by (simp add: distinct_map)
  ultimately show ?thesis by (simp add: strict_sorted_iff)
qed

lemma capable_observation_ok:
  assumes "newLinkTopology links = Inr t" "length links \<le> maximumInterfaces"
  shows "network_observation_ok (present \<lparr>obs_interfaces =
           sort_key ifo_name (map observeLink (filter (capable links) links))\<rparr>)"
proof -
  let ?is = "map observeLink (filter (capable links) links)"
  have ok: "links_ok links" by (rule newLinkTopology_Inr(1) [OF assms(1)])
  have e: "map ifo_name ?is = map LinkName (filter (capable links) links)"
    by (simp add: observeLink_def)
  have "distinct (map ifo_name ?is)"
    unfolding e using ok by (simp add: links_ok_def distinct_map_filter)
  then have "sorted_wrt (<) (map ifo_name (sort_key ifo_name ?is))" by (rule map_sort_key_distinct)
  moreover have "length ?is \<le> maximumInterfaces"
    using assms(2) le_trans [OF length_filter_le [of "capable links" links]] by simp
  moreover have "\<forall>n\<in>set ?is. interface_observation_ok n"
    using ok by (auto simp: links_ok_def intro: observeLink_ok)
  ultimately show ?thesis by (simp add: network_observation_ok_def)
qed

lemma unavailable_observation_ok:
  "known_reason r \<Longrightarrow> network_observation_ok (unavailable r (Some e))"
  by (simp add: network_observation_ok_def)

lemma collectNetwork_ok:
  obtains v where "collectNetwork c r = Some (Return v)" "network_observation_ok v"
proof -
  note u = unavailable_observation_ok [of reasonTemporarilyUnavailable, simplified]
  have a: "network_observation_ok (acquisitionFailure (Some e) reasonUnsupported)" for e
    by (simp add: network_observation_ok_def)
  have "\<exists>v. collectNetwork None (Inr links) = Some (Return v) \<and> network_observation_ok v" for links
  proof (cases "length links > maximumInterfaces")
    case True
    with u show ?thesis by (simp add: collectNetwork_def)
  next
    case False
    show ?thesis
    proof (cases "newLinkTopology links")
      case (Inl e)
      with False u show ?thesis by (simp add: collectNetwork_def)
    next
      case (Inr t)
      with False collectNetwork_answers [OF _ Inr] capable_observation_ok [OF Inr] u
      show ?thesis by (metis not_less)
    qed
  qed
  then have "\<exists>v. collectNetwork c r = Some (Return v) \<and> network_observation_ok v"
    using u a by (cases c; cases r) (simp_all add: collectNetwork_def)
  then show thesis using that by blast
qed

text \<open>A present observation comes from the kernel's links.\<close>

lemma collectNetwork_present:
  assumes "collectNetwork c r = Some (Return v)" "is_present v"
  shows "\<exists>links. r = Inr links
           \<and> obs_interfaces (o_value v) =
               sort_key ifo_name (map observeLink (filter (capable links) links))"
proof -
  have np: "\<not> is_present (unavailable reasonTemporarilyUnavailable (Some e) :: networkObservation outcome)"
      "\<not> is_present (acquisitionFailure (Some e) reasonUnsupported :: networkObservation outcome)" for e
    by simp_all
  have c: "c = None" using assms np by (auto simp: collectNetwork_def split: option.splits)
  then obtain links where r: "r = Inr links"
    using assms np by (auto simp: collectNetwork_def split: sum.splits if_splits)
  have len: "length links \<le> maximumInterfaces"
    using assms np unfolding c r by (auto simp: collectNetwork_def split: if_splits)
  obtain t where t: "newLinkTopology links = Inr t"
    using assms np len unfolding c r by (auto simp: collectNetwork_def split: sum.splits)
  from collectNetwork_answers [OF len t] assms np show ?thesis
    unfolding c r by auto
qed

section \<open>Properties\<close>

text \<open>
  C11 (network_capable_links): for a well-formed, acyclic topology of at most 64 links the
  collector reports exactly the externally capable links, sorted by name.
\<close>

theorem network_capable_links:
  assumes "newLinkTopology links = Inr t" "length links \<le> maximumInterfaces"
    and "\<not> cyclic_topology links"
  shows "collectNetwork None (Inr links) =
           Some (Return (present \<lparr>obs_interfaces =
             sort_key ifo_name (map observeLink (filter (capable links) links))\<rparr>))"
  using collectNetwork_answers [OF assms(2,1)] assms(3) by blast

text \<open>
  C12 (network_sound): an observation the collector does present, whatever the topology, lists
  exactly the externally capable links of the kernel's answer; the memo table and the cycle
  check never change the answer.
\<close>

theorem network_sound:
  assumes "collectNetwork c r = Some (Return v)" "is_present v"
  shows "\<exists>links. r = Inr links
           \<and> obs_interfaces (o_value v) =
               sort_key ifo_name (map observeLink (filter (capable links) links))"
  using assms by (rule collectNetwork_present)

text \<open>
  C23 (network_total): the collector always returns, without a panic and within the fuel of one
  unit per link, an observation that its validator accepts.
\<close>

theorem network_total:
  "\<exists>v. collectNetwork c r = Some (Return v) \<and> network_observation_ok v"
  using collectNetwork_ok by blast

definition example_physical :: Link where
  "example_physical =
     \<lparr>Index = 2, LinkName = ''eth0'', HardwareType = 1, Flags = 0x1003, Kind = [],
      LinkIndex = None, MasterIndex = Some 3, OperState = Some 6, LinkRXBytes = Some 77,
      LinkTXBytes = None, DevicePath = ''/sys/devices/platform/eth/net/eth0''\<rparr>"

definition example_bridge :: Link where
  "example_bridge =
     \<lparr>Index = 3, LinkName = ''br0'', HardwareType = 1, Flags = 0x1003, Kind = ''bridge'',
      LinkIndex = None, MasterIndex = None, OperState = Some 6, LinkRXBytes = Some 7,
      LinkTXBytes = Some 8, DevicePath = ''/sys/devices/virtual/net/br0''\<rparr>"

definition example_veth :: Link where
  "example_veth =
     \<lparr>Index = 4, LinkName = ''veth1'', HardwareType = 1, Flags = 0x1003, Kind = ''veth'',
      LinkIndex = Some 9, MasterIndex = Some 3, OperState = Some 6, LinkRXBytes = Some 7,
      LinkTXBytes = Some 8, DevicePath = ''/sys/devices/virtual/net/veth1''\<rparr>"

definition example_links :: "Link list" where
  "example_links = [example_physical, example_bridge, example_veth]"

lemmas example_link_defs =
  example_links_def example_physical_def example_bridge_def example_veth_def

lemma example_topology: "\<exists>t. newLinkTopology example_links = Inr t"
  by (simp add: newLinkTopology_def example_link_defs validDevicePath_def has_prefix_def of_byte_def
      char_of_def bit_0)

lemma example_acyclic: "\<not> cyclic_topology example_links"
proof -
  let ?L = "link_map example_links" and ?M = "members_of example_links"
  have d: "i = 3 \<and> (j = 2 \<or> j = 4)" if "depends ?L ?M i j" for i j
    using that
    by cases (auto simp: link_map_def members_of_def example_link_defs is_master_def split: if_splits)
  have "i = 3 \<and> (j = 2 \<or> j = 4)" if "(depends ?L ?M)\<^sup>+\<^sup>+ i j" for i j
    using that by (induction rule: tranclp_induct) (auto dest: d)
  then show ?thesis by (fastforce simp: cyclic_topology_def cyclic_links_def)
qed

lemma example_capable: "filter (capable example_links) example_links = [example_physical, example_bridge]"
proof -
  let ?L = "link_map example_links" and ?M = "members_of example_links"
  have l: "?L 2 = Some example_physical" "?L 3 = Some example_bridge" "?L 4 = Some example_veth"
    by (simp_all add: link_map_def example_link_defs)
  have m: "?M 3 = [2, 4]" by (simp add: members_of_def example_link_defs)
  have e: "eligible example_physical" "eligible example_bridge" "eligible example_veth"
    by (simp_all add: eligible_def example_link_defs loopbackFlag_def ethernetHardwareType_def)
  have p: "physicalDevicePath (DevicePath example_physical)"
    "\<not> physicalDevicePath (DevicePath example_veth)"
    by (simp_all add: physicalDevicePath_def has_prefix_def example_link_defs)
  have 2: "external ?L ?M 2" using l(1) e(1) p(1) by (rule external.physical)
  have 3: "external ?L ?M 3"
    using l(2) e(2) _ _ 2 by (rule external.member) (simp_all add: is_master_def example_link_defs m [unfolded example_link_defs])
  have 4: "\<not> external ?L ?M 4"
    using external_resolve [of ?L 4, OF l(3), of ?M] p(2) by (simp add: is_master_def example_veth_def)
  have i: "Index example_physical = 2" "Index example_bridge = 3" "Index example_veth = 4"
    by (simp_all add: example_link_defs)
  have "capable example_links example_physical" "capable example_links example_bridge"
    "\<not> capable example_links example_veth"
    unfolding capable_def i by (rule 2, rule 3, rule 4)
  then show ?thesis by (subst (2) example_links_def) simp
qed

lemma example_observation:
  "sort_key ifo_name (map observeLink (filter (capable example_links) example_links))
     = [observeLink example_bridge, observeLink example_physical]"
  unfolding example_capable by (simp add: observeLink_def example_link_defs less_eq_list_code)

theorem network_capable_links_witness:
  "collectNetwork None (Inr example_links) =
     Some (Return (present \<lparr>obs_interfaces =
       [observeLink example_bridge, observeLink example_physical]\<rparr>))"
proof -
  obtain t where t: "newLinkTopology example_links = Inr t" using example_topology by blast
  have "length example_links \<le> maximumInterfaces"
    by (simp add: example_links_def maximumInterfaces_def)
  from network_capable_links [OF t this example_acyclic] show ?thesis
    by (simp only: example_observation)
qed

theorem network_sound_witness:
  "\<exists>v links. collectNetwork None (Inr example_links) = Some (Return v)
     \<and> obs_interfaces (o_value v) = sort_key ifo_name (map observeLink (filter (capable links) links))"
proof -
  obtain t where t: "newLinkTopology example_links = Inr t" using example_topology by blast
  have "length example_links \<le> maximumInterfaces"
    by (simp add: example_links_def maximumInterfaces_def)
  from collectNetwork_answers [OF this t] example_acyclic obtain v where
    v: "collectNetwork None (Inr example_links) = Some (Return v)" "is_present v" by auto
  from network_sound [OF v] v(1) show ?thesis by blast
qed

end
