(* ===== verification/RaspberryPi.thy ===== *)
theory RaspberryPi
  imports Generic
begin

text \<open>
  \<open>internal/observe/raspberrypi.go\<close>: the SoC temperature collector, the firmware flags of a
  throttling mask and the validator of a Raspberry Pi observation. The thermal source and the
  polls of the context are parameters.
\<close>

unbundle bit_operations_syntax

section \<open>Observations\<close>

definition raspberryPiThermalZoneType :: string where
  "raspberryPiThermalZoneType = ''cpu-thermal''"

record firmwareHealth =
  fh_thermalThrottlingActive :: bool
  fh_thermalThrottlingOccurredSinceBoot :: bool
  fh_undervoltageActive :: bool
  fh_undervoltageOccurredSinceBoot :: bool

instantiation firmwareHealth_ext :: (zero) zero
begin
definition zero_firmwareHealth_ext :: "'a firmwareHealth_ext" where
  "zero_firmwareHealth_ext = firmwareHealth_ext False False False False 0"
instance by standard
end

record raspberryPiObservation =
  rpi_temperature :: "float64 outcome"
  rpi_firmware :: "firmwareHealth outcome"

text \<open>The thermal source, and \<open>ctx.Err()\<close> at each round of the loop over the zones.\<close>

record thermalSource =
  th_names :: "string list go"
  th_type :: "string \<Rightarrow> string go"
  th_temperature :: "string \<Rightarrow> string go"

section \<open>SoC temperature\<close>

text \<open>The search for the zone: a final outcome, or the name of the matching zone.\<close>

fun findThermalZone ::
    "(nat \<Rightarrow> goerror option) \<Rightarrow> thermalSource \<Rightarrow> nat \<Rightarrow> string list \<Rightarrow> string
     \<Rightarrow> float64 outcome + string" where
  "findThermalZone ctx source i [] match = Inr match"
| "findThermalZone ctx source i (name # names) match =
     (case ctx i of
        Some e \<Rightarrow> Inl (acquisitionFailure (Some e) reasonTemporarilyUnavailable)
      | None \<Rightarrow>
          (case th_type source name of
             Inl e \<Rightarrow> Inl (acquisitionFailure (Some e) reasonTemporarilyUnavailable)
           | Inr kind \<Rightarrow>
               if trim_space kind \<noteq> raspberryPiThermalZoneType
               then findThermalZone ctx source (Suc i) names match
               else if match \<noteq> []
               then Inl (unavailable reasonTemporarilyUnavailable
                           (Some (New ''multiple cpu-thermal zones are present'')))
               else findThermalZone ctx source (Suc i) names name))"

definition temperatureOf :: "int \<Rightarrow> float64" where
  "temperatureOf millidegrees = f_div (float_of_int millidegrees) (Fin 1000)"

definition parseTemperature :: "string \<Rightarrow> float64 outcome" where
  "parseTemperature data =
     (case parse_int 64 (trim_space data) of
        Inl e \<Rightarrow> unavailable reasonTemporarilyUnavailable
                  (Some (Wrapf ''parse SoC temperature: %w'' [] e))
      | Inr millidegrees \<Rightarrow>
          if millidegrees < -273150
          then unavailable reasonTemporarilyUnavailable
                 (Some (New ''SoC temperature is below absolute zero''))
          else let temperature = temperatureOf millidegrees
               in if is_NaN temperature \<or> is_Inf temperature
                  then unavailable reasonTemporarilyUnavailable
                         (Some (New ''SoC temperature is not finite''))
                  else present temperature)"

definition collectSoCTemperature ::
    "(nat \<Rightarrow> goerror option) \<Rightarrow> thermalSource option \<Rightarrow> float64 outcome" where
  "collectSoCTemperature ctx source =
     (case source of
        None \<Rightarrow> defect (Some (New ''thermal source is nil''))
      | Some th \<Rightarrow>
          (case th_names th of
             Inl e \<Rightarrow> acquisitionFailure (Some e) reasonUnsupported
           | Inr names \<Rightarrow>
               (case findThermalZone ctx th 0 names [] of
                  Inl result \<Rightarrow> result
                | Inr match \<Rightarrow>
                    if match = []
                    then unavailable reasonUnsupported (Some (New ''cpu-thermal zone is absent''))
                    else (case th_temperature th match of
                            Inl e \<Rightarrow> acquisitionFailure (Some e) reasonTemporarilyUnavailable
                          | Inr data \<Rightarrow> parseTemperature data))))"

section \<open>Firmware flags\<close>

definition firmwareHealthFromMask :: "u32 \<Rightarrow> firmwareHealth" where
  "firmwareHealthFromMask m =
     \<lparr>fh_thermalThrottlingActive = m AND push_bit 2 1 \<noteq> 0,
      fh_thermalThrottlingOccurredSinceBoot = m AND push_bit 18 1 \<noteq> 0,
      fh_undervoltageActive = m AND push_bit 0 1 \<noteq> 0,
      fh_undervoltageOccurredSinceBoot = m AND push_bit 16 1 \<noteq> 0\<rparr>"

section \<open>Collectors and validation\<close>

text \<open>The collector without devices.\<close>

definition unavailableRaspberryPiCollect :: raspberryPiObservation where
  "unavailableRaspberryPiCollect =
     (let cause = Some (New ''Raspberry Pi observation is unavailable'')
      in \<lparr>rpi_temperature = unavailable reasonTemporarilyUnavailable cause,
          rpi_firmware = unavailable reasonTemporarilyUnavailable cause\<rparr>)"

text \<open>The production collector: the firmware provider's answer is an argument.\<close>

definition productionRaspberryPiCollect ::
    "(nat \<Rightarrow> goerror option) \<Rightarrow> thermalSource option \<Rightarrow> firmwareHealth outcome
     \<Rightarrow> raspberryPiObservation" where
  "productionRaspberryPiCollect ctx thermal firmware =
     \<lparr>rpi_temperature = collectSoCTemperature ctx thermal, rpi_firmware = firmware\<rparr>"

text \<open>The constant \<open>-273.15\<close> of the source is the nearest 64-bit float.\<close>

definition absoluteZero :: float64 where
  "absoluteZero = round64 True (27315 / 100)"

definition temperature_value_ok :: "float64 \<Rightarrow> bool" where
  "temperature_value_ok t \<longleftrightarrow> \<not> is_NaN t \<and> \<not> is_Inf t \<and> \<not> f_less t absoluteZero"

definition validateRaspberryPi :: "raspberryPiObservation \<Rightarrow> goerror option" where
  "validateRaspberryPi v =
     (case validateOutcome (rpi_temperature v) of
        Some e \<Rightarrow> Some (Wrapf ''SoC temperature outcome: %w'' [] e)
      | None \<Rightarrow>
          if o_state (rpi_temperature v) = statePresent
             \<and> (is_NaN (o_value (rpi_temperature v)) \<or> is_Inf (o_value (rpi_temperature v))
                \<or> f_less (o_value (rpi_temperature v)) absoluteZero)
          then Some (New ''present SoC temperature is invalid'')
          else (case validateOutcome (rpi_firmware v) of
                  Some e \<Rightarrow> Some (Wrapf ''firmware outcome: %w'' [] e)
                | None \<Rightarrow> None))"

definition temperature_ok :: "float64 outcome \<Rightarrow> bool" where
  "temperature_ok v \<longleftrightarrow> valid_outcome v \<and> (is_present v \<longrightarrow> temperature_value_ok (o_value v))"

definition raspberryPi_ok :: "raspberryPiObservation \<Rightarrow> bool" where
  "raspberryPi_ok v \<longleftrightarrow> temperature_ok (rpi_temperature v) \<and> valid_outcome (rpi_firmware v)"

lemma validateRaspberryPi_None_iff: "validateRaspberryPi v = None \<longleftrightarrow> raspberryPi_ok v"
  using validateOutcome_None_iff [of "rpi_temperature v"] validateOutcome_None_iff [of "rpi_firmware v"]
  by (auto simp: validateRaspberryPi_def raspberryPi_ok_def temperature_ok_def is_present_def
      temperature_value_ok_def split: option.splits)

section \<open>Temperatures are never below absolute zero\<close>

lemma absoluteZero_value: "finite_float absoluteZero" "fval absoluteZero = - round_raw (27315 / 100)"
proof -
  have "(27315 / 100 :: rat) \<le> 2 ^ 9" by simp
  then have "(27315 / 100 :: rat) \<le> 2 ^ 1023" by (rule power_le_1023 [rotated]) simp
  note r = round64_value [OF this, of True]
  show "finite_float absoluteZero" "fval absoluteZero = - round_raw (27315 / 100)"
    using r by (simp_all add: absoluteZero_def)
qed

lemma temperatureOf_nonneg:
  assumes "0 \<le> m" "m < 2 ^ 63"
  shows "finite_float (temperatureOf m)" "0 \<le> fval (temperatureOf m)"
proof -
  have m: "(of_int \<bar>m\<bar> :: rat) \<le> 2 ^ 63"
    using assms by (simp add: order_less_imp_le flip: of_int_power)
  have m': "(of_int \<bar>m\<bar> :: rat) \<le> 2 ^ 1023" by (rule power_le_1023 [OF _ m]) simp
  define x where "x = float_of_int m"
  have x: "finite_float x" "fval x = round_raw (of_int m)"
    using round64_value [OF m', of False] assms(1) by (simp_all add: x_def float_of_int_def)
  have "round_raw (of_int m) \<le> 2 ^ 63" using round_raw_le_power [OF m] assms(1) by simp
  then have b: "\<bar>fval x / 1000\<bar> \<le> 2 ^ 63"
    using x(2) round_raw_nonneg [of "of_int m"] by (simp add: abs_of_nonneg)
  have b': "\<bar>fval x / 1000\<bar> \<le> 2 ^ 1023" by (rule power_le_1023 [OF _ b]) simp
  have "\<not> f_neg x"
    using x round_raw_nonneg [of "of_int m"] assms(1)
    by (cases x) (auto simp: x_def float_of_int_def round64_def Let_def split: if_splits)
  then have t: "temperatureOf m = round64 False \<bar>fval x / 1000\<bar>"
    using x(1) unfolding temperatureOf_def x_def [symmetric]
    by (simp add: f_div_def Let_def finite_float_def)
  show "finite_float (temperatureOf m)" "0 \<le> fval (temperatureOf m)"
    using round64_value [OF b', of False] by (simp_all add: t)
qed

lemma temperatureOf_negative:
  assumes "m < 0" "-273150 \<le> m"
  shows "finite_float (temperatureOf m)" "fval absoluteZero \<le> fval (temperatureOf m)"
proof -
  define n where "n = nat (- m)"
  have n: "n \<le> 273150" "0 < n" "(of_int \<bar>m\<bar> :: rat) = of_nat n"
    using assms by (simp_all add: n_def abs_of_neg)
  have "n < 2 ^ 53" using n(1) by simp
  then have rr: "round_raw (of_nat n) = of_nat n" by (rule round_raw_of_nat)
  have "(of_nat n :: rat) \<le> 2 ^ 19" using n(1) by (simp flip: of_nat_power)
  then have "(of_nat n :: rat) \<le> 2 ^ 1023" by (rule power_le_1023 [rotated]) simp
  note v = round64_value [OF this, of True]
  have x: "float_of_int m = Fin (- of_nat n)"
    using assms(1) v n rr by (simp add: float_of_int_def round64_def Let_def split: if_splits)
  have t: "temperatureOf m = round64 True (of_nat n / 1000)"
    using n(2) by (simp add: temperatureOf_def x f_div_def Let_def)
  have le: "(of_nat n / 1000 :: rat) \<le> 27315 / 100"
  proof -
    have "(of_nat n :: rat) \<le> of_nat 273150" using n(1) by (simp only: of_nat_le_iff)
    then show ?thesis by simp
  qed
  have "(of_nat n / 1000 :: rat) \<le> 2 ^ 9" using le by simp
  then have "(of_nat n / 1000 :: rat) \<le> 2 ^ 1023" by (rule power_le_1023 [rotated]) simp
  note w = round64_value [OF this, of True]
  show "finite_float (temperatureOf m)" using w(1) by (simp add: t)
  show "fval absoluteZero \<le> fval (temperatureOf m)"
    using w(2) round_raw_mono [OF le] by (simp add: t absoluteZero_value(2))
qed

lemma temperatureOf_ok:
  assumes "-273150 \<le> m" "m < 2 ^ 63"
  shows "temperature_value_ok (temperatureOf m)"
proof -
  have fin: "finite_float (temperatureOf m)"
    using temperatureOf_nonneg(1) temperatureOf_negative(1) assms by (cases "m < 0") auto
  have "fval absoluteZero \<le> fval (temperatureOf m)"
  proof (cases "m < 0")
    case True
    then show ?thesis using assms(1) by (rule temperatureOf_negative(2))
  next
    case False
    have "fval absoluteZero \<le> 0" by (simp add: absoluteZero_value(2))
    with False temperatureOf_nonneg(2) [of m] assms(2) show ?thesis by simp
  qed
  with fin absoluteZero_value(1) show ?thesis
    by (simp add: temperature_value_ok_def f_less_finite) (simp add: finite_float_def)
qed

lemma parseTemperature_ok: "temperature_ok (parseTemperature data)"
proof (cases "parse_int 64 (trim_space data)")
  case (Inl e)
  then show ?thesis by (simp add: parseTemperature_def temperature_ok_def)
next
  case (Inr m)
  have "m < 2 ^ 63" using parse_int_bounds [OF Inr] by simp
  with Inr temperatureOf_ok [of m] show ?thesis
    by (auto simp: parseTemperature_def temperature_ok_def Let_def)
qed

lemma findThermalZone_Inl_ok:
  "findThermalZone ctx s i names match = Inl v \<Longrightarrow> temperature_ok v"
  by (induction ctx s i names match rule: findThermalZone.induct)
    (auto simp: temperature_ok_def split: option.splits sum.splits if_splits)

lemma collectSoCTemperature_ok: "temperature_ok (collectSoCTemperature ctx (Some th))"
  using parseTemperature_ok findThermalZone_Inl_ok
  by (auto simp: collectSoCTemperature_def temperature_ok_def [of "unavailable _ _"]
      temperature_ok_def [of "acquisitionFailure _ _"] split: sum.split)

lemma productionRaspberryPiCollect_ok:
  "valid_outcome firmware \<Longrightarrow> raspberryPi_ok (productionRaspberryPiCollect ctx (Some th) firmware)"
  by (simp add: productionRaspberryPiCollect_def raspberryPi_ok_def collectSoCTemperature_ok)

lemma unavailableRaspberryPiCollect_ok: "raspberryPi_ok unavailableRaspberryPiCollect"
  by (simp add: unavailableRaspberryPiCollect_def raspberryPi_ok_def temperature_ok_def Let_def)

section \<open>The zone that is read\<close>

definition cpu_zone :: "thermalSource \<Rightarrow> string \<Rightarrow> bool" where
  "cpu_zone s name \<longleftrightarrow>
     (case th_type s name of Inl e \<Rightarrow> False | Inr kind \<Rightarrow> trim_space kind = raspberryPiThermalZoneType)"

lemma findThermalZone_Inr:
  assumes "findThermalZone ctx s i names match = Inr r" "[] \<notin> set names"
  shows "(filter (cpu_zone s) names = [] \<and> r = match)
         \<or> (match = [] \<and> r \<noteq> [] \<and> filter (cpu_zone s) names = [r])"
  using assms
proof (induction ctx s i names match rule: findThermalZone.induct)
  case (1 ctx source i match)
  then show ?case by simp
next
  case (2 ctx source i name names match)
  show ?case
  proof (cases "cpu_zone source name")
    case True
    then obtain kind where k: "th_type source name = Inr kind" "trim_space kind = raspberryPiThermalZoneType"
      by (auto simp: cpu_zone_def split: sum.splits)
    have c: "ctx i = None" "match = []" "findThermalZone ctx source (Suc i) names name = Inr r"
      using 2(3) k by (auto split: option.splits if_splits)
    from 2(2) [OF c(1) k(1)] k c 2(4) True show ?thesis by auto
  next
    case False
    then obtain kind where k: "th_type source name = Inr kind" "trim_space kind \<noteq> raspberryPiThermalZoneType"
      using 2(3) by (auto simp: cpu_zone_def split: sum.splits option.splits)
    have c: "ctx i = None" "findThermalZone ctx source (Suc i) names match = Inr r"
      using 2(3) k by (auto split: option.splits if_splits)
    from 2(1) [OF c(1) k(1,2) c(2)] 2(4) False show ?thesis by simp
  qed
qed

lemma findThermalZone_Inl_not_present:
  "findThermalZone ctx s i names match = Inl v \<Longrightarrow> \<not> is_present v"
  by (induction ctx s i names match rule: findThermalZone.induct)
    (auto split: option.splits sum.splits if_splits)

section \<open>Properties\<close>

text \<open>
  A temperature that is presented comes from the only thermal
  zone of type cpu-thermal; it is the quotient of the parsed millidegrees by 1000, and neither
  it nor the parsed number is below absolute zero.
\<close>

theorem temperature_from_unique_zone:
  assumes "th_names th = Inr names" "[] \<notin> set names"
    and "is_present (collectSoCTemperature ctx (Some th))"
  shows "\<exists>zone data m. filter (cpu_zone th) names = [zone] \<and> th_temperature th zone = Inr data
           \<and> parse_int 64 (trim_space data) = Inr m \<and> -273150 \<le> m
           \<and> o_value (collectSoCTemperature ctx (Some th)) = temperatureOf m
           \<and> \<not> f_less (temperatureOf m) absoluteZero"
proof -
  obtain zone where z: "findThermalZone ctx th 0 names [] = Inr zone"
    using assms(1,3) findThermalZone_Inl_not_present
    by (cases "findThermalZone ctx th 0 names []") (fastforce simp: collectSoCTemperature_def)+
  have nz: "zone \<noteq> []" using assms(1,3) z by (auto simp: collectSoCTemperature_def)
  then have f: "filter (cpu_zone th) names = [zone]"
    using findThermalZone_Inr [OF z assms(2)] by auto
  obtain data where d: "th_temperature th zone = Inr data"
    using assms(1,3) z nz by (cases "th_temperature th zone") (auto simp: collectSoCTemperature_def)
  have c: "collectSoCTemperature ctx (Some th) = parseTemperature data"
    using assms(1) z nz d by (simp add: collectSoCTemperature_def)
  obtain m where m: "parse_int 64 (trim_space data) = Inr m"
    using assms(3) unfolding c
    by (cases "parse_int 64 (trim_space data)") (auto simp: parseTemperature_def)
  have "-273150 \<le> m" "parseTemperature data = present (temperatureOf m)"
    using assms(3) unfolding c
    by (auto simp: parseTemperature_def m Let_def split: if_splits)
  moreover have "temperature_value_ok (temperatureOf m)"
    using parseTemperature_ok [of data] calculation(2) by (simp add: temperature_ok_def)
  ultimately show ?thesis using f d m c by (auto simp: temperature_value_ok_def)
qed

definition example_thermal :: thermalSource where
  "example_thermal =
     \<lparr>th_names = Inr [''thermal_zone0'', ''thermal_zone1''],
      th_type = (\<lambda>n. if n = ''thermal_zone1'' then Inr (''cpu-thermal'' @ [CHR 0x0A]) else Inr ''gpu''),
      th_temperature = (\<lambda>n. Inr ''48250'')\<rparr>"

lemma example_temperature_present: "is_present (collectSoCTemperature (\<lambda>i. None) (Some example_thermal))"
proof -
  have t: "trim_space (''cpu-thermal'' @ [CHR 0x0A]) = ''cpu-thermal''"
    by (rule trim_space_id) (auto simp: is_space_def)
  have t': "trim_space ''gpu'' = ''gpu''" "trim_space ''48250'' = ''48250''"
    using trim_space_id [of "''gpu''" "[]"] trim_space_id [of "''48250''" "[]"]
    by (simp_all add: is_space_def)
  have p: "parse_int 64 ''48250'' = Inr 48250"
    by (simp add: parse_int_def parse_uint_def digit_of_def)
  have "temperature_value_ok (temperatureOf 48250)" by (rule temperatureOf_ok) simp_all
  then have "is_present (parseTemperature ''48250'')"
    by (simp add: parseTemperature_def t' p Let_def temperature_value_ok_def)
  then show ?thesis
    using t by (simp add: collectSoCTemperature_def example_thermal_def t' raspberryPiThermalZoneType_def)
qed

theorem temperature_from_unique_zone_witness:
  "\<exists>zone. filter (cpu_zone example_thermal) [''thermal_zone0'', ''thermal_zone1''] = [zone]"
proof -
  have "th_names example_thermal = Inr [''thermal_zone0'', ''thermal_zone1'']"
    by (simp add: example_thermal_def)
  moreover have "[] \<notin> set [''thermal_zone0'', ''thermal_zone1'']" by simp
  ultimately show ?thesis
    using temperature_from_unique_zone [OF _ _ example_temperature_present] by blast
qed

text \<open>
  The four firmware flags are the bits 0, 2, 16 and 18 of the mask; no
  other bit influences them.
\<close>

theorem firmware_flags_bits:
  "fh_undervoltageActive (firmwareHealthFromMask m) = bit m 0
   \<and> fh_thermalThrottlingActive (firmwareHealthFromMask m) = bit m 2
   \<and> fh_undervoltageOccurredSinceBoot (firmwareHealthFromMask m) = bit m 16
   \<and> fh_thermalThrottlingOccurredSinceBoot (firmwareHealthFromMask m) = bit m 18"
proof -
  have b: "(m AND push_bit n 1 \<noteq> 0) = bit m n" for n
    using and_exp_eq_0_iff_not_bit [of m n] by (simp add: push_bit_eq_mult)
  show ?thesis unfolding firmwareHealthFromMask_def by (simp only: firmwareHealth.simps b simp_thms)
qed

end
