(* ===== verification/Validators.thy ===== *)
theory Validators
  imports RaspberryPi Network
begin

text \<open>
  The validators of \<open>internal/observe/coordinator.go\<close> for the observations of the collectors,
  each with the predicate it decides, and the readiness probe of
  \<open>internal/observe/readiness.go\<close>, which uses two of them.
\<close>

section \<open>Validators\<close>

definition validateHost :: "hostObservation \<Rightarrow> goerror option" where
  "validateHost v =
     (case validateOutcome (host_hostname v) of
        Some e \<Rightarrow> Some (Wrapf ''hostname outcome: %w'' [] e)
      | None \<Rightarrow>
          if o_state (host_hostname v) = statePresent
             \<and> (o_value (host_hostname v) = [] \<or> \<not> valid_utf8 (o_value (host_hostname v)))
          then Some (New ''present hostname is invalid'')
          else (case validateOutcome (host_uptime v) of
                  Some e \<Rightarrow> Some (Wrapf ''uptime outcome: %w'' [] e)
                | None \<Rightarrow> None))"

definition validateCPULoad :: "cpuLoadObservation \<Rightarrow> goerror option" where
  "validateCPULoad v =
     (case validateOutcome (cl_logicalCPUCount v) of
        Some e \<Rightarrow> Some (Wrapf ''logical CPU count outcome: %w'' [] e)
      | None \<Rightarrow>
          if o_state (cl_logicalCPUCount v) = statePresent \<and> o_value (cl_logicalCPUCount v) = 0
          then Some (New ''present logical CPU count is zero'')
          else if o_state (cl_logicalCPUCount v) = statePresent \<and> cl_topologySignature v = []
          then Some (New ''present logical CPU topology has no signature'')
          else if o_state (cl_logicalCPUCount v) \<noteq> statePresent \<and> cl_topologySignature v \<noteq> []
          then Some (New ''unavailable logical CPU topology has a signature'')
          else (case validateOutcome (cl_load v) of
                  Some e \<Rightarrow> Some (Wrapf ''load outcome: %w'' [] e)
                | None \<Rightarrow>
                    if o_state (cl_load v) = statePresent
                       \<and> \<not> list_all (\<lambda>load. \<not> (is_NaN load \<or> is_Inf load \<or> f_less load (Fin 0)))
                            [load_oneMinute (o_value (cl_load v)),
                             load_fiveMinutes (o_value (cl_load v)),
                             load_fifteenMinutes (o_value (cl_load v))]
                    then Some (New ''present load observation is invalid'') else None))"

definition validateMemoryOutcome :: "memoryObservation outcome \<Rightarrow> goerror option" where
  "validateMemoryOutcome v =
     (case validateOutcome v of
        Some e \<Rightarrow> Some e
      | None \<Rightarrow>
          if o_state v = statePresent
             \<and> (mem_availableBytes (o_value v) > mem_totalBytes (o_value v)
                \<or> mem_usedBytes (o_value v) \<noteq>
                    mem_totalBytes (o_value v) - mem_availableBytes (o_value v))
          then Some (New ''present memory observation is inconsistent'') else None)"

definition validateFilesystemOutcome :: "filesystemObservation outcome \<Rightarrow> goerror option" where
  "validateFilesystemOutcome v =
     (case validateOutcome v of
        Some e \<Rightarrow> Some e
      | None \<Rightarrow>
          if o_state v = statePresent
             \<and> (mem_availableBytes (o_value v) > mem_totalBytes (o_value v)
                \<or> mem_usedBytes (o_value v) \<noteq>
                    mem_totalBytes (o_value v) - mem_availableBytes (o_value v))
          then Some (New ''present filesystem observation is inconsistent'') else None)"

text \<open>The loop over the interfaces; \<open>first\<close> is \<open>index == 0\<close>.\<close>

fun validateInterfaces :: "bool \<Rightarrow> string \<Rightarrow> networkInterfaceObservation list \<Rightarrow> goerror option" where
  "validateInterfaces first previousName [] = None"
| "validateInterfaces first previousName (n # ns) =
     (if ifo_name n = [] \<or> \<not> valid_utf8 (ifo_name n)
         \<or> \<not> first \<and> \<not> (previousName < ifo_name n)
      then Some (New ''present network interfaces are not uniquely ordered by valid name'')
      else case validateOutcome (ifo_state n) of
        Some e \<Rightarrow> Some (Wrapf ''interface %q state outcome: %w'' [FStr (ifo_name n)] e)
      | None \<Rightarrow>
         (case validateOutcome (ifo_rxBytes n) of
            Some e \<Rightarrow> Some (Wrapf ''interface %q receive outcome: %w'' [FStr (ifo_name n)] e)
          | None \<Rightarrow>
             (case validateOutcome (ifo_txBytes n) of
                Some e \<Rightarrow> Some (Wrapf ''interface %q transmit outcome: %w'' [FStr (ifo_name n)] e)
              | None \<Rightarrow>
                  if o_state (ifo_state n) = statePresent
                     \<and> o_value (ifo_state n) \<noteq> ''up'' \<and> o_value (ifo_state n) \<noteq> ''down''
                     \<and> o_value (ifo_state n) \<noteq> ''unknown''
                  then Some (Errorf ''interface %q has an invalid present state''
                               [FStr (ifo_name n)])
                  else validateInterfaces False (ifo_name n) ns)))"

definition validateNetwork :: "networkObservation outcome \<Rightarrow> goerror option" where
  "validateNetwork v =
     (case validateOutcome v of
        Some e \<Rightarrow> Some e
      | None \<Rightarrow>
          if o_state v \<noteq> statePresent then None
          else if length (obs_interfaces (o_value v)) > maximumInterfaces
          then Some (New ''present network observation exceeds the interface limit'')
          else validateInterfaces True [] (obs_interfaces (o_value v)))"

section \<open>What the validators decide\<close>

lemma validateHost_None_iff: "validateHost v = None \<longleftrightarrow> host_ok v"
  using validateOutcome_None_iff [of "host_hostname v"] validateOutcome_None_iff [of "host_uptime v"]
  by (auto simp: validateHost_def host_ok_def is_present_def split: option.splits)

lemma validateCPULoad_None_iff: "validateCPULoad v = None \<longleftrightarrow> cpuLoad_ok v"
  using validateOutcome_None_iff [of "cl_logicalCPUCount v"] validateOutcome_None_iff [of "cl_load v"]
  by (auto simp: validateCPULoad_def cpuLoad_ok_def is_present_def load_ok_def load_value_ok_def
      split: option.splits)

lemma validateMemoryOutcome_None_iff: "validateMemoryOutcome v = None \<longleftrightarrow> memory_outcome_ok v"
  using validateOutcome_None_iff [of v]
  by (auto simp: validateMemoryOutcome_def memory_outcome_ok_def bytes_ok_def is_present_def not_less
      split: option.splits)

lemma validateFilesystemOutcome_None_iff:
  "validateFilesystemOutcome v = None \<longleftrightarrow> memory_outcome_ok v"
  using validateOutcome_None_iff [of v]
  by (auto simp: validateFilesystemOutcome_def memory_outcome_ok_def bytes_ok_def is_present_def
      not_less split: option.splits)

lemma validateInterfaces_None_iff:
  "validateInterfaces first prev ns = None \<longleftrightarrow>
     (\<forall>n\<in>set ns. interface_observation_ok n) \<and> sorted_wrt (<) (map ifo_name ns)
     \<and> (first \<or> ns = [] \<or> prev < ifo_name (hd ns))"
proof (induction ns arbitrary: first prev)
  case Nil
  then show ?case by simp
next
  case (Cons n ns)
  have chain: "sorted_wrt (<) (ifo_name n # map ifo_name ns) \<longleftrightarrow>
      sorted_wrt (<) (map ifo_name ns) \<and> (ns = [] \<or> ifo_name n < ifo_name (hd ns))"
    by (cases ns) (auto intro: less_trans)
  have v: "validateInterfaces first prev (n # ns) = None \<longleftrightarrow>
      interface_observation_ok n \<and> (first \<or> prev < ifo_name n)
      \<and> validateInterfaces False (ifo_name n) ns = None"
    using validateOutcome_None_iff [of "ifo_state n"] validateOutcome_None_iff [of "ifo_rxBytes n"]
      validateOutcome_None_iff [of "ifo_txBytes n"]
    by (cases "validateOutcome (ifo_state n)"; cases "validateOutcome (ifo_rxBytes n)";
        cases "validateOutcome (ifo_txBytes n)")
      (auto simp: interface_observation_ok_def is_present_def)
  show ?case
    unfolding v Cons.IH list.map(2) chain by auto
qed

lemma validateNetwork_None_iff: "validateNetwork v = None \<longleftrightarrow> network_observation_ok v"
  using validateOutcome_None_iff [of v]
  by (auto simp: validateNetwork_def network_observation_ok_def is_present_def not_less
      validateInterfaces_None_iff split: option.splits)

section \<open>Readiness\<close>

text \<open>
  \<open>ProbeReadiness\<close>: \<open>None\<close> for a nil context or source; \<open>c1\<close> and \<open>c2\<close> are
  \<open>ctx.Err()\<close> in the two collectors.
\<close>

definition ProbeReadiness ::
    "(goerror option \<times> goerror option) option \<Rightarrow> genericSource option \<Rightarrow> goerror option" where
  "ProbeReadiness ctx source =
     (case (ctx, source) of
        (Some (c1, c2), Some src) \<Rightarrow>
          (let host = collectHost c1 src
           in case validateHost host of
                Some e \<Rightarrow> Some (Wrapf ''readiness host observation: %w'' [] e)
              | None \<Rightarrow>
                  if o_state (host_hostname host) \<noteq> statePresent
                  then Some (New ''required hostname is unavailable'')
                  else if o_state (host_uptime host) = statePresent then None
                  else (let root = collectRootFilesystem c2 src
                        in case validateFilesystemOutcome root of
                             Some e \<Rightarrow> Some (Wrapf ''readiness root-filesystem observation: %w'' [] e)
                           | None \<Rightarrow>
                               if o_state root = statePresent then None
                               else Some (New ''no useful readiness metric is available'')))
      | _ \<Rightarrow> Some (New ''readiness probe dependencies are required''))"

section \<open>Properties\<close>

text \<open>
  The probe succeeds exactly when the hostname can be observed together
  with the uptime or the root filesystem; a collector's defect never makes it fail.
\<close>

theorem readiness_exact:
  "ProbeReadiness (Some (c1, c2)) (Some src) = None \<longleftrightarrow>
     is_present (host_hostname (collectHost c1 src))
     \<and> (is_present (host_uptime (collectHost c1 src)) \<or> is_present (collectRootFilesystem c2 src))"
proof -
  have "validateHost (collectHost c1 src) = None"
    by (simp add: validateHost_None_iff collectHost_ok)
  moreover have "validateFilesystemOutcome (collectRootFilesystem c2 src) = None"
    by (simp add: validateFilesystemOutcome_None_iff collectRootFilesystem_ok)
  ultimately show ?thesis by (simp add: ProbeReadiness_def is_present_def Let_def)
qed

text \<open>
  The coordinator's validator accepts exactly the network
  observations with at most 64 strictly ordered, well-formed interfaces.
\<close>

theorem network_validator_exact: "validateNetwork v = None \<longleftrightarrow> network_observation_ok v"
  by (rule validateNetwork_None_iff)

end
