(* ===== verification/FloatShortest.thy ===== *)
theory FloatShortest
  imports FloatText GoTime
begin

text \<open>
  The values a 64-bit float can have, and the text the JSON encoder prints for one: it is at most
  25 bytes long, seventeen digits always suffice, and \<open>strconv.ParseFloat\<close> reads the same float back.
\<close>

section \<open>Rounding is idempotent\<close>

lemma powi_add: "(2 :: rat) powi (a + b) = 2 powi a * 2 powi b"
  by (simp add: power_int_add)

lemma round_raw_grid:
  assumes "0 < r"
  obtains n where "round_raw r = of_int n * 2 powi lsb_exp r" "0 \<le> n"
proof -
  have "of_int 0 \<le> r / 2 powi lsb_exp r" using assms by simp
  then have "0 \<le> round_half_even (r / 2 powi lsb_exp r)" by (rule round_half_even_ge)
  with that assms show thesis by (simp add: round_raw_def)
qed

lemma round_raw_multiple:
  assumes "v = of_int n * 2 powi e" "lsb_exp v \<le> e" "0 \<le> n"
  shows "round_raw v = v"
proof -
  obtain m where m: "(of_int n * 2 powi e :: rat) / 2 powi lsb_exp v = of_int m"
    using grid_multiple [OF assms(2)] .
  then have v: "v = of_int m * 2 powi lsb_exp v" using assms(1) by (simp add: field_simps)
  have "0 \<le> (of_int n * 2 powi e :: rat) / 2 powi lsb_exp v" using assms(3) by simp
  then have "0 \<le> m" unfolding m by simp
  with v show ?thesis by (rule round_raw_exact)
qed

lemma lsb_exp_power_le: "-1074 \<le> j \<Longrightarrow> v \<le> 2 powi j \<Longrightarrow> 0 < v \<Longrightarrow> lsb_exp v \<le> j"
proof -
  assume a: "-1074 \<le> j" "v \<le> 2 powi j" "0 < v"
  have "(2 :: rat) powi j < 2 powi (j + 1)" by (simp add: power_int_add)
  with a(2) have "v < of_nat 2 powi (j + 1)" by simp
  then have "ilog 2 v < j + 1" using a(3) by (intro ilog_less) simp_all
  with a(1) show ?thesis by (simp add: lsb_exp_def)
qed

lemma round_raw_power: "-1074 \<le> j \<Longrightarrow> round_raw (2 powi j) = 2 powi j"
  by (rule round_raw_multiple [where n = 1 and e = j]) (simp_all add: lsb_exp_power_le)

lemma round_raw_idem: "round_raw (round_raw r) = round_raw r"
proof (cases "round_raw r = 0 \<or> r \<le> 0")
  case True
  then have "round_raw r = 0" by (auto simp: round_raw_def)
  then show ?thesis by (simp add: round_raw_def)
next
  case False
  let ?e = "lsb_exp r" and ?v = "round_raw r"
  define j where "j = max (ilog 2 r + 1) ?e"
  have v0: "0 < ?v" and r0: "0 < r" using False round_raw_nonneg [of r] by linarith+
  obtain n where n: "?v = of_int n * 2 powi ?e" "0 \<le> n" using round_raw_grid [OF r0] .
  have j: "?e \<le> j" "-1074 \<le> j" by (auto simp: j_def lsb_exp_def)
  have "r \<le> 2 powi (ilog 2 r + 1)" using ilog_bounds(2) [of 2 r] r0 by simp
  also have "\<dots> \<le> 2 powi j" by (intro power_int_increasing) (simp_all add: j_def)
  finally have "?v \<le> of_int 1 * 2 powi j" using j by (intro round_raw_le_grid) simp_all
  then have le: "?v \<le> 2 powi j" by simp
  show ?thesis
  proof (cases "?v = 2 powi j")
    case True
    then show ?thesis using round_raw_power [OF j(2)] by simp
  next
    case less: False
    then have "ilog 2 ?v < j" using le v0 by (intro ilog_less) simp_all
    then have "lsb_exp ?v \<le> ?e" by (auto simp: j_def lsb_exp_def)
    with n show ?thesis by (intro round_raw_multiple)
  qed
qed

section \<open>The values of the type\<close>

text \<open>A finite 64-bit float is zero or a number that rounding leaves alone, below the overflow.\<close>

definition is_float64 :: "float64 \<Rightarrow> bool" where
  "is_float64 x \<longleftrightarrow> (case x of Fin r \<Rightarrow> round_raw \<bar>r\<bar> = \<bar>r\<bar> \<and> \<bar>r\<bar> < 2 ^ 1024 | _ \<Rightarrow> True)"

lemma is_float64_round64 [simp]: "is_float64 (round64 neg r)"
  using round_raw_idem [of r] by (auto simp: is_float64_def round64_def Let_def)

lemma is_float64_simps [simp]:
  "is_float64 NaN" "is_float64 PosInf" "is_float64 NegInf" "is_float64 NegZero" "is_float64 (Fin 0)"
  "is_float64 (signed_inf s)" "is_float64 (signed_zero s)"
  by (simp_all add: is_float64_def signed_inf_def signed_zero_def round_raw_def)

lemma is_float64_of_nat: "n < 2 ^ 53 \<Longrightarrow> is_float64 (Fin (of_nat n))"
  by (metis is_float64_round64 float_of_nat_exact float_of_nat_def)

lemma is_float64_ops [simp]:
  "is_float64 (f_mul x y)" "is_float64 (f_div x y)" "is_float64 (float_of_nat n)"
  by (simp_all add: f_mul_def f_div_def float_of_nat_def Let_def)

lemma special_float_is_float64: "special_float s = Some x \<Longrightarrow> is_float64 x"
  by (auto simp: special_float_def Let_def split: prod.splits if_splits)

lemma parse_float_is_float64: "parse_float s = Inr x \<Longrightarrow> is_float64 x"
  by (auto simp: parse_float_def Let_def dest: special_float_is_float64
      split: option.splits prod.splits list.splits if_splits)

section \<open>Seventeen digits suffice\<close>

lemma round_half_even_near:
  assumes "\<bar>x - of_int n\<bar> < 1 / 2"
  shows "round_half_even x = n"
proof (cases "of_int n \<le> x")
  case True
  then have "\<lfloor>x\<rfloor> = n" using assms by (intro floor_unique) linarith+
  then show ?thesis using assms True by (simp add: round_half_even_def Let_def)
next
  case False
  then have "\<lfloor>x\<rfloor> = n - 1" using assms by (intro floor_unique) (simp_all add: abs_less_iff)
  then show ?thesis using assms False by (simp add: round_half_even_def Let_def)
qed

lemma round_half_even_error: "\<bar>of_int (round_half_even x) - x\<bar> \<le> 1 / 2"
proof -
  have "of_int \<lfloor>x\<rfloor> \<le> x" "x < of_int \<lfloor>x\<rfloor> + 1" by linarith+
  then show ?thesis by (auto simp: round_half_even_def Let_def)
qed

lemma below_lsb: "0 < v \<Longrightarrow> v < 2 ^ 53 * 2 powi lsb_exp v"
proof -
  assume v: "0 < v"
  have "v < 2 powi (ilog 2 v + 1)" using ilog_bounds(2) [of 2 v] v by simp
  also have "\<dots> \<le> 2 powi (53 + lsb_exp v)"
    by (intro power_int_increasing) (simp_all add: lsb_exp_def)
  finally show ?thesis by (simp add: powi_add)
qed

lemma half_ulp:
  fixes d r s P :: rat
  assumes "r \<le> s + d" "d * (2 * 10 ^ 16) \<le> r" "s < 2 ^ 53 * P" "0 < P"
  shows "d < P / 2"
  using assms by simp

text \<open>
  A number within \<open>r / (2 * 10 ^ 16)\<close> of a float \<open>r\<close> rounds to it, on either side of a power of two.
\<close>

lemma round_raw_near:
  assumes "0 < r" "round_raw r = r" "\<bar>s - r\<bar> * (2 * 10 ^ 16) \<le> r"
  shows "round_raw s = r"
proof -
  let ?e = "lsb_exp r" and ?e' = "lsb_exp s"
  have d: "\<bar>s - r\<bar> < r / 2" using assms(1,3) by simp
  then have s: "0 < s" by linarith
  have near_r: "\<bar>s - r\<bar> < 2 powi ?e / 2"
    using assms(3) below_lsb [OF assms(1)] two_powi_pos [of ?e] by (intro half_ulp [of r r]) simp_all
  have "r \<le> s + \<bar>s - r\<bar>" by linarith
  then have near_s: "\<bar>s - r\<bar> < 2 powi ?e' / 2"
    using assms(3) below_lsb [OF s] two_powi_pos [of ?e'] by (rule half_ulp)
  obtain n where n: "r = of_int n * 2 powi ?e" "0 \<le> n"
    using round_raw_grid [OF assms(1)] assms(2) by metis
  have le: "?e' \<le> ?e"
  proof (rule ccontr)
    assume "\<not> ?e' \<le> ?e"
    then have e': "?e < ?e'" "?e' = ilog 2 s - 52" "ilog 2 r < ilog 2 s" by (auto simp: lsb_exp_def)
    let ?j = "ilog 2 s"
    have low: "2 powi ?j \<le> s" using ilog_bounds(1) [of 2 s] s by simp
    have "r < 2 powi (ilog 2 r + 1)" using ilog_bounds(2) [of 2 r] assms(1) by simp
    also have "\<dots> \<le> 2 powi ?j" using e'(3) by (intro power_int_increasing) simp_all
    finally have r: "r < 2 powi ?j" .
    obtain m where "(of_int 1 * 2 powi ?j :: rat) / 2 powi ?e = of_int m"
      using grid_multiple [of ?e ?j 1] e' by auto
    then have m: "2 powi ?j = of_int m * (2 powi ?e :: rat)" by (simp add: field_simps)
    have "(of_int n :: rat) < of_int m" using r unfolding m by (subst (asm) n(1)) simp
    then have "(of_int (n + 1) :: rat) \<le> of_int m" by (simp only: of_int_less_iff of_int_le_iff zless_imp_add1_zle)
    then have "(of_int n + 1 :: rat) \<le> of_int m" by simp
    then have "(of_int n + 1) * (2 powi ?e :: rat) \<le> of_int m * 2 powi ?e"
      by (intro mult_right_mono) simp_all
    then have "r + 2 powi ?e \<le> s" using low m n(1) by (simp add: distrib_right)
    with near_r show False using two_powi_pos [of ?e] by linarith
  qed
  obtain m where "(of_int n * 2 powi ?e :: rat) / 2 powi ?e' = of_int m" using grid_multiple [OF le] .
  then have m: "r / 2 powi ?e' = of_int m" using n(1) by simp
  have "\<bar>s / 2 powi ?e' - of_int m\<bar> = \<bar>s - r\<bar> / 2 powi ?e'"
    unfolding m [symmetric] by (simp flip: diff_divide_distrib)
  also have "\<dots> < 1 / 2" using near_s by (simp add: divide_less_eq)
  finally have "round_half_even (s / 2 powi ?e') = m" by (rule round_half_even_near)
  then have "round_raw s = of_int m * 2 powi ?e'" using s by (simp add: round_raw_def)
  also have "\<dots> = r" unfolding m [symmetric] by simp
  finally show ?thesis .
qed

lemma scaled_bounds:
  assumes "0 < r" "0 < p"
  defines "x \<equiv> r / 10 powi (ilog 10 r - int (p - 1))"
  shows "10 ^ (p - 1) \<le> x" "x < 10 ^ p"
proof -
  let ?i = "ilog 10 r"
  have e: "(10 :: rat) powi ?i = 10 powi (?i - int (p - 1)) * 10 ^ (p - 1)"
    by (simp flip: power_int_of_nat power_int_add)
  have "(10 :: rat) powi ?i \<le> r" using ilog_bounds(1) [of 10 r] assms(1) by simp
  then show "10 ^ (p - 1) \<le> x" unfolding e x_def by (simp add: le_divide_eq mult.commute)
  have "int p = 1 + int (p - 1)" using assms(2) by simp
  then have "?i + 1 = (?i - int (p - 1)) + int p" by linarith
  then have e1: "(10 :: rat) powi (?i + 1) = 10 powi (?i - int (p - 1)) * 10 ^ p"
    by (simp only:) (subst power_int_add, simp_all)
  have "r < (10 :: rat) powi (?i + 1)" using ilog_bounds(2) [of 10 r] assms(1) by simp
  then show "x < 10 ^ p" unfolding e1 x_def by (simp add: divide_less_eq mult.commute)
qed

text \<open>Every candidate has the magnitude of its precision and rounds to the float.\<close>

definition candidate_ok :: "rat \<Rightarrow> nat \<Rightarrow> nat \<times> int \<Rightarrow> bool" where
  "candidate_ok r p dk \<longleftrightarrow>
     snd dk = ilog 10 r - int (p - 1) \<and> 10 ^ (p - 1) \<le> fst dk \<and> fst dk \<le> 10 ^ p
     \<and> round_raw (of_nat (fst dk) * 10 powi snd dk) = r"

lemma near_scaled:
  assumes "(10 :: rat) ^ q \<le> x" "x < 10 ^ p" "d \<in> {round_half_even x, \<lfloor>x\<rfloor>, \<lfloor>x\<rfloor> + 1}"
  shows "10 ^ q \<le> nat d \<and> nat d \<le> 10 ^ p \<and> 0 \<le> d"
proof -
  have lo: "10 ^ q \<le> \<lfloor>x\<rfloor>" using assms(1) by (simp add: le_floor_iff)
  have "\<lfloor>x\<rfloor> < 10 ^ p" using assms(2) by (simp add: floor_less_iff)
  then have hi: "\<lfloor>x\<rfloor> + 1 \<le> 10 ^ p" by simp
  have d: "\<lfloor>x\<rfloor> \<le> d" "d \<le> \<lfloor>x\<rfloor> + 1" using assms(3) round_half_even_cases [of x] by auto
  then have "10 ^ q \<le> d" "d \<le> 10 ^ p" using lo hi by linarith+
  moreover have "0 \<le> d" using d(1) lo by (meson order_trans zero_le_numeral zero_le_power)
  ultimately show ?thesis
    by (simp add: nat_le_iff le_nat_iff)
qed

lemma decimal_candidate_ok:
  assumes "0 < r" "0 < p" "decimal_candidate r p = Some dk"
  shows "candidate_ok r p dk"
proof -
  let ?k = "ilog 10 r - int (p - 1)"
  let ?x = "r / 10 powi ?k"
  obtain d where d: "d \<in> {round_half_even ?x, \<lfloor>?x\<rfloor>, \<lfloor>?x\<rfloor> + 1}" "dk = (nat d, ?k)"
    "round_raw (of_int d * 10 powi ?k) = r"
    using assms(3) unfolding decimal_candidate_def Let_def
    by (metis insert_iff option.discI option.inject)
  note n = near_scaled [OF scaled_bounds [OF assms(1,2)] d(1)]
  then have "(of_nat (nat d) :: rat) = of_int d" by simp
  with d n show ?thesis by (simp add: candidate_ok_def)
qed

lemma decimal_candidate_17:
  assumes "0 < r" "round_raw r = r"
  shows "decimal_candidate r 17 \<noteq> None"
proof -
  let ?k = "ilog 10 r - 16"
  let ?x = "r / 10 powi ?k" and ?p = "(10 :: rat) powi ?k"
  let ?n = "of_int (round_half_even ?x) :: rat"
  have p: "0 < ?p" by simp
  have x: "10 ^ 16 \<le> ?x" using scaled_bounds(1) [OF assms(1), of 17] by simp
  have "?n * ?p - r = (?n - ?x) * ?p" using p by (simp add: left_diff_distrib)
  then have "\<bar>?n * ?p - r\<bar> = \<bar>?n - ?x\<bar> * ?p" using p by (simp only: abs_mult abs_of_pos)
  also have "\<dots> \<le> 1 / 2 * ?p" using round_half_even_error [of ?x] p by (intro mult_right_mono) simp_all
  finally have "\<bar>?n * ?p - r\<bar> * (2 * 10 ^ 16) \<le> 10 ^ 16 * ?p" by simp
  also have "\<dots> \<le> r" using x p by (simp add: le_divide_eq)
  finally have "round_raw (?n * ?p) = r" by (rule round_raw_near [OF assms])
  then show ?thesis by (simp add: decimal_candidate_def Let_def)
qed

lemma shortest_from_ok:
  assumes "0 < r" "round_raw r = r" "0 < p" "p \<le> 17" "p + n = 18"
  shows "\<exists>q. 0 < q \<and> q \<le> 17 \<and> candidate_ok r q (shortest_from r p n)"
  using assms(3-)
proof (induction n arbitrary: p)
  case (Suc n)
  show ?case
  proof (cases "decimal_candidate r p")
    case None
    then have "p \<noteq> 17" using decimal_candidate_17 [OF assms(1,2)] by metis
    then have "Suc p \<le> 17" "Suc p + n = 18" using Suc.prems by simp_all
    then show ?thesis using Suc.IH [of "Suc p"] None by simp
  next
    case (Some dk)
    then show ?thesis using decimal_candidate_ok [OF assms(1) Suc.prems(1) Some] Suc.prems by auto
  qed
qed simp

section \<open>The length of the text\<close>

lemma dec_upper: "n < 10 ^ length (dec n)"
proof (induction n rule: dec.induct)
  case (1 n)
  show ?case
  proof (cases "n < 10")
    case False
    with 1 have "n div 10 < 10 ^ length (dec (n div 10))" by simp
    then have "n < 10 * 10 ^ length (dec (n div 10))" by linarith
    with False show ?thesis by (simp add: dec.simps [of n])
  qed (simp add: dec.simps [of n])
qed

lemma length_dec_ge: "10 ^ (p - 1) \<le> n \<Longrightarrow> p \<le> length (dec n)"
proof (rule ccontr)
  assume a: "10 ^ (p - 1) \<le> n" "\<not> p \<le> length (dec n)"
  then have "(10 :: nat) ^ length (dec n) \<le> 10 ^ (p - 1)" by (intro power_increasing) simp_all
  with a(1) dec_upper [of n] show False by (meson less_le_trans not_less)
qed

lemma strip_zeros_split:
  obtains z where "s = strip_zeros s @ replicate z CHR ''0''"
proof -
  let ?P = "\<lambda>c. c = CHR ''0''"
  have "rev s = takeWhile ?P (rev s) @ dropWhile ?P (rev s)" by simp
  then have "s = rev (dropWhile ?P (rev s)) @ rev (takeWhile ?P (rev s))"
    by (metis rev_append rev_rev_ident)
  moreover have "takeWhile ?P (rev s) = replicate (length (takeWhile ?P (rev s))) CHR ''0''"
    by (rule replicate_length_same [symmetric]) (auto dest: set_takeWhileD)
  ultimately show thesis using that by (metis rev_replicate strip_zeros_def)
qed

lemma digits_value_append_zeros: "digits_value (s @ replicate z CHR ''0'') = digits_value s * 10 ^ z"
  by (induction z) (simp_all add: replicate_append_same [symmetric] flip: append_assoc)

text \<open>The digits of a positive float, and where its point stands.\<close>

lemma shortest_digits_ok:
  assumes "0 < r" "round_raw r = r" "shortest_digits r = (ds, dp)"
  shows "round_raw (of_nat (digits_value ds) * 10 powi (dp - int (length ds))) = r"
    and "ds \<noteq> []" "length ds \<le> 18" "ilog 10 r + 1 \<le> dp" "dp \<le> ilog 10 r + 2"
    and "list_all is_digit ds" "hd ds \<noteq> CHR ''0''"
proof -
  obtain d k where dk: "shortest_from r 1 17 = (d, k)" by (rule prod.exhaust)
  have "\<exists>q. 0 < q \<and> q \<le> 17 \<and> candidate_ok r q (shortest_from r 1 17)"
    using assms(1,2) by (rule shortest_from_ok) simp_all
  then obtain q where q: "0 < q" "q \<le> 17" "shortest_from r 1 17 = (d, k)" "candidate_ok r q (d, k)"
    unfolding dk by blast
  have dp: "dp = int (length (dec d)) + k" and ds: "ds = strip_zeros (dec d)"
    using assms(3) q(3) by (simp_all add: shortest_digits_def)
  have c: "k = ilog 10 r - int (q - 1)" "10 ^ (q - 1) \<le> d" "d \<le> 10 ^ q"
    "round_raw (of_nat d * 10 powi k) = r"
    using q(4) unfolding candidate_ok_def fst_conv snd_conv by blast+
  have len: "q \<le> length (dec d)" using c(2) by (rule length_dec_ge)
  have "(10 :: nat) ^ q < 10 ^ Suc q" by (rule power_strict_increasing) simp_all
  with c(3) have "d < 10 ^ Suc q" by (rule le_less_trans)
  then have len': "length (dec d) \<le> Suc q" by (rule length_dec_le) simp
  obtain z where z: "dec d = ds @ replicate z CHR ''0''"
    using strip_zeros_split [of "dec d"] unfolding ds by blast
  have "digits_value (dec d) = digits_value ds * 10 ^ z"
    unfolding z by (rule digits_value_append_zeros)
  then have d: "d = digits_value ds * 10 ^ z" by simp
  have lz: "int (length (dec d)) = int (length ds) + int z" by (subst z) simp
  have "(of_nat d :: rat) * 10 powi k = of_nat (digits_value ds) * (10 ^ z * 10 powi k)"
    by (subst d) simp
  also have "(10 :: rat) ^ z * 10 powi k = 10 powi (dp - int (length ds))"
    by (simp add: dp lz flip: power_int_of_nat power_int_add)
  finally show "round_raw (of_nat (digits_value ds) * 10 powi (dp - int (length ds))) = r"
    using c(4) by simp
  have "0 < d" using c(2) by (meson less_le_trans zero_less_numeral zero_less_power)
  then have "hd (dec d) \<noteq> CHR ''0''" by (simp add: hd_dec)
  moreover from d \<open>0 < d\<close> show "ds \<noteq> []" by (auto simp: digits_value_def)
  ultimately show "hd ds \<noteq> CHR ''0''" by (subst (asm) z) simp
  show "length ds \<le> 18" using len' q(2) lz by linarith
  show "ilog 10 r + 1 \<le> dp" "dp \<le> ilog 10 r + 2" using dp c(1) len len' q(1) by linarith+
  have "set ds \<subseteq> set (dec d)" by (subst z) simp
  then show "list_all is_digit ds" by (auto simp: list_all_iff dest: dec_digits)
qed

text \<open>Both ends of the type's range lie within 336 decimal places, which is all the length needs.\<close>

lemma two_ten: "(2 :: rat) ^ (93 * n) \<le> 10 ^ (28 * n)"
  unfolding power_mult by (rule power_mono) simp_all

lemma two_1116: "(2 :: rat) ^ 1116 \<le> 10 ^ 336"
proof -
  have "93 * 12 = (1116 :: nat)" "28 * 12 = (336 :: nat)" by simp_all
  then show ?thesis using two_ten [of 12] by (simp only:)
qed

lemma float64_scale:
  assumes "0 < r" "round_raw r = r" "r < 2 ^ 1024"
  shows "- 336 \<le> ilog 10 r" "ilog 10 r < 336"
proof -
  have "(2 :: rat) ^ 1024 \<le> 2 ^ 1116" by (rule power_increasing) simp_all
  note hi = less_le_trans [OF assms(3) order_trans [OF this two_1116]]
  have "r < of_nat 10 powi 336" using hi by (simp only: power_int_numeral of_nat_numeral)
  then show "ilog 10 r < 336" by (rule ilog_less [rotated 2]) (simp, rule assms(1))
  obtain n where n: "r = of_int n * 2 powi lsb_exp r" "0 \<le> n"
    using round_raw_grid [OF assms(1)] assms(2) by metis
  have "n \<noteq> 0" using n assms(1) by auto
  with n(2) have "1 * 2 powi lsb_exp r \<le> r"
    by (subst (2) n(1)) (intro mult_right_mono, simp_all add: Ints_nonzero_abs_ge1)
  moreover have "(2 :: rat) powi (- 1116) \<le> 2 powi lsb_exp r"
    by (intro power_int_increasing) (simp_all add: lsb_exp_def)
  moreover have "(10 :: rat) powi (- 336) \<le> 2 powi (- 1116)"
    unfolding power_int_minus power_int_numeral
    by (rule le_imp_inverse_le [OF two_1116]) (rule zero_less_power, simp)
  ultimately have "of_nat 10 powi (- 336) \<le> r" unfolding of_nat_numeral mult_1 by (meson order_trans)
  then show "- 336 \<le> ilog 10 r" by (rule ilog_ge [rotated 2]) (simp, rule assms(1))
qed

lemma length_format_fixed:
  assumes "length ds \<le> 18" "- 5 \<le> dp" "dp \<le> 22"
  shows "length (format_fixed ds dp) \<le> 25"
  using assms by (auto simp: format_fixed_def)

lemma length_format_exp:
  assumes "length ds \<le> 18" "ds \<noteq> []" "\<bar>dp - 1\<bar> < 1000"
  shows "length (format_exp ds dp) \<le> 25"
proof -
  have "nat \<bar>dp - 1\<bar> < 10 ^ 3" using assms(3) by simp
  then have "length (dec (nat \<bar>dp - 1\<bar>)) \<le> 3" by (rule length_dec_le) simp
  with assms(1,2) show ?thesis by (auto simp: format_exp_def Let_def)
qed

text \<open>The body of a nonzero float's text, without its sign.\<close>

definition float_body :: "rat \<Rightarrow> string" where
  "float_body r =
     (case shortest_digits r of (ds, dp) \<Rightarrow>
        if r < 1 / 10 ^ 6 \<or> 10 ^ 21 \<le> r then format_exp ds dp else format_fixed ds dp)"

lemma format_json_float_Fin:
  "r \<noteq> 0 \<Longrightarrow> format_json_float (Fin r) = Inr ((if r < 0 then ''-'' else []) @ float_body \<bar>r\<bar>)"
  by (simp add: format_json_float_def float_body_def split: prod.splits)

lemma length_float_body:
  assumes "0 < r" "round_raw r = r" "r < 2 ^ 1024"
  shows "length (float_body r) \<le> 25"
proof -
  obtain ds dp where ds: "shortest_digits r = (ds, dp)" by (rule prod.exhaust)
  note d = shortest_digits_ok [OF assms(1,2) ds]
  show ?thesis
  proof (cases "r < 1 / 10 ^ 6 \<or> 10 ^ 21 \<le> r")
    case True
    have "\<bar>dp - 1\<bar> < 1000" using d(4,5) float64_scale [OF assms] by linarith
    then show ?thesis using True ds length_format_exp [OF d(3,2)] by (simp add: float_body_def)
  next
    case False
    have "of_nat 10 powi (- 6) \<le> r" using False by (simp add: power_int_minus)
    then have lo: "- 6 \<le> ilog 10 r" using assms(1) by (intro ilog_ge) simp_all
    have "r < of_nat 10 powi 21" using False by simp
    then have "ilog 10 r < 21" using assms(1) by (intro ilog_less) simp_all
    with lo d(4,5) have "- 5 \<le> dp" "dp \<le> 22" by linarith+
    then show ?thesis using False ds length_format_fixed [OF d(3)] by (simp add: float_body_def)
  qed
qed

lemma length_json_float:
  assumes "is_float64 x" "format_json_float x = Inr s"
  shows "length s \<le> 26"
proof (cases x)
  case (Fin r)
  show ?thesis
  proof (cases "r = 0")
    case True
    then show ?thesis using assms(2) Fin by (auto simp: format_json_float_def)
  next
    case False
    then have "length (float_body \<bar>r\<bar>) \<le> 25"
      using assms(1) Fin by (intro length_float_body) (auto simp: is_float64_def)
    then show ?thesis using assms(2) Fin format_json_float_Fin [OF False] by auto
  qed
qed (use assms(2) in \<open>auto simp: format_json_float_def\<close>)

section \<open>The text reads back\<close>

lemma byte_digit: "is_digit c \<Longrightarrow> \<exists>d<10. c = digit_char d"
  by (rule exI [of _ "byte c - 48"]) (auto simp: is_digit_def digit_char_def)

lemma digits_value_from:
  "foldl (\<lambda>n c. 10 * n + (byte c - 48)) m s = m * 10 ^ length s + digits_value s"
proof (induction s arbitrary: m)
  case (Cons c s)
  show ?case
    using Cons [of "10 * m + (byte c - 48)"] Cons [of "byte c - 48"]
    by (simp add: digits_value_def algebra_simps)
qed (simp add: digits_value_def)

lemma digits_value_append: "digits_value (s @ t) = digits_value s * 10 ^ length t + digits_value t"
  using digits_value_from [of "digits_value s" t] by (simp add: digits_value_def)

abbreviation (input) mantissa_start :: mantissa_scan where
  "mantissa_start \<equiv>
     \<lparr>ms_mant = 0, ms_frac = 0, ms_dot = False, ms_digits = False, ms_under = False\<rparr>"

lemma scan_digits:
  "list_all is_digit ds \<Longrightarrow>
   scan_mantissa 10 (ds @ rest) m = scan_mantissa 10 rest
     (m\<lparr>ms_mant := ms_mant m * 10 ^ length ds + digits_value ds,
        ms_frac := ms_frac m + (if ms_dot m then length ds else 0),
        ms_digits := ms_digits m \<or> ds \<noteq> []\<rparr>)"
proof (induction ds arbitrary: m)
  case Nil
  then show ?case by (simp add: digits_value_def)
next
  case (Cons c ds)
  then have c: "is_digit c" "c \<noteq> CHR ''_''" "c \<noteq> CHR ''.''" "byte c - 48 < 10"
    by (auto simp: is_digit_def)
  have dv: "digits_value (c # ds) = (byte c - 48) * 10 ^ length ds + digits_value ds"
    using digits_value_append [of "[c]" ds] by (simp add: digits_value_def)
  show ?case using Cons c by (simp add: dv algebra_simps)
qed

definition point_text :: "string \<Rightarrow> string" where
  "point_text f = (if f = [] then [] else CHR ''.'' # f)"

text \<open>A rest that ends a decimal mantissa: nothing, or an exponent.\<close>

definition mantissa_end :: "string \<Rightarrow> bool" where
  "mantissa_end rest \<longleftrightarrow> rest = [] \<or> (\<exists>cs. rest = CHR ''e'' # cs)"

lemma scan_mantissa_end:
  "mantissa_end rest \<Longrightarrow> scan_mantissa 10 rest m = (m, rest)"
  by (auto simp: mantissa_end_def digit_of_def)

lemma scan_decimal:
  assumes "list_all is_digit i" "i \<noteq> []" "list_all is_digit f" "mantissa_end rest"
  shows "scan_mantissa 10 (i @ point_text f @ rest) mantissa_start =
    (\<lparr>ms_mant = digits_value (i @ f), ms_frac = length f, ms_dot = f \<noteq> [], ms_digits = True,
      ms_under = False\<rparr>, rest)"
proof (cases "f = []")
  case True
  then show ?thesis using assms by (simp add: point_text_def scan_digits scan_mantissa_end)
next
  case False
  then show ?thesis
    using assms by (simp add: point_text_def scan_digits scan_mantissa_end digits_value_append)
qed

lemma scan_exponent_digits:
  "list_all is_digit ds \<Longrightarrow> e * 10 ^ length ds + digits_value ds < 10000 \<Longrightarrow>
   scan_exponent ds e u = (e * 10 ^ length ds + digits_value ds, u, [])"
proof (induction ds arbitrary: e)
  case Nil
  then show ?case by (simp add: digits_value_def)
next
  case (Cons c ds)
  have dv: "digits_value (c # ds) = (byte c - 48) * 10 ^ length ds + digits_value ds"
    using digits_value_append [of "[c]" ds] by (simp add: digits_value_def)
  have le: "(e * 10 + (byte c - 48)) * 10 ^ length ds + digits_value ds < 10000"
    using Cons.prems(2) by (simp add: dv algebra_simps)
  have "e * 1 \<le> e * 10 ^ length (c # ds)" by (intro mult_le_mono2) simp
  then have "e < 10000" using Cons.prems(2) by linarith
  with Cons le show ?case by (simp add: dv algebra_simps)
qed

text \<open>The exponent part of a printed float: nothing, or a sign and digits.\<close>

definition exponent_text :: "int \<Rightarrow> string" where
  "exponent_text e = (if e < 0 then ''e-'' else ''e+'') @ dec (nat \<bar>e\<bar>)"

lemma strip_sign_digit: "is_digit c \<Longrightarrow> strip_sign (c # cs) = (False, c # cs)"
  by (auto simp: strip_sign_def is_digit_def)

lemma dec_Cons: obtains c cs where "dec n = c # cs" "is_digit c"
  using dec_not_Nil [of n] dec_digits [of _ n] by (cases "dec n") auto

lemma read_exponent_text:
  assumes "\<bar>e\<bar> < 10000"
  shows "read_exponent CHR ''e'' (exponent_text e) = Some (e, False, [])"
proof -
  obtain c cs where c: "dec (nat \<bar>e\<bar>) = c # cs" "is_digit c" by (rule dec_Cons)
  have "scan_exponent (dec (nat \<bar>e\<bar>)) 0 False = (nat \<bar>e\<bar>, False, [])"
    using assms by (subst scan_exponent_digits) (auto simp: list_all_iff dest: dec_digits)
  then show ?thesis
    using c by (auto simp: read_exponent_def exponent_text_def lower_def strip_sign_def)
qed

lemma lower_digit: "is_digit c \<Longrightarrow> lower c = c"
  by (auto simp: lower_def is_digit_def)

lemma base_prefix_decimal:
  assumes "list_all is_digit i" "i \<noteq> []" "mantissa_end rest"
  shows "base_prefix (i @ point_text f @ rest) = None"
proof -
  obtain c i' where i: "i = c # i'" using assms(2) by (cases i) auto
  show ?thesis
  proof (cases "i' @ point_text f @ rest")
    case (Cons d ds)
    then have "is_digit d \<or> d = CHR ''.'' \<or> d = CHR ''e''"
      using assms i by (cases i'; auto simp: point_text_def mantissa_end_def split: if_splits)
    then have "lower d \<noteq> CHR ''b''" "lower d \<noteq> CHR ''o''" "lower d \<noteq> CHR ''x''"
      by (auto simp: lower_def is_digit_def)
    then show ?thesis using i Cons by (simp add: base_prefix_def)
  qed (simp add: i base_prefix_def)
qed

text \<open>What \<open>readFloat\<close> makes of a sign, decimal digits, a fraction and an exponent.\<close>

lemma read_decimal:
  assumes "list_all is_digit i" "i \<noteq> []" "list_all is_digit f" "mantissa_end ex"
    and "read_exponent CHR ''e'' ex = Some (e, False, [])"
  shows "read_float ((if neg then ''-'' else []) @ i @ point_text f @ ex) =
    Some (neg, of_nat (digits_value (i @ f)) * 10 powi (e - int (length f)), [])"
proof -
  have v: "of_nat (digits_value (i @ f)) / 10 ^ length f * 10 powi e
      = (of_nat (digits_value (i @ f)) * 10 powi (e - int (length f)) :: rat)"
    by (simp add: power_int_diff)
  let ?b = "i @ point_text f @ ex"
  have s: "strip_sign ((if neg then ''-'' else []) @ ?b) = (neg, ?b)"
    using assms(1,2) by (cases i; cases neg) (simp_all add: strip_sign_digit, simp add: strip_sign_def)
  show ?thesis
    using base_prefix_decimal [OF assms(1,2,4), of f] scan_decimal [OF assms(1-4)] assms(5)
    by (simp add: read_float_def s v [symmetric])
qed

lemma round64_float:
  "round_raw v = r \<Longrightarrow> 0 < r \<Longrightarrow> r < 2 ^ 1024 \<Longrightarrow> round64 neg v = Fin (if neg then - r else r)"
  by (simp only: round64_def Let_def not_le [symmetric]) simp

lemma special_float_decimal:
  assumes "is_digit c"
  shows "special_float ((if neg then ''-'' else []) @ c # cs) = None"
proof -
  have c: "c \<noteq> CHR ''-''" "c \<noteq> CHR ''+''" "c \<noteq> CHR ''n''" "c \<noteq> CHR ''i''"
    using assms by (auto simp: is_digit_def)
  have m: "lower CHR ''-'' = CHR ''-''" by (simp add: lower_def)
  have "map lower ((if neg then ''-'' else []) @ c # cs) =
      (if neg then ''-'' else []) @ c # map lower cs"
    using m lower_digit [OF assms] by simp
  then show ?thesis
    using c by (cases neg) (simp_all add: special_float_def strip_sign_def)
qed

text \<open>A decimal text within reach of a float parses to it.\<close>

lemma parse_decimal:
  assumes "list_all is_digit i" "i \<noteq> []" "list_all is_digit f" "mantissa_end ex"
    and "read_exponent CHR ''e'' ex = Some (e, False, [])"
    and "round_raw (of_nat (digits_value (i @ f)) * 10 powi (e - int (length f))) = r"
    and "0 < r" "r < 2 ^ 1024"
  shows "parse_float ((if neg then ''-'' else []) @ i @ point_text f @ ex) =
    Inr (Fin (if neg then - r else r))"
proof -
  obtain c cs where i: "i = c # cs" "is_digit c" using assms(1,2) by (cases i) auto
  have "special_float ((if neg then ''-'' else []) @ i @ point_text f @ ex) = None"
    using special_float_decimal [OF i(2), of neg "cs @ point_text f @ ex"] by (simp add: i(1))
  then show ?thesis
    using read_decimal [OF assms(1-5), of neg]
    by (simp only: parse_float_def option.case prod.case list.case round64_float [OF assms(6-8)]
        Let_def is_NaN_simps if_False)
qed

text \<open>The two forms of the text, as integer digits, fraction digits and exponent.\<close>

lemma format_exp_text:
  assumes "ds \<noteq> []"
  shows "format_exp ds dp = take 1 ds @ point_text (drop 1 ds) @ exponent_text (dp - 1)"
  using assms by (cases ds) (auto simp: format_exp_def point_text_def exponent_text_def Let_def)

lemma format_fixed_text:
  assumes "ds \<noteq> []" "list_all is_digit ds" "hd ds \<noteq> CHR ''0''"
  obtains i f where "format_fixed ds dp = i @ point_text f" "i \<noteq> []" "list_all is_digit i"
    "list_all is_digit f" "hd i = CHR ''0'' \<longrightarrow> i = ''0''"
    "(of_nat (digits_value (i @ f)) * 10 powi (0 - int (length f)) :: rat)
       = of_nat (digits_value ds) * 10 powi (dp - int (length ds))"
proof -
  consider "dp \<le> 0" | "0 < dp" "length ds \<le> nat dp" | "0 < dp" "nat dp < length ds" by linarith
  then show thesis
  proof cases
    case 1
    let ?f = "replicate (nat (- dp)) CHR ''0'' @ ds"
    have "digits_value (''0'' @ ?f) = digits_value ds"
      using digits_value_zeros [of "Suc (nat (- dp))" ds] by simp
    then show thesis
      using 1 assms by (intro that [of "''0''" ?f])
        (auto simp: format_fixed_def point_text_def list_all_iff)
  next
    case 2
    let ?i = "ds @ replicate (nat dp - length ds) CHR ''0''"
    have "(10 :: rat) ^ (nat dp - length ds) = 10 powi (dp - int (length ds))"
      using 2 by (simp add: of_nat_diff flip: power_int_of_nat)
    then show thesis
      using 2 assms by (intro that [of ?i "[]"])
        (auto simp: format_fixed_def point_text_def list_all_iff digits_value_append_zeros)
  next
    case 3
    have "dp - int (length ds) = 0 - int (length (drop (nat dp) ds))" using 3 by simp
    then show thesis
      using 3 assms by (intro that [of "take (nat dp) ds" "drop (nat dp) ds"])
        (auto simp: format_fixed_def point_text_def list_all_iff hd_take dest: in_set_takeD in_set_dropD)
  qed
qed

text \<open>
  The number text of a float reads back as that float, so the JSON document loses no bit of a
  measured value.
\<close>

lemma parse_float_body:
  assumes "0 < r" "round_raw r = r" "r < 2 ^ 1024"
  shows "parse_float ((if neg then ''-'' else []) @ float_body r) = Inr (Fin (if neg then - r else r))"
proof -
  obtain ds dp where ds: "shortest_digits r = (ds, dp)" by (rule prod.exhaust)
  note d = shortest_digits_ok [OF assms(1,2) ds]
  show ?thesis
  proof (cases "r < 1 / 10 ^ 6 \<or> 10 ^ 21 \<le> r")
    case True
    have e: "\<bar>dp - 1\<bar> < 10000" using d(4,5) float64_scale [OF assms] by linarith
    have me: "mantissa_end (exponent_text (dp - 1))" by (simp add: mantissa_end_def exponent_text_def)
    have dl: "list_all is_digit (take 1 ds)" "list_all is_digit (drop 1 ds)" "take 1 ds \<noteq> []"
      using d(2,6) by (auto simp: list_all_iff dest: in_set_takeD in_set_dropD)
    have l: "dp - 1 - int (length (drop 1 ds)) = dp - int (length ds)"
      using d(2) by (cases ds) simp_all
    have "parse_float ((if neg then ''-'' else []) @ take 1 ds @ point_text (drop 1 ds)
        @ exponent_text (dp - 1)) = Inr (Fin (if neg then - r else r))"
      by (rule parse_decimal [OF dl(1,3,2) me read_exponent_text [OF e] _ assms(1,3)])
        (unfold l append_take_drop_id, rule d(1))
    then show ?thesis using True ds format_exp_text [OF d(2)] by (simp add: float_body_def)
  next
    case False
    obtain i f where f: "format_fixed ds dp = i @ point_text f" "i \<noteq> []" "list_all is_digit i"
      "list_all is_digit f" "hd i = CHR ''0'' \<longrightarrow> i = ''0''"
      "(of_nat (digits_value (i @ f)) * 10 powi (0 - int (length f)) :: rat)
         = of_nat (digits_value ds) * 10 powi (dp - int (length ds))"
      using format_fixed_text [OF d(2,6,7)] .
    have "parse_float ((if neg then ''-'' else []) @ i @ point_text f @ [])
        = Inr (Fin (if neg then - r else r))"
      by (rule parse_decimal [where e = 0, OF f(3,2,4) _ _ _ assms(1,3)])
        (simp_all only: f(6) d(1), simp_all add: mantissa_end_def read_exponent_def)
    then show ?thesis using False ds f(1) by (simp add: float_body_def)
  qed
qed

lemma parse_format_json_float:
  assumes "is_float64 x" "format_json_float x = Inr s"
  shows "parse_float s = Inr x"
proof (cases x)
  case (Fin r)
  show ?thesis
  proof (cases "r = 0")
    case True
    then have "s = ''0''" using assms(2) Fin by (simp add: format_json_float_def)
    then show ?thesis
      using Fin True by (simp add: parse_float_def special_float_def read_float_def strip_sign_def
          base_prefix_def digit_of_def read_exponent_def round64_def round_raw_def lower_def is_Inf_def)
  next
    case False
    then have "parse_float s = Inr (Fin (if r < 0 then - \<bar>r\<bar> else \<bar>r\<bar>))"
      using assms Fin format_json_float_Fin [OF False] parse_float_body [of "\<bar>r\<bar>" "r < 0"]
      by (auto simp: is_float64_def)
    then show ?thesis using Fin by (auto split: if_splits)
  qed
next
  case NegZero
  then have "s = ''-0''" using assms(2) by (simp add: format_json_float_def)
  then show ?thesis
    using NegZero by (simp add: parse_float_def special_float_def read_float_def strip_sign_def
        base_prefix_def digit_of_def read_exponent_def round64_def round_raw_def lower_def is_Inf_def)
qed (use assms(2) in \<open>auto simp: format_json_float_def\<close>)

end
