(* ===== verification/Cpu.thy ===== *)
theory Cpu
  imports Generic GoBytes FloatShortest
begin

text \<open>
  \<open>internal/observe/cpu.go\<close>: the sample parsers, the utilization of two samples and the
  observer. The observer's mutex makes each of its operations atomic, so its concurrent life is
  a sequence of starts, scheduled rounds and closes on one state record; the source, the clock
  and the scheduler's answers are arguments of each operation. A duration is an \<open>int\<close> number
  of nanoseconds since the observer's origin.
\<close>

section \<open>Constants and samples\<close>

definition cpuSamplePeriod :: int where "cpuSamplePeriod = 1000000000"
definition minimumSampleInterval :: int where "minimumSampleInterval = 900 * 1000000"
definition maximumSampleInterval :: int where "maximumSampleInterval = 1100 * 1000000"
definition maximumPublicationAge :: int where "maximumPublicationAge = 1250 * 1000000"
definition maximumCPUStatInput :: nat where "maximumCPUStatInput = 512"
definition maximumBootIDInput :: nat where "maximumBootIDInput = 128"

type_synonym cpuCounters = "u64 list"

record cpuSample =
  sample_counters :: cpuCounters
  sample_topology :: cpuTopology
  sample_bootID :: string
  sample_uptime :: u64

record timedCPUSample =
  timed_value :: cpuSample
  timed_at :: int

record cpuPublication =
  pub_utilizationPercent :: float64
  pub_sampledAt :: int
  pub_topology :: cpuTopology

record cpuSource =
  cpu_stat :: "string go"
  cpu_online :: "string go"
  cpu_bootID :: "string go"
  cpu_uptime :: "string go"

instantiation cpuSample_ext :: (zero) zero
begin
definition zero_cpuSample_ext :: "'a cpuSample_ext" where
  "zero_cpuSample_ext = cpuSample_ext (replicate 8 0) 0 0 0 0"
instance by standard
end

instantiation cpuPublication_ext :: (zero) zero
begin
definition zero_cpuPublication_ext :: "'a cpuPublication_ext" where
  "zero_cpuPublication_ext = cpuPublication_ext 0 0 0 0"
instance by standard
end

section \<open>Parsing a sample\<close>

fun parseCounters :: "string list \<Rightarrow> cpuCounters go" where
  "parseCounters [] = Inr []"
| "parseCounters (f # fs) =
     (case parse_uint 10 64 f of
        Inl e \<Rightarrow> Inl (New ''aggregate CPU counters contain an invalid value'')
      | Inr v \<Rightarrow> go_bind (parseCounters fs) (\<lambda>vs. Inr (of_nat v # vs)))"

definition parseCPUCounters :: "string \<Rightarrow> cpuCounters go" where
  "parseCPUCounters data =
     (if length data = 0 \<or> length data > maximumCPUStatInput
      then Inl (New ''CPU counter input is empty or oversized'')
      else let line = fst (cut (CHR 0x0A) data);
               fs = split_fields line
           in if length fs < 9 \<or> fs ! 0 \<noteq> ''cpu''
              then Inl (New ''aggregate CPU counters are missing'')
              else parseCounters (take 8 (drop 1 fs)))"

definition uuid_dash :: "nat \<Rightarrow> bool" where
  "uuid_dash index \<longleftrightarrow> index = 8 \<or> index = 13 \<or> index = 18 \<or> index = 23"

definition hex_rune :: "nat \<Rightarrow> bool" where
  "hex_rune r \<longleftrightarrow> (48 \<le> r \<and> r \<le> 57) \<or> (97 \<le> r \<and> r \<le> 102) \<or> (65 \<le> r \<and> r \<le> 70)"

text \<open>The loop over the runes of the text, with the byte index of each.\<close>

fun uuid_runes :: "nat \<Rightarrow> (nat \<times> string) list \<Rightarrow> bool" where
  "uuid_runes index [] = True"
| "uuid_runes index ((r, w) # rs) =
     ((if uuid_dash index then r = 45 else hex_rune r) \<and> uuid_runes (index + length w) rs)"

definition parseBootID :: "string \<Rightarrow> string go" where
  "parseBootID data =
     (if length data = 0 \<or> length data > maximumBootIDInput
      then Inl (New ''boot ID is empty or oversized'')
      else let v = trim_space data
           in if length v \<noteq> 36 \<or> \<not> uuid_runes 0 (runes v)
              then Inl (New ''boot ID is not a UUID'')
              else Inr (map lower v))"

definition collectCPUSample :: "cpuSource \<Rightarrow> cpuSample outcome" where
  "collectCPUSample source =
     (case cpu_stat source of
        Inl e \<Rightarrow> acquisitionFailure (Some e) reasonUnsupported
      | Inr statData \<Rightarrow>
     (case parseCPUCounters statData of
        Inl e \<Rightarrow> unavailable reasonTemporarilyUnavailable (Some e)
      | Inr counters \<Rightarrow>
     (case cpu_online source of
        Inl e \<Rightarrow> acquisitionFailure (Some e) reasonUnsupported
      | Inr topologyData \<Rightarrow>
     (case parseCPUTopology topologyData of
        Inl e \<Rightarrow> unavailable reasonTemporarilyUnavailable (Some e)
      | Inr topology \<Rightarrow>
     (case cpu_bootID source of
        Inl e \<Rightarrow> acquisitionFailure (Some e) reasonUnsupported
      | Inr bootData \<Rightarrow>
     (case parseBootID bootData of
        Inl e \<Rightarrow> unavailable reasonTemporarilyUnavailable (Some e)
      | Inr bootID \<Rightarrow>
     (case cpu_uptime source of
        Inl e \<Rightarrow> acquisitionFailure (Some e) reasonUnsupported
      | Inr uptimeData \<Rightarrow>
     (case parseUptime uptimeData of
        Inl e \<Rightarrow> unavailable reasonTemporarilyUnavailable (Some e)
      | Inr uptime \<Rightarrow>
          present \<lparr>sample_counters = counters, sample_topology = topology,
                   sample_bootID = bootID, sample_uptime = uptime\<rparr>))))))))"

section \<open>Utilization\<close>

fun sumUint64From :: "u64 \<Rightarrow> u64 list \<Rightarrow> u64 go" where
  "sumUint64From tot [] = Inr tot"
| "sumUint64From tot (v # vs) =
     (if tot > MaxUint64 - v then Inl (New ''CPU counter delta overflows'')
      else sumUint64From (tot + v) vs)"

definition sumUint64 :: "u64 list \<Rightarrow> u64 go" where
  "sumUint64 vs = sumUint64From 0 vs"

fun counterDeltas :: "cpuCounters \<Rightarrow> cpuCounters \<Rightarrow> cpuCounters go" where
  "counterDeltas (p # ps) (c # cs) =
     (if c < p then Inl (New ''CPU counter decreased'')
      else go_bind (counterDeltas ps cs) (\<lambda>ds. Inr ((c - p) # ds)))"
| "counterDeltas _ _ = Inr []"

definition utilizationOf :: "u64 \<Rightarrow> u64 \<Rightarrow> float64" where
  "utilizationOf busy tot = f_div (f_mul (Fin 100) (float_of_nat (unat busy))) (float_of_nat (unat tot))"

definition deltaUtilization :: "cpuCounters \<Rightarrow> float64 go" where
  "deltaUtilization d =
     go_bind (sumUint64 [d ! 0, d ! 1, d ! 2, d ! 5, d ! 6]) (\<lambda>busy.
       case sumUint64 [busy, d ! 3, d ! 4, d ! 7] of
         Inl e \<Rightarrow> Inl (New ''CPU counter delta is inconsistent'')
       | Inr tot \<Rightarrow>
           if tot = 0 \<or> busy > tot then Inl (New ''CPU counter delta is inconsistent'')
           else let utilization = utilizationOf busy tot
                in if is_NaN utilization \<or> is_Inf utilization \<or> f_less utilization (Fin 0)
                      \<or> f_less (Fin 100) utilization
                   then Inl (New ''CPU utilization is invalid'')
                   else Inr utilization)"

definition calculateCPUUtilization :: "timedCPUSample \<Rightarrow> timedCPUSample \<Rightarrow> float64 go" where
  "calculateCPUUtilization previous current =
     (let interval = timed_at current - timed_at previous;
          p = timed_value previous; c = timed_value current
      in if interval < minimumSampleInterval \<or> interval > maximumSampleInterval
         then Inl (New ''CPU sample interval is outside the valid range'')
         else if sample_bootID p \<noteq> sample_bootID c \<or> sample_uptime c < sample_uptime p
         then Inl (New ''CPU counter epoch changed'')
         else if sample_topology p \<noteq> sample_topology c
         then Inl (New ''CPU topology changed'')
         else go_bind (counterDeltas (sample_counters p) (sample_counters c)) deltaUtilization)"

section \<open>The observer\<close>

record CPUObserver =
  obs_publication :: "cpuPublication outcome option"
  obs_baseline :: "timedCPUSample option"
  obs_started :: bool
  obs_stopped :: bool
  obs_cancelled :: bool
  obs_done :: bool
  obs_fatal :: "goerror list"

definition storePublication :: "cpuPublication outcome \<Rightarrow> CPUObserver \<Rightarrow> CPUObserver" where
  "storePublication v obs = obs\<lparr>obs_publication := Some v\<rparr>"

definition newCPUObserver :: CPUObserver where
  "newCPUObserver =
     storePublication
       (unavailable reasonTemporarilyUnavailable
          (Some (New ''CPU observer has not established a baseline'')))
       \<lparr>obs_publication = None, obs_baseline = None, obs_started = False, obs_stopped = False,
        obs_cancelled = False, obs_done = False, obs_fatal = []\<rparr>"

definition publishDefect :: "goerror \<Rightarrow> CPUObserver \<Rightarrow> CPUObserver" where
  "publishDefect err obs =
     (if obs_stopped obs \<or> obs_cancelled obs then obs
      else storePublication (defect (Some err)) obs)"

text \<open>The part of \<open>observe\<close> after the collection: a panic on an invalid sample, then the
  critical section.\<close>

definition publishSample :: "cpuSample outcome \<Rightarrow> int \<Rightarrow> CPUObserver \<Rightarrow> CPUObserver call" where
  "publishSample sample atTime obs =
     (case validateOutcome sample of
        Some e \<Rightarrow> Panic e
      | None \<Rightarrow>
          if obs_stopped obs \<or> obs_cancelled obs then Return obs
          else if o_state sample \<noteq> statePresent
          then Return (storePublication (unavailable (o_reason sample) (o_cause sample))
                         (obs\<lparr>obs_baseline := None\<rparr>))
          else let current = \<lparr>timed_value = o_value sample, timed_at = atTime\<rparr>;
                   obs' = obs\<lparr>obs_baseline := Some current\<rparr>
               in case obs_baseline obs of
                    None \<Rightarrow>
                      Return (storePublication
                        (unavailable reasonTemporarilyUnavailable
                          (Some (New ''CPU observer requires a second valid sample''))) obs')
                  | Some previous \<Rightarrow>
                      (case calculateCPUUtilization previous current of
                         Inl e \<Rightarrow>
                           Return (storePublication
                             (unavailable reasonTemporarilyUnavailable (Some e)) obs')
                       | Inr utilization \<Rightarrow>
                           Return (storePublication
                             (present \<lparr>pub_utilizationPercent = utilization, pub_sampledAt = atTime,
                                       pub_topology = sample_topology (timed_value current)\<rparr>)
                             obs')))"

definition observeCPU :: "cpuSource \<Rightarrow> int \<Rightarrow> CPUObserver \<Rightarrow> CPUObserver call" where
  "observeCPU source atTime obs = publishSample (collectCPUSample source) atTime obs"

definition notifyFatal :: "goerror \<Rightarrow> CPUObserver \<Rightarrow> CPUObserver" where
  "notifyFatal err obs = obs\<lparr>obs_fatal := obs_fatal obs @ [err]\<rparr>"

text \<open>
  \<open>Start\<close> in two parts, because \<open>Close\<close> may run between them: the guarded entry, and the
  baseline attempt with its recovery, whose last result is the first deadline of the scheduled
  goroutine when one was started.
\<close>

definition beginStart :: "CPUObserver \<Rightarrow> CPUObserver go" where
  "beginStart obs =
     (if obs_started obs \<or> obs_stopped obs
      then Inl (New ''CPU observer cannot be started in its current state'')
      else Inr (obs\<lparr>obs_started := True\<rparr>))"

definition startBaseline ::
    "cpuSource \<Rightarrow> int \<Rightarrow> CPUObserver \<Rightarrow> CPUObserver \<times> goerror option \<times> int option" where
  "startBaseline source initialAt obs =
     (case observeCPU source initialAt obs of
        Return obs' \<Rightarrow> (obs', None, Some (initialAt + cpuSamplePeriod))
      | Panic e \<Rightarrow>
          (let err = internalDefect (Some (Formatv ''CPU observer startup panic: %v'' e));
               obs1 = notifyFatal err (publishDefect err obs)
           in (obs1\<lparr>obs_cancelled := True, obs_done := True\<rparr>, Some err, None)))"

definition StartCPU ::
    "cpuSource \<Rightarrow> int \<Rightarrow> CPUObserver \<Rightarrow> CPUObserver \<times> goerror option \<times> int option" where
  "StartCPU source initialAt obs =
     (case beginStart obs of
        Inl e \<Rightarrow> (obs, Some e, None)
      | Inr obs' \<Rightarrow> startBaseline source initialAt obs')"

text \<open>The inner loop that skips missed deadlines.\<close>

function advance :: "int \<Rightarrow> int \<Rightarrow> int" where
  "advance deadline now = (if deadline \<le> now then advance (deadline + cpuSamplePeriod) now else deadline)"
  by pat_completeness auto
termination
  by (relation "measure (\<lambda>(deadline, now). nat (now + 1 - deadline))") (auto simp: cpuSamplePeriod_def)

declare advance.simps [simp del]

text \<open>The deferred exit of \<open>run\<close>.\<close>

definition exitRun :: "goerror option \<Rightarrow> CPUObserver \<Rightarrow> CPUObserver" where
  "exitRun fatalErr obs =
     (let err = (if fatalErr = None \<and> \<not> obs_cancelled obs
                 then Some (internalDefect (Some (New ''CPU observer stopped unexpectedly'')))
                 else fatalErr)
      in (case err of None \<Rightarrow> obs | Some e \<Rightarrow> notifyFatal e (publishDefect e obs))
           \<lparr>obs_done := True\<rparr>)"

text \<open>
  A round of the loop of \<open>run\<close> is a wait and an observation, and \<open>Close\<close> may run between
  the two. The second result is whether the loop goes on, with its next deadline.
\<close>

definition wakeRound :: "goerror option \<Rightarrow> CPUObserver \<Rightarrow> CPUObserver \<times> bool" where
  "wakeRound answer obs =
     (case answer of
        Some e \<Rightarrow>
          if obs_cancelled obs then (exitRun None obs, False)
          else (exitRun (Some (internalDefect (Some (Wrapf ''CPU observer scheduler: %w'' [] e)))) obs,
                False)
      | None \<Rightarrow> if obs_cancelled obs then (exitRun None obs, False) else (obs, True))"

definition publishRound ::
    "cpuSource \<Rightarrow> int \<Rightarrow> int \<Rightarrow> int \<Rightarrow> CPUObserver \<Rightarrow> CPUObserver \<times> int option" where
  "publishRound source atTime now deadline obs =
     (case observeCPU source atTime obs of
        Panic e \<Rightarrow>
          (exitRun (Some (internalDefect (Some (Formatv ''CPU observer panic: %v'' e)))) obs, None)
      | Return obs' \<Rightarrow> (obs', Some (advance deadline now)))"

text \<open>The production wait: whether the cancellation or the timer comes first is the argument.\<close>

definition productionWait :: "int \<Rightarrow> int \<Rightarrow> bool \<Rightarrow> goerror option" where
  "productionWait target now doneFirst =
     (let delay = target - now
      in if delay \<le> 0 then None else if doneFirst then Some ContextCanceled else None)"

text \<open>
  \<open>Close\<close>: the state it leaves at once, and whether it has to wait for the goroutine or its
  own context.
\<close>

definition CloseCPU :: "CPUObserver \<Rightarrow> CPUObserver \<times> bool" where
  "CloseCPU obs = (obs\<lparr>obs_stopped := True, obs_cancelled := True\<rparr>, obs_started obs)"

definition latestCPU :: "int \<Rightarrow> CPUObserver \<Rightarrow> cpuPublication outcome \<times> int" where
  "latestCPU now obs =
     (case obs_publication obs of
        None \<Rightarrow> (defect (Some (New ''CPU publication is absent'')), now)
      | Some v \<Rightarrow> (v, now))"

section \<open>The life of an observer\<close>

text \<open>Where the observer's one goroutine (or the call of \<open>Start\<close> before it) stands.\<close>

datatype cpuThread = Idle | Baselining | Waiting int | Observing int | Exited

record cpuSystem =
  sys_observer :: CPUObserver
  sys_thread :: cpuThread
  sys_clock :: int

definition newCPUSystem :: cpuSystem where
  "newCPUSystem = \<lparr>sys_observer = newCPUObserver, sys_thread = Idle, sys_clock = 0\<rparr>"

text \<open>
  The steps of the goroutine, with whatever the source, the monotonic clock and the timer answer;
  \<open>sys_clock\<close> is the latest reading of the clock, and a cancellation can only come first once
  the observer is cancelled.
\<close>

inductive cpu_work :: "cpuSystem \<Rightarrow> cpuSystem \<Rightarrow> bool" where
  baseline:
    "sys_thread s = Baselining \<Longrightarrow> sys_clock s \<le> initialAt \<Longrightarrow>
     startBaseline source initialAt (sys_observer s) = (obs, err, deadline) \<Longrightarrow>
     cpu_work s \<lparr>sys_observer = obs,
                 sys_thread = (case deadline of None \<Rightarrow> Exited | Some d \<Rightarrow> Waiting d),
                 sys_clock = initialAt\<rparr>"
| wake:
    "sys_thread s = Waiting d \<Longrightarrow> sys_clock s \<le> now \<Longrightarrow>
     (doneFirst \<Longrightarrow> obs_cancelled (sys_observer s)) \<Longrightarrow>
     wakeRound (productionWait d now doneFirst) (sys_observer s) = (obs, goes_on) \<Longrightarrow>
     cpu_work s \<lparr>sys_observer = obs, sys_thread = (if goes_on then Observing d else Exited),
                 sys_clock = now\<rparr>"
| publish:
    "sys_thread s = Observing d \<Longrightarrow> sys_clock s \<le> atTime \<Longrightarrow> atTime \<le> now \<Longrightarrow>
     publishRound source atTime now d (sys_observer s) = (obs, deadline) \<Longrightarrow>
     cpu_work s \<lparr>sys_observer = obs,
                 sys_thread = (case deadline of None \<Rightarrow> Exited | Some d' \<Rightarrow> Waiting d'),
                 sys_clock = now\<rparr>"

inductive cpu_step :: "cpuSystem \<Rightarrow> cpuSystem \<Rightarrow> bool" where
  start:
    "sys_thread s = Idle \<Longrightarrow> beginStart (sys_observer s) = Inr obs \<Longrightarrow>
     cpu_step s (s\<lparr>sys_observer := obs, sys_thread := Baselining\<rparr>)"
| work: "cpu_work s t \<Longrightarrow> cpu_step s t"
| close: "cpu_step s (s\<lparr>sys_observer := fst (CloseCPU (sys_observer s))\<rparr>)"

inductive cpu_reachable :: "cpuSystem \<Rightarrow> bool" where
  initial: "cpu_reachable newCPUSystem"
| step: "cpu_reachable s \<Longrightarrow> cpu_step s t \<Longrightarrow> cpu_reachable t"


section \<open>Facts about samples\<close>

lemma parseCounters_length: "parseCounters fs = Inr vs \<Longrightarrow> length vs = length fs"
  by (induction fs arbitrary: vs) (auto simp: go_bind_Inr_iff split: sum.splits)

lemma parseCPUCounters_length: "parseCPUCounters data = Inr vs \<Longrightarrow> length vs = 8"
  by (auto simp: parseCPUCounters_def Let_def split: if_splits dest: parseCounters_length)

definition sample_ok :: "cpuSample \<Rightarrow> bool" where
  "sample_ok s \<longleftrightarrow>
     length (sample_counters s) = 8 \<and> topology_count (sample_topology s) \<noteq> 0
     \<and> topology_signature (sample_topology s) \<noteq> ''''"

lemma collectCPUSample_ok:
  "valid_outcome (collectCPUSample source)
   \<and> (o_state (collectCPUSample source) = statePresent
       \<longrightarrow> sample_ok (o_value (collectCPUSample source)))"
proof (cases "cpu_stat source")
  case (Inr st) note stat = this
  show ?thesis
  proof (cases "parseCPUCounters st")
    case (Inr cs) note counters = this
    show ?thesis
    proof (cases "cpu_online source")
      case (Inr td) note online = this
      show ?thesis
      proof (cases "parseCPUTopology td")
        case (Inr t)
        then show ?thesis
          using stat counters online parseCPUCounters_length [OF counters]
            parseCPUTopology_nonzero [OF Inr]
          by (simp add: collectCPUSample_def sample_ok_def split: sum.split)
      qed (use stat counters online in \<open>simp add: collectCPUSample_def\<close>)
    qed (use stat counters in \<open>simp add: collectCPUSample_def\<close>)
  qed (use stat in \<open>simp add: collectCPUSample_def\<close>)
qed (simp add: collectCPUSample_def)

section \<open>Facts about the utilization\<close>

lemma sum_step:
  fixes t v :: u64
  shows "MaxUint64 - v < t \<longleftrightarrow> 2 ^ 64 \<le> unat t + unat v"
    and "unat t + unat v < 2 ^ 64 \<Longrightarrow> unat (t + v) = unat t + unat v"
proof -
  show "MaxUint64 - v < t \<longleftrightarrow> 2 ^ 64 \<le> unat t + unat v"
    using count_fits [of v t] by (metis linorder_not_less)
  show "unat t + unat v < 2 ^ 64 \<Longrightarrow> unat (t + v) = unat t + unat v"
    by (simp add: unat_word_ariths)
qed

lemma sumUint64From_iff:
  "sumUint64From t vs = Inr r \<longleftrightarrow>
     unat t + sum_list (map unat vs) < 2 ^ 64 \<and> r = of_nat (unat t + sum_list (map unat vs))"
proof (induction vs arbitrary: t)
  case Nil
  then show ?case using unsigned_less [of t, where ?'a = nat] by auto
next
  case (Cons v vs)
  show ?case
  proof (cases "unat t + unat v < 2 ^ 64")
    case True
    then have "\<not> MaxUint64 - v < t" using sum_step(1) [of v t] by simp
    then have "sumUint64From t (v # vs) = sumUint64From (t + v) vs"
      by (simp only: sumUint64From.simps if_False)
    then show ?thesis using Cons [of "t + v"] sum_step(2) [OF True] by (simp add: add.assoc)
  next
    case False
    then have "MaxUint64 - v < t" using sum_step(1) [of v t] by simp
    then show ?thesis using False by simp
  qed
qed

lemma sumUint64_iff:
  "sumUint64 vs = Inr r \<longleftrightarrow>
     sum_list (map unat vs) < 2 ^ 64 \<and> r = of_nat (sum_list (map unat vs))"
  using sumUint64From_iff [of 0 vs r] by (simp add: sumUint64_def)

text \<open>The non-idle ticks of a delta, and all of them (guest time is not counted twice).\<close>

definition busyTicks :: "cpuCounters \<Rightarrow> nat" where
  "busyTicks d = unat (d ! 0) + unat (d ! 1) + unat (d ! 2) + unat (d ! 5) + unat (d ! 6)"

definition allTicks :: "cpuCounters \<Rightarrow> nat" where
  "allTicks d = busyTicks d + unat (d ! 3) + unat (d ! 4) + unat (d ! 7)"

lemma busyTicks_le: "busyTicks d \<le> allTicks d"
  by (simp add: allTicks_def)

definition percentage :: "float64 \<Rightarrow> bool" where
  "percentage u \<longleftrightarrow> finite_float u \<and> 0 \<le> fval u \<and> fval u \<le> 100"

lemma percentage_iff:
  "percentage u \<longleftrightarrow>
     \<not> (is_NaN u \<or> is_Inf u \<or> f_less u (Fin 0) \<or> f_less (Fin 100) u)"
  by (auto simp: percentage_def finite_float_def f_less_finite not_less)

lemma deltaUtilization_iff:
  "deltaUtilization d = Inr u \<longleftrightarrow>
     0 < allTicks d \<and> allTicks d < 2 ^ 64
     \<and> u = utilizationOf (of_nat (busyTicks d)) (of_nat (allTicks d)) \<and> percentage u"
proof (cases "allTicks d < 2 ^ 64")
  case True
  let ?b = "of_nat (busyTicks d) :: u64" and ?t = "of_nat (allTicks d) :: u64"
  have b: "busyTicks d < 2 ^ 64" using True busyTicks_le [of d] by simp
  have ub: "unat ?b = busyTicks d" and ut: "unat ?t = allTicks d"
    using b True by (simp_all add: unat_of_nat_small)
  have "sumUint64 [d ! 0, d ! 1, d ! 2, d ! 5, d ! 6] = Inr ?b"
    using b unfolding sumUint64_iff by (simp add: busyTicks_def)
  moreover have "sumUint64 [?b, d ! 3, d ! 4, d ! 7] = Inr ?t"
    using True ub unfolding sumUint64_iff by (simp add: allTicks_def add.assoc)
  moreover have "?t = 0 \<longleftrightarrow> allTicks d = 0"
    using ut by (metis unat_eq_zero)
  moreover have "\<not> ?t < ?b"
    using ub ut busyTicks_le [of d] by (simp add: word_less_nat_alt)
  ultimately show ?thesis
    using True by (auto simp: deltaUtilization_def Let_def percentage_iff)
next
  case False
  show ?thesis
  proof (cases "sumUint64 [d ! 0, d ! 1, d ! 2, d ! 5, d ! 6]")
    case (Inl e)
    then show ?thesis using False by (simp add: deltaUtilization_def)
  next
    case (Inr b)
    then have b: "busyTicks d < 2 ^ 64" "b = of_nat (busyTicks d)"
      unfolding sumUint64_iff by (simp_all add: busyTicks_def add.assoc)
    then have "unat b = busyTicks d" by (simp add: unat_of_nat_small)
    then have "\<nexists>t. sumUint64 [b, d ! 3, d ! 4, d ! 7] = Inr t"
      using False unfolding sumUint64_iff by (simp add: allTicks_def add.assoc)
    then obtain e where "sumUint64 [b, d ! 3, d ! 4, d ! 7] = Inl e"
      by (cases "sumUint64 [b, d ! 3, d ! 4, d ! 7]") auto
    then show ?thesis using Inr False by (simp add: deltaUtilization_def)
  qed
qed

text \<open>
  Below \<open>2 ^ 46\<close> ticks (more than two thousand years of one processor at a kilohertz) both
  conversions and the product are exact, so the only rounding is that of the quotient.
\<close>

lemma utilization_exact:
  assumes "b \<le> t" "0 < t" "t < 2 ^ 46"
  shows "utilizationOf (of_nat b) (of_nat t) = round64 False (100 * of_nat b / of_nat t)"
    and "percentage (round64 False (100 * of_nat b / of_nat t))"
proof -
  have t: "unat (of_nat t :: u64) = t" and b: "unat (of_nat b :: u64) = b"
    using assms by (simp_all add: unat_of_nat_small)
  have fb: "float_of_nat b = Fin (of_nat b)" and ft: "float_of_nat t = Fin (of_nat t)"
    using assms by (simp_all add: float_of_nat_exact)
  have "100 * b < 2 ^ 53" using assms by simp
  then have "round64 False (of_nat (100 * b)) = Fin (of_nat (100 * b))"
    using float_of_nat_exact [of "100 * b"] by (simp only: float_of_nat_def)
  then have m: "f_mul (Fin 100) (Fin (of_nat b)) = Fin (100 * of_nat b)"
    by (simp add: f_mul_def)
  have q: "0 \<le> 100 * (of_nat b :: rat) / of_nat t" by simp
  show "utilizationOf (of_nat b) (of_nat t) = round64 False (100 * of_nat b / of_nat t)"
    unfolding utilizationOf_def t b fb ft m using assms(2) q by (simp add: f_div_def)
  have le: "100 * (of_nat b :: rat) / of_nat t \<le> of_nat 100"
    using assms by (simp add: field_simps)
  have "round_raw (100 * of_nat b / of_nat t) \<le> round_raw (of_nat 100)"
    using le by (rule round_raw_mono)
  also have "\<dots> = of_nat 100" by (rule round_raw_of_nat) simp
  finally have r: "round_raw (100 * of_nat b / of_nat t) \<le> 100" by simp
  have "100 * (of_nat b :: rat) / of_nat t \<le> 2 ^ 1023"
    using le by (intro power_le_1023 [of 7]) simp_all
  from round64_value [OF this, of False] r
  show "percentage (round64 False (100 * of_nat b / of_nat t))"
    by (simp add: percentage_def)
qed

lemma counterDeltas_iff:
  "length ps = length cs \<Longrightarrow>
   counterDeltas ps cs = Inr ds \<longleftrightarrow> list_all2 (\<le>) ps cs \<and> ds = map2 (\<lambda>p c. c - p) ps cs"
  by (induction ps cs arbitrary: ds rule: list_induct2)
    (auto simp: go_bind_Inr_iff not_less)

section \<open>Facts about the schedule\<close>

lemma advance_grid: "\<exists>k. advance deadline now = deadline + int k * cpuSamplePeriod"
proof (induction deadline now rule: advance.induct)
  case (1 deadline now)
  show ?case
  proof (cases "deadline \<le> now")
    case True
    with 1 obtain k where
      "advance (deadline + cpuSamplePeriod) now = deadline + cpuSamplePeriod + int k * cpuSamplePeriod"
      by blast
    then have "advance deadline now = deadline + int (Suc k) * cpuSamplePeriod"
      using True by (simp add: advance.simps [of deadline] algebra_simps)
    then show ?thesis by blast
  next
    case False
    then have "advance deadline now = deadline + int 0 * cpuSamplePeriod"
      by (simp add: advance.simps [of deadline])
    then show ?thesis by blast
  qed
qed

lemma advance_late: "deadline \<le> now \<Longrightarrow> now < advance deadline now \<and> advance deadline now \<le> now + cpuSamplePeriod"
proof (induction deadline now rule: advance.induct)
  case (1 deadline now)
  show ?case
  proof (cases "deadline + cpuSamplePeriod \<le> now")
    case True
    then show ?thesis using 1 by (simp add: advance.simps [of deadline])
  next
    case False
    then show ?thesis
      using 1(2) by (simp add: advance.simps [of deadline] advance.simps [of "deadline + cpuSamplePeriod"])
  qed
qed

section \<open>Facts about the observer\<close>

definition publication_ok :: "cpuPublication outcome \<Rightarrow> bool" where
  "publication_ok v \<longleftrightarrow>
     valid_outcome v
     \<and> (o_state v = statePresent \<longrightarrow>
          percentage (pub_utilizationPercent (o_value v))
          \<and> is_float64 (pub_utilizationPercent (o_value v))
          \<and> topology_count (pub_topology (o_value v)) \<noteq> 0
          \<and> topology_signature (pub_topology (o_value v)) \<noteq> '''')"

definition observer_inv :: "CPUObserver \<Rightarrow> bool" where
  "observer_inv obs \<longleftrightarrow>
     (\<exists>v. obs_publication obs = Some v \<and> publication_ok v)
     \<and> (\<forall>b. obs_baseline obs = Some b \<longrightarrow> sample_ok (timed_value b))
     \<and> (obs_cancelled obs \<longleftrightarrow> obs_stopped obs) \<and> obs_fatal obs = []"

text \<open>The latest publication was sampled by the given time.\<close>

definition sampled_by :: "int \<Rightarrow> CPUObserver \<Rightarrow> bool" where
  "sampled_by t obs \<longleftrightarrow>
     (\<forall>v. obs_publication obs = Some v \<and> o_state v = statePresent \<longrightarrow> pub_sampledAt (o_value v) \<le> t)"

lemma publication_ok_unavailable [simp]:
  "known_reason r \<Longrightarrow> publication_ok (unavailable r (Some e))"
  by (simp add: publication_ok_def)

lemma newCPUObserver_inv: "observer_inv newCPUObserver"
  by (simp add: observer_inv_def newCPUObserver_def storePublication_def)

lemma calculateCPUUtilization_percentage:
  "calculateCPUUtilization p c = Inr u \<Longrightarrow> percentage u"
  by (auto simp: calculateCPUUtilization_def Let_def go_bind_Inr_iff deltaUtilization_iff
      split: if_splits)

lemma calculateCPUUtilization_float64:
  "calculateCPUUtilization p c = Inr u \<Longrightarrow> is_float64 u"
  by (auto simp: calculateCPUUtilization_def Let_def go_bind_Inr_iff deltaUtilization_iff
      utilizationOf_def split: if_splits)

text \<open>An observation returns, keeps the invariant and moves no flag of the life cycle.\<close>

lemma observeCPU_returns:
  assumes "observer_inv obs"
  shows "\<exists>obs'. observeCPU source atTime obs = Return obs' \<and> observer_inv obs'
     \<and> obs_started obs' = obs_started obs \<and> obs_stopped obs' = obs_stopped obs
     \<and> obs_cancelled obs' = obs_cancelled obs \<and> obs_done obs' = obs_done obs
     \<and> (obs_stopped obs \<longrightarrow> obs' = obs)
     \<and> (sampled_by t obs \<longrightarrow> t \<le> atTime \<longrightarrow> sampled_by atTime obs')"
proof -
  let ?s = "collectCPUSample source"
  have valid: "valid_outcome ?s" and good: "o_state ?s = statePresent \<Longrightarrow> sample_ok (o_value ?s)"
    using collectCPUSample_ok by blast+
  from valid have none: "validateOutcome ?s = None" by (simp add: validateOutcome_None_iff)
  note simps = observeCPU_def publishSample_def none storePublication_def observer_inv_def
    sampled_by_def
  show ?thesis
  proof (cases "obs_stopped obs")
    case True
    then show ?thesis using assms by (fastforce simp: simps)
  next
    case running: False
    show ?thesis
    proof (cases "o_state ?s = statePresent")
      case False
      then obtain e where "known_reason (o_reason ?s)" "o_cause ?s = Some e"
        using valid by (auto simp: valid_outcome_def)
      then show ?thesis using running False assms by (simp add: simps)
    next
      case True
      note s = good [OF True]
      show ?thesis
      proof (cases "obs_baseline obs")
        case None
        then show ?thesis using running True s assms by (simp add: simps)
      next
        case (Some p)
        let ?c = "\<lparr>timed_value = o_value ?s, timed_at = atTime\<rparr>"
        show ?thesis
        proof (cases "calculateCPUUtilization p ?c")
          case (Inl e)
          then show ?thesis using running True Some s assms by (simp add: simps)
        next
          case (Inr u)
          then show ?thesis
            using running True Some s assms calculateCPUUtilization_percentage [OF Inr]
              calculateCPUUtilization_float64 [OF Inr]
            by (simp add: simps publication_ok_def sample_ok_def)
        qed
      qed
    qed
  qed
qed

section \<open>Reachable states\<close>

definition cpu_inv :: "cpuSystem \<Rightarrow> bool" where
  "cpu_inv s \<longleftrightarrow>
     observer_inv (sys_observer s)
     \<and> (sys_thread s = Idle \<longleftrightarrow> \<not> obs_started (sys_observer s))
     \<and> (sys_thread s = Exited \<longleftrightarrow> obs_done (sys_observer s))
     \<and> (sys_thread s = Exited \<longrightarrow> obs_stopped (sys_observer s))
     \<and> sampled_by (sys_clock s) (sys_observer s)"

lemma newCPUSystem_inv: "cpu_inv newCPUSystem"
  using newCPUObserver_inv
  by (simp add: cpu_inv_def newCPUSystem_def newCPUObserver_def storePublication_def sampled_by_def)

lemma productionWait_error: "productionWait d now doneFirst = Some e \<Longrightarrow> doneFirst"
  by (auto simp: productionWait_def Let_def split: if_splits)

lemma exitRun_cancelled: "obs_cancelled obs \<Longrightarrow> exitRun None obs = obs\<lparr>obs_done := True\<rparr>"
  by (simp add: exitRun_def)

lemma wakeRound_production:
  assumes "doneFirst \<Longrightarrow> obs_cancelled obs"
  shows "wakeRound (productionWait d now doneFirst) obs =
     (if obs_cancelled obs then (obs\<lparr>obs_done := True\<rparr>, False) else (obs, True))"
  using assms productionWait_error [of d now doneFirst]
  by (auto simp: wakeRound_def exitRun_cancelled split: option.splits)

text \<open>Rank of the goroutine's position once the observer is stopped: the steps left to its exit.\<close>

fun threadRank :: "cpuThread \<Rightarrow> nat" where
  "threadRank Idle = 0"
| "threadRank Exited = 0"
| "threadRank (Waiting d) = 1"
| "threadRank (Observing d) = 2"
| "threadRank Baselining = 2"

definition observed_from :: "cpuSystem \<Rightarrow> int \<Rightarrow> CPUObserver \<Rightarrow> bool" where
  "observed_from s atTime obs' \<longleftrightarrow>
     observer_inv obs' \<and> sampled_by atTime obs'
     \<and> obs_started obs' = obs_started (sys_observer s)
     \<and> obs_stopped obs' = obs_stopped (sys_observer s)
     \<and> obs_done obs' = obs_done (sys_observer s)
     \<and> (obs_stopped (sys_observer s) \<longrightarrow> obs' = sys_observer s)"

lemma observed:
  "cpu_inv s \<Longrightarrow> sys_clock s \<le> atTime \<Longrightarrow>
   \<exists>obs'. observeCPU source atTime (sys_observer s) = Return obs' \<and> observed_from s atTime obs'"
  using observeCPU_returns [of "sys_observer s" source atTime "sys_clock s"]
  unfolding cpu_inv_def observed_from_def by blast

lemma sampled_by_mono: "sampled_by t obs \<Longrightarrow> t \<le> t' \<Longrightarrow> sampled_by t' obs"
  by (auto simp: sampled_by_def)

lemma sampled_by_flags [simp]:
  "sampled_by t (obs\<lparr>obs_done := b\<rparr>) = sampled_by t obs"
  "sampled_by t (obs\<lparr>obs_started := b\<rparr>) = sampled_by t obs"
  "sampled_by t (obs\<lparr>obs_stopped := b\<rparr>) = sampled_by t obs"
  "sampled_by t (obs\<lparr>obs_cancelled := b\<rparr>) = sampled_by t obs"
  by (simp_all add: sampled_by_def)

lemma cpu_work_effect:
  assumes "cpu_work s t" "cpu_inv s"
  shows "cpu_inv t"
    and "obs_stopped (sys_observer s) \<Longrightarrow>
       obs_stopped (sys_observer t) \<and> threadRank (sys_thread t) < threadRank (sys_thread s)
       \<and> obs_publication (sys_observer t) = obs_publication (sys_observer s)"
proof -
  have "cpu_inv t \<and> (obs_stopped (sys_observer s) \<longrightarrow>
       obs_stopped (sys_observer t) \<and> threadRank (sys_thread t) < threadRank (sys_thread s)
       \<and> obs_publication (sys_observer t) = obs_publication (sys_observer s))"
    using assms(1)
  proof (cases rule: cpu_work.cases)
    case (baseline atTime source obs err deadline)
    then obtain obs' where o: "observeCPU source atTime (sys_observer s) = Return obs'"
      "observed_from s atTime obs'"
      using observed assms(2) by blast
    then show ?thesis
      using baseline assms(2) by (auto simp: startBaseline_def cpu_inv_def observed_from_def)
  next
    case (wake d now doneFirst obs goes_on)
    then have "(obs, goes_on) = (if obs_cancelled (sys_observer s)
        then ((sys_observer s)\<lparr>obs_done := True\<rparr>, False) else (sys_observer s, True))"
      using wakeRound_production [of doneFirst "sys_observer s" d now] by simp
    then show ?thesis
      using wake assms(2) sampled_by_mono
      by (auto simp: cpu_inv_def observer_inv_def split: if_splits)
  next
    case (publish d atTime now source obs deadline)
    then obtain obs' where o: "observeCPU source atTime (sys_observer s) = Return obs'"
      "observed_from s atTime obs'"
      using observed assms(2) by blast
    then show ?thesis
      using publish assms(2) sampled_by_mono
      by (auto simp: publishRound_def cpu_inv_def observed_from_def)
  qed
  then show "cpu_inv t" and "obs_stopped (sys_observer s) \<Longrightarrow>
       obs_stopped (sys_observer t) \<and> threadRank (sys_thread t) < threadRank (sys_thread s)
       \<and> obs_publication (sys_observer t) = obs_publication (sys_observer s)"
    by blast+
qed

lemma cpu_step_inv:
  assumes "cpu_step s t" "cpu_inv s"
  shows "cpu_inv t"
  using assms(1)
proof (cases rule: cpu_step.cases)
  case (start obs)
  then show ?thesis
    using assms(2) by (auto simp: beginStart_def cpu_inv_def observer_inv_def split: if_splits)
next
  case work
  then show ?thesis using assms(2) by (rule cpu_work_effect(1))
next
  case close
  then show ?thesis using assms(2) by (auto simp: CloseCPU_def cpu_inv_def observer_inv_def)
qed

lemma cpu_reachable_inv: "cpu_reachable s \<Longrightarrow> cpu_inv s"
  by (induction rule: cpu_reachable.induct) (auto intro: newCPUSystem_inv cpu_step_inv)

text \<open>What the coordinator relies on when it reads the observer.\<close>

definition cpu_answer_ok :: "cpuPublication outcome \<times> int \<Rightarrow> bool" where
  "cpu_answer_ok a \<longleftrightarrow>
     publication_ok (fst a)
     \<and> (o_state (fst a) = statePresent \<longrightarrow> pub_sampledAt (o_value (fst a)) \<le> snd a)"

lemma latestCPU_ok:
  assumes "cpu_reachable s" "sys_clock s \<le> now"
  shows "cpu_answer_ok (latestCPU now (sys_observer s))"
  using cpu_reachable_inv [OF assms(1)] assms(2)
  by (fastforce simp: cpu_inv_def observer_inv_def latestCPU_def cpu_answer_ok_def sampled_by_def)

lemma cpu_work_enabled: "sys_thread s \<noteq> Idle \<Longrightarrow> sys_thread s \<noteq> Exited \<Longrightarrow> \<exists>t. cpu_work s t"
proof (cases "sys_thread s")
  case Baselining
  then show ?thesis
    using cpu_work.baseline [OF _ order_refl] by (metis (no_types) prod_cases3)
next
  case (Waiting d)
  then show ?thesis using cpu_work.wake [OF _ order_refl] by (metis (no_types) surj_pair)
next
  case (Observing d)
  then show ?thesis
    using cpu_work.publish [OF _ order_refl order_refl] by (metis (no_types) surj_pair)
qed simp_all

section \<open>Properties\<close>

text \<open>
  C15 (cpu_utilization_exact): with fewer than \<open>2 ^ 46\<close> ticks between two samples, the
  utilization is reported exactly when the samples are 900 to 1100 milliseconds apart, of the
  same boot and the same topology, the uptime and no counter went back and some tick passed;
  the value is then the correctly rounded percentage of the non-idle ticks.
\<close>

theorem cpu_utilization_exact:
  assumes "length (sample_counters (timed_value p)) = 8" "length (sample_counters (timed_value c)) = 8"
    and "ds = map2 (\<lambda>old new. new - old) (sample_counters (timed_value p)) (sample_counters (timed_value c))"
    and "allTicks ds < 2 ^ 46"
  shows "calculateCPUUtilization p c = Inr u \<longleftrightarrow>
     timed_at c - timed_at p \<in> {900 * 1000000 .. 1100 * 1000000}
     \<and> sample_bootID (timed_value p) = sample_bootID (timed_value c)
     \<and> sample_uptime (timed_value p) \<le> sample_uptime (timed_value c)
     \<and> sample_topology (timed_value p) = sample_topology (timed_value c)
     \<and> list_all2 (\<le>) (sample_counters (timed_value p)) (sample_counters (timed_value c))
     \<and> 0 < allTicks ds
     \<and> u = round64 False (100 * of_nat (busyTicks ds) / of_nat (allTicks ds))"
proof -
  have "allTicks ds < 2 ^ 64" using assms(4) by simp
  then have "deltaUtilization ds = Inr u \<longleftrightarrow>
      0 < allTicks ds \<and> u = round64 False (100 * of_nat (busyTicks ds) / of_nat (allTicks ds))"
    using utilization_exact [OF busyTicks_le _ assms(4)] by (auto simp: deltaUtilization_iff)
  then show ?thesis
    using assms(1,2,3)
    by (auto simp: calculateCPUUtilization_def Let_def go_bind_Inr_iff counterDeltas_iff
        minimumSampleInterval_def maximumSampleInterval_def not_less)
qed

definition example_sample :: "u64 \<Rightarrow> u64 \<Rightarrow> cpuSample" where
  "example_sample user idle =
     \<lparr>sample_counters = [user, 0, 0, idle, 0, 0, 0, 0],
      sample_topology = \<lparr>topology_count = 4, topology_signature = ''0-3''\<rparr>,
      sample_bootID = ''b'', sample_uptime = 100\<rparr>"

theorem cpu_utilization_exact_witness:
  "calculateCPUUtilization \<lparr>timed_value = example_sample 10 20, timed_at = 0\<rparr>
     \<lparr>timed_value = example_sample 13 23, timed_at = 1000000000\<rparr> = Inr (round64 False 50)"
  by (subst cpu_utilization_exact [OF _ _ refl])
    (simp_all add: example_sample_def allTicks_def busyTicks_def)

text \<open>
  A scheduled goroutine that finds its deadline passed skips to the first
  deadline of its one-second grid that lies in the future; deadlines never drift.
\<close>

theorem cpu_schedule_grid:
  assumes "deadline \<le> now"
  shows "now < advance deadline now \<and> advance deadline now \<le> now + cpuSamplePeriod
    \<and> (\<exists>k. advance deadline now = deadline + int k * cpuSamplePeriod)"
  using advance_late [OF assms] advance_grid by blast

theorem cpu_schedule_grid_witness: "advance 1000000000 3500000000 = 4000000000"
proof -
  have "(1000000000::int) \<le> 3500000000" by simp
  from cpu_schedule_grid [OF this] obtain k where
    "3500000000 < 1000000000 + int k * 1000000000" "1000000000 + int k * 1000000000 \<le> (4500000000::int)"
    "advance 1000000000 3500000000 = 1000000000 + int k * 1000000000"
    by (auto simp: cpuSamplePeriod_def)
  moreover from this(1,2) have "k = 3" by linarith
  ultimately show ?thesis by simp
qed

text \<open>
  C24 (cpu_observer_sound): in every reachable state of the observer, whatever the source reads
  and however starts, rounds and closes interleave, the latest publication passes the outcome
  validation, a published utilization is a finite percentage with a non-empty topology and was
  not sampled in the future, and no fatal error was ever raised.
\<close>

theorem cpu_observer_sound:
  assumes "cpu_reachable s" "sys_clock s \<le> now"
  shows "case latestCPU now (sys_observer s) of (v, t) \<Rightarrow>
    validateOutcome v = None
    \<and> (o_state v = statePresent \<longrightarrow>
         percentage (pub_utilizationPercent (o_value v))
         \<and> topology_count (pub_topology (o_value v)) \<noteq> 0
         \<and> pub_sampledAt (o_value v) \<le> t)
    \<and> obs_fatal (sys_observer s) = []"
proof -
  have "obs_fatal (sys_observer s) = []"
    using cpu_reachable_inv [OF assms(1)] by (simp add: cpu_inv_def observer_inv_def)
  then show ?thesis
    using latestCPU_ok [OF assms]
    by (auto simp: cpu_answer_ok_def publication_ok_def validateOutcome_None_iff split: prod.splits)
qed

theorem cpu_observer_sound_witness:
  "validateOutcome (fst (latestCPU 5 (sys_observer newCPUSystem))) = None"
  using cpu_observer_sound [OF cpu_reachable.initial, of 5]
  by (simp add: newCPUSystem_def split_def)

text \<open>
  C34 (cpu_close_drains): once \<open>Close\<close> has run the publication never changes again, and a
  started observer exits: unless its goroutine has exited it can move, and each of its moves
  lowers the number of moves left, which is at most two.
\<close>

theorem cpu_close_drains:
  assumes "cpu_reachable s" "obs_stopped (sys_observer s)" "obs_started (sys_observer s)"
  shows "(obs_done (sys_observer s) \<or> (\<exists>t. cpu_work s t))
    \<and> (\<forall>t. cpu_work s t \<longrightarrow>
       obs_publication (sys_observer t) = obs_publication (sys_observer s)
       \<and> threadRank (sys_thread t) < threadRank (sys_thread s) \<and> threadRank (sys_thread s) \<le> 2)"
proof -
  have inv: "cpu_inv s" using cpu_reachable_inv [OF assms(1)] .
  then have "sys_thread s \<noteq> Idle" "sys_thread s = Exited \<longleftrightarrow> obs_done (sys_observer s)"
    using assms(3) by (simp_all add: cpu_inv_def)
  then have "obs_done (sys_observer s) \<or> (\<exists>t. cpu_work s t)"
    using cpu_work_enabled by blast
  moreover have "threadRank (sys_thread s) \<le> 2" by (cases "sys_thread s") simp_all
  ultimately show ?thesis
    using cpu_work_effect(2) [OF _ inv assms(2)] by blast
qed

definition example_closed :: cpuSystem where
  "example_closed =
     \<lparr>sys_observer = newCPUObserver\<lparr>obs_started := True, obs_stopped := True, obs_cancelled := True\<rparr>,
      sys_thread = Baselining, sys_clock = 0\<rparr>"

lemma example_closed_reachable: "cpu_reachable example_closed"
proof -
  have "beginStart newCPUObserver = Inr (newCPUObserver\<lparr>obs_started := True\<rparr>)"
    by (simp add: beginStart_def newCPUObserver_def storePublication_def)
  then have "cpu_step newCPUSystem
      \<lparr>sys_observer = newCPUObserver\<lparr>obs_started := True\<rparr>, sys_thread = Baselining, sys_clock = 0\<rparr>" (is "cpu_step _ ?s")
    using cpu_step.start [of newCPUSystem "newCPUObserver\<lparr>obs_started := True\<rparr>"]
    by (simp add: newCPUSystem_def)
  with cpu_reachable.initial have "cpu_reachable ?s" by (rule cpu_reachable.step)
  moreover have "cpu_step ?s example_closed"
    using cpu_step.close [of ?s] by (simp add: CloseCPU_def example_closed_def)
  ultimately show ?thesis by (rule cpu_reachable.step)
qed

theorem cpu_close_drains_witness: "\<exists>t. cpu_work example_closed t"
proof -
  have "obs_stopped (sys_observer example_closed)" "obs_started (sys_observer example_closed)"
    "\<not> obs_done (sys_observer example_closed)"
    by (simp_all add: example_closed_def newCPUObserver_def storePublication_def)
  with cpu_close_drains [OF example_closed_reachable] show ?thesis by blast
qed

end
