(* ===== verification/JsonReader.thy ===== *)
theory JsonReader
  imports Json FloatShortest
begin

text \<open>
  A reader of JSON texts after RFC 8259, the reference the rendering of \<open>Json\<close> is compared with:
  white space, escapes with \<open>\u\<close> sequences of the basic plane, and numbers kept as their text. Reading
  what was rendered gives the value back, provided its strings are UTF-8 and its numbers are numbers.
\<close>

section \<open>Lexical classes\<close>

definition is_ws :: "char \<Rightarrow> bool" where
  "is_ws c \<longleftrightarrow> byte c \<in> {9, 10, 13, 32}"

definition skip_ws :: "string \<Rightarrow> string" where
  "skip_ws s = dropWhile is_ws s"

definition number_char :: "char \<Rightarrow> bool" where
  "number_char c \<longleftrightarrow> is_digit c \<or> byte c \<in> {43, 45, 46, 69, 101}"

text \<open>The number grammar: an integer part without leading zeros, a fraction and an exponent.\<close>

definition digits_text :: "string \<Rightarrow> bool" where
  "digits_text s \<longleftrightarrow> s \<noteq> [] \<and> list_all is_digit s"

definition int_text :: "string \<Rightarrow> bool" where
  "int_text s \<longleftrightarrow> digits_text s \<and> (hd s = CHR ''0'' \<longrightarrow> s = ''0'')"

definition exp_text :: "string \<Rightarrow> bool" where
  "exp_text s \<longleftrightarrow>
     (case s of
        [] \<Rightarrow> True
      | e # t \<Rightarrow> lower e = CHR ''e''
                 \<and> digits_text (if t \<noteq> [] \<and> (hd t = CHR ''+'' \<or> hd t = CHR ''-'') then tl t else t))"

definition frac_exp_text :: "string \<Rightarrow> bool" where
  "frac_exp_text s \<longleftrightarrow>
     (case s of
        [] \<Rightarrow> True
      | c # t \<Rightarrow>
          if c = CHR ''.''
          then digits_text (takeWhile is_digit t) \<and> exp_text (dropWhile is_digit t)
          else exp_text s)"

definition number_text :: "string \<Rightarrow> bool" where
  "number_text s \<longleftrightarrow>
     (let t = (if s \<noteq> [] \<and> hd s = CHR ''-'' then tl s else s)
      in int_text (takeWhile is_digit t) \<and> frac_exp_text (dropWhile is_digit t))"

section \<open>Strings\<close>

definition hex_value :: "char \<Rightarrow> nat option" where
  "hex_value c = (case digit_of c of Some d \<Rightarrow> if d < 16 then Some d else None | None \<Rightarrow> None)"

definition hex4 :: "char \<Rightarrow> char \<Rightarrow> char \<Rightarrow> char \<Rightarrow> nat option" where
  "hex4 a b c d =
     (case (hex_value a, hex_value b, hex_value c, hex_value d) of
        (Some w, Some x, Some y, Some z) \<Rightarrow> Some (w * 4096 + x * 256 + y * 16 + z)
      | _ \<Rightarrow> None)"

definition utf8_encode :: "nat \<Rightarrow> string" where
  "utf8_encode r =
     (if r < 0x80 then [of_byte r]
      else if r < 0x800 then [of_byte (0xC0 + r div 64), of_byte (0x80 + r mod 64)]
      else [of_byte (0xE0 + r div 4096), of_byte (0x80 + r div 64 mod 64), of_byte (0x80 + r mod 64)])"

definition simple_escape :: "char \<Rightarrow> char option" where
  "simple_escape c =
     (if c = CHR 0x22 \<or> c = backslash \<or> c = CHR ''/'' then Some c
      else if c = CHR ''b'' then Some (of_byte 8)
      else if c = CHR ''f'' then Some (of_byte 12)
      else if c = CHR ''n'' then Some (of_byte 10)
      else if c = CHR ''r'' then Some (of_byte 13)
      else if c = CHR ''t'' then Some (of_byte 9)
      else None)"

definition prepend :: "string \<Rightarrow> (string \<times> string) option \<Rightarrow> (string \<times> string) option" where
  "prepend w = map_option (\<lambda>(s, rest). (w @ s, rest))"

text \<open>The characters of a string after its opening quote.\<close>

fun read_chars :: "string \<Rightarrow> (string \<times> string) option" where
  "read_chars [] = None"
| "read_chars (c # cs) =
     (if c = CHR 0x22 then Some ([], cs)
      else if c = backslash then
        (case cs of
           [] \<Rightarrow> None
         | e # t \<Rightarrow>
             if e = CHR ''u'' then
               (case t of
                  w # x # y # z # rest \<Rightarrow>
                    (case hex4 w x y z of
                       None \<Rightarrow> None
                     | Some r \<Rightarrow> prepend (utf8_encode r) (read_chars rest))
                | _ \<Rightarrow> None)
             else (case simple_escape e of
                     None \<Rightarrow> None
                   | Some d \<Rightarrow> prepend [d] (read_chars t)))
      else if byte c < 0x20 then None
      else prepend [c] (read_chars cs))"

section \<open>Values\<close>

text \<open>
  A value, the elements after \<open>[\<close> and the members after an opening brace. The fuel bounds the nesting
  and the number of elements together; the length of the text is enough.
\<close>

definition read_literal :: "string \<Rightarrow> json \<Rightarrow> string \<Rightarrow> (json \<times> string) option" where
  "read_literal t v s = (if take (length t) s = t then Some (v, drop (length t) s) else None)"

definition read_number :: "string \<Rightarrow> (json \<times> string) option" where
  "read_number s =
     (let t = takeWhile number_char s
      in if number_text t then Some (JNum t, dropWhile number_char s) else None)"

fun read_value :: "nat \<Rightarrow> string \<Rightarrow> (json \<times> string) option"
and read_elems :: "nat \<Rightarrow> string \<Rightarrow> (json list \<times> string) option"
and read_members :: "nat \<Rightarrow> string \<Rightarrow> ((string \<times> json) list \<times> string) option" where
  "read_value 0 s = None"
| "read_value (Suc n) s =
     (case skip_ws s of
        [] \<Rightarrow> None
      | c # cs \<Rightarrow>
          if c = CHR ''n'' then read_literal ''null'' JNull (c # cs)
          else if c = CHR ''t'' then read_literal ''true'' (JBool True) (c # cs)
          else if c = CHR ''f'' then read_literal ''false'' (JBool False) (c # cs)
          else if c = CHR 0x22 then map_option (\<lambda>(s, rest). (JStr s, rest)) (read_chars cs)
          else if c = CHR ''['' then
            (if skip_ws cs \<noteq> [] \<and> hd (skip_ws cs) = CHR '']'' then Some (JArr [], tl (skip_ws cs))
             else map_option (\<lambda>(vs, rest). (JArr vs, rest)) (read_elems n cs))
          else if c = CHR ''{'' then
            (if skip_ws cs \<noteq> [] \<and> hd (skip_ws cs) = CHR ''}'' then Some (JObj [], tl (skip_ws cs))
             else map_option (\<lambda>(ms, rest). (JObj ms, rest)) (read_members n cs))
          else read_number (c # cs))"
| "read_elems 0 s = None"
| "read_elems (Suc n) s =
     (case read_value n s of
        None \<Rightarrow> None
      | Some (v, rest) \<Rightarrow>
          (case skip_ws rest of
             [] \<Rightarrow> None
           | c # cs \<Rightarrow>
               if c = CHR '']'' then Some ([v], cs)
               else if c = CHR '','' then map_option (\<lambda>(vs, r). (v # vs, r)) (read_elems n cs)
               else None))"
| "read_members 0 s = None"
| "read_members (Suc n) s =
     (case skip_ws s of
        [] \<Rightarrow> None
      | q # t \<Rightarrow>
          if q \<noteq> CHR 0x22 then None
          else
            (case read_chars t of
               None \<Rightarrow> None
             | Some (k, t1) \<Rightarrow>
                 (case skip_ws t1 of
                    [] \<Rightarrow> None
                  | d # t2 \<Rightarrow>
                      if d \<noteq> CHR '':'' then None
                      else
                        (case read_value n t2 of
                           None \<Rightarrow> None
                         | Some (v, rest) \<Rightarrow>
                             (case skip_ws rest of
                                [] \<Rightarrow> None
                              | c # cs \<Rightarrow>
                                  if c = CHR ''}'' then Some ([(k, v)], cs)
                                  else if c = CHR '',''
                                  then map_option (\<lambda>(ms, r). ((k, v) # ms, r)) (read_members n cs)
                                  else None)))))"

text \<open>A whole document: one value, and nothing but white space after it.\<close>

definition read_json :: "string \<Rightarrow> json option" where
  "read_json s =
     (case read_value (length s) s of
        None \<Rightarrow> None
      | Some (v, rest) \<Rightarrow> if skip_ws rest = [] then Some v else None)"

section \<open>Strings read back\<close>

lemma prepend_simps [simp]:
  "prepend w None = None" "prepend w (Some (s, rest)) = Some (w @ s, rest)"
  "prepend [] m = m" "prepend v (prepend w m) = prepend (v @ w) m"
  by (cases m; auto simp: prepend_def)+

lemma read_raw:
  "\<forall>c\<in>set w. 32 \<le> byte c \<and> c \<noteq> CHR 0x22 \<and> c \<noteq> backslash \<Longrightarrow>
   read_chars (w @ rest) = prepend w (read_chars rest)"
  by (induction w) auto

lemma hex_value_digit: "d < 16 \<Longrightarrow> hex_value (hex_digit d) = Some d"
  by (auto simp: hex_value_def hex_digit_def digit_of_def lower_def)

lemma hex_value_zero: "hex_value CHR ''0'' = Some 0"
  using hex_value_digit [of 0] by (simp add: hex_digit_def of_byte_def char_of_def bit_0)

lemma simple_escape_eval:
  "simple_escape CHR 0x22 = Some CHR 0x22" "simple_escape backslash = Some backslash"
  "simple_escape CHR ''b'' = Some (of_byte 8)" "simple_escape CHR ''f'' = Some (of_byte 12)"
  "simple_escape CHR ''n'' = Some (of_byte 10)" "simple_escape CHR ''r'' = Some (of_byte 13)"
  "simple_escape CHR ''t'' = Some (of_byte 9)"
  by (simp_all add: simple_escape_def backslash_def)

lemma read_ascii:
  assumes "byte c < 128"
  shows "read_chars (escape_rune (byte c, [c]) @ rest) = prepend [c] (read_chars rest)"
proof -
  have u: "read_chars (backslash # ''u00'' @ [hex_digit (byte c div 16), hex_digit (byte c mod 16)] @ rest)
      = prepend [c] (read_chars rest)"
  proof -
    have "hex4 CHR ''0'' CHR ''0'' (hex_digit (byte c div 16)) (hex_digit (byte c mod 16)) = Some (byte c)"
      using assms by (simp add: hex4_def hex_value_zero hex_value_digit)
    then show ?thesis using assms by (simp add: backslash_def utf8_encode_def)
  qed
  have s: "read_chars (backslash # e # rest) = prepend [c] (read_chars rest)"
    if "simple_escape e = Some c" "e \<noteq> CHR ''u''" for e
    using that by (simp add: backslash_def)
  consider "byte c = 0x22 \<or> byte c = 0x5C" | "byte c = 8" | "byte c = 12" | "byte c = 10" | "byte c = 13"
    | "byte c = 9" | "byte c < 0x20 \<or> byte c = 0x3C \<or> byte c = 0x3E \<or> byte c = 0x26"
      "byte c \<notin> {8, 9, 10, 12, 13}"
    | "0x20 \<le> byte c" "byte c \<notin> {0x22, 0x5C, 0x3C, 0x3E, 0x26}"
    by force
  then show ?thesis
  proof cases
    case 1
    then have "c = CHR 0x22 \<or> c = backslash" by (auto intro: byte_inj simp: backslash_def)
    moreover from this have "simple_escape c = Some c" by (auto simp only: simple_escape_eval)
    ultimately have "simple_escape c = Some c" "c \<noteq> CHR ''u''" by (auto simp: backslash_def)
    then show ?thesis using 1 s [of c] by (auto simp: escape_rune_def)
  next
    case 2
    then have "of_byte 8 = c" using of_byte_byte [of c] by simp
    then show ?thesis using 2 s [of "CHR ''b''"] by (simp add: escape_rune_def simple_escape_eval)
  next
    case 3
    then have "of_byte 12 = c" using of_byte_byte [of c] by simp
    then show ?thesis using 3 s [of "CHR ''f''"] by (simp add: escape_rune_def simple_escape_eval)
  next
    case 4
    then have "of_byte 10 = c" using of_byte_byte [of c] by simp
    then show ?thesis using 4 s [of "CHR ''n''"] by (simp add: escape_rune_def simple_escape_eval)
  next
    case 5
    then have "of_byte 13 = c" using of_byte_byte [of c] by simp
    then show ?thesis using 5 s [of "CHR ''r''"] by (simp add: escape_rune_def simple_escape_eval)
  next
    case 6
    then have "of_byte 9 = c" using of_byte_byte [of c] by simp
    then show ?thesis using 6 s [of "CHR ''t''"] by (simp add: escape_rune_def simple_escape_eval)
  next
    case 7
    then show ?thesis using u assms by (auto simp: escape_rune_def)
  next
    case 8
    then show ?thesis using assms read_raw [of "[c]"]
      by (auto simp: escape_rune_def backslash_def)
  qed
qed

text \<open>A rune of more than one byte: all its bytes have the high bit.\<close>

lemma decode_rune_multi:
  assumes "decode_rune (c # cs) = (r, n)" "128 \<le> byte c" "\<not> (r = rune_error \<and> n = 1)"
  shows "128 \<le> r" "\<forall>d\<in>set (take n (c # cs)). 128 \<le> byte d" "1 < n"
  using assms
  by (auto simp: Let_def byte_in_def split: list.splits if_splits)

lemma four_byte_low:
  assumes "240 \<le> b" "b \<noteq> 240 \<or> 144 \<le> d" "128 \<le> (e :: nat)"
  shows "65536 \<le> (b - 240) * 262144 + (d - 128) * 4096 + m + e - 128"
proof (cases "b = 240")
  case True
  then have "16 * 4096 \<le> (d - 128) * 4096" using assms(2) by (intro mult_le_mono1) simp
  then show ?thesis using assms(3) by simp
next
  case False
  then have "1 * 262144 \<le> (b - 240) * 262144" using assms(1) by (intro mult_le_mono1) simp
  then show ?thesis using assms(3) by simp
qed

lemma decode_rune_line:
  assumes "decode_rune (c # cs) = (r, n)" "128 \<le> byte c" "r = 0x2028 \<or> r = 0x2029"
  shows "take n (c # cs) = utf8_encode r"
proof -
  have lim: "byte c < 256" by simp
  consider "byte c < 0xE0" | "0xE0 \<le> byte c" "byte c \<le> 0xEF" | "0xF0 \<le> byte c" by linarith
  then show ?thesis
  proof cases
    case 1
    then have "r < 0x2028 \<or> r = rune_error"
      using assms(1,2) by (auto simp: Let_def byte_in_def split: list.splits if_splits)
    then show ?thesis using assms(3) by auto
  next
    case 2
    then obtain d e es where cs: "cs = d # e # es" "0x80 \<le> byte d" "byte d \<le> 0xBF" "0x80 \<le> byte e"
      "byte e \<le> 0xBF" "r = (byte c - 0xE0) * 4096 + (byte d - 0x80) * 64 + (byte e - 0x80)" "n = 3"
      using assms(1,3) by (auto simp: Let_def byte_in_def split: list.splits if_splits)
    obtain x y z where xyz: "byte c = 0xE0 + x" "byte d = 0x80 + y" "byte e = 0x80 + z"
      using 2(1) cs(2,4) by (metis le_Suc_ex)
    have v: "r = x * 4096 + y * 64 + z" "y < 64" "z < 64" using cs(3,5,6) xyz by simp_all
    have r: "0x2028 \<le> r" "r \<le> 0x2029" using assms(3) by auto
    have "x < 3" "1 < x" using v r by linarith+
    then have x: "x = 2" by simp
    have "y < 1" using v r x by linarith
    then have yz: "y = 0" "z = r - 0x2028 + 0x28" using v r x by simp_all
    have "c = of_byte 0xE2" "d = of_byte 0x80" "e = of_byte (r - 0x2028 + 0xA8)"
      using of_byte_byte [of c] of_byte_byte [of d] of_byte_byte [of e] unfolding xyz x yz by (simp_all add: add.commute)
    then show ?thesis using cs(1,7) assms(3) by (auto simp: utf8_encode_def)
  next
    case 3
    then have "0x10000 \<le> r \<or> r = rune_error"
      using assms(1,2)
      by (auto simp: Let_def byte_in_def intro!: four_byte_low split: list.splits if_splits)
    then show ?thesis using assms(3) by auto
  qed
qed

lemma hex_value_eval:
  "hex_value CHR ''2'' = Some 2" "hex_value CHR ''8'' = Some 8" "hex_value CHR ''9'' = Some 9"
  by (simp_all add: hex_value_def digit_of_def)

lemma read_rune:
  assumes "decode_rune s = (r, n)" "s \<noteq> []" "\<not> (r = rune_error \<and> length (take n s) = 1)"
  shows "read_chars (escape_rune (r, take n s) @ rest) = prepend (take n s) (read_chars rest)"
proof -
  obtain c cs where s: "s = c # cs" using assms(2) by (cases s) auto
  show ?thesis
  proof (cases "byte c < 128")
    case True
    then have "r = byte c" "take n s = [c]" using assms(1) by (auto simp: s)
    then show ?thesis using read_ascii [OF True] by simp
  next
    case False
    then have c: "128 \<le> byte c" by simp
    have "\<not> (r = rune_error \<and> n = 1)" using assms(3) by (auto simp: s)
    note m = decode_rune_multi [OF assms(1) [unfolded s] c this]
    have raw: "read_chars (take n s @ rest) = prepend (take n s) (read_chars rest)"
      using m(2) by (intro read_raw) (auto simp: s backslash_def)
    show ?thesis
    proof (cases "r = 0x2028 \<or> r = 0x2029")
      case True
      then have "take n s = utf8_encode r" using decode_rune_line [OF assms(1) [unfolded s] c] by (simp add: s)
      moreover have "read_chars (backslash # ''u2028'' @ rest) = prepend (utf8_encode 0x2028) (read_chars rest)"
        "read_chars (backslash # ''u2029'' @ rest) = prepend (utf8_encode 0x2029) (read_chars rest)"
        by (simp_all add: hex4_def hex_value_zero hex_value_eval backslash_def)
      ultimately show ?thesis using True by (auto simp: escape_rune_def)
    next
      case other: False
      then have "escape_rune (r, take n s) = take n s"
        using m(1) assms(3) by (auto simp: escape_rune_def)
      then show ?thesis using raw by simp
    qed
  qed
qed

lemma read_escaped:
  "valid_utf8 s \<Longrightarrow> read_chars (concat (map escape_rune (runes s)) @ CHR 0x22 # rest) = Some (s, rest)"
proof (induction s rule: runes.induct)
  case (1 s)
  show ?case
  proof (cases "s = []")
    case False
    let ?w = "take (snd (decode_rune s)) s" and ?t = "drop (snd (decode_rune s)) s"
    have runes: "runes s = (fst (decode_rune s), ?w) # runes ?t" using False by (simp add: runes.simps [of s])
    then have v: "valid_utf8 ?t" "\<not> (fst (decode_rune s) = rune_error \<and> length ?w = 1)"
      using 1(2) by (auto simp: valid_utf8_def)
    have "read_chars (concat (map escape_rune (runes ?t)) @ CHR 0x22 # rest) = Some (?t, rest)"
      using 1(1) [OF False v(1)] .
    then show ?thesis
      using read_rune [OF prod.collapse [symmetric] False v(2)] by (simp add: runes)
  qed simp
qed

section \<open>Numbers read back\<close>

lemma digits_text_number: "digits_text s \<Longrightarrow> list_all number_char s"
  by (auto simp: digits_text_def list_all_iff number_char_def)

lemma lower_e: "lower e = CHR ''e'' \<Longrightarrow> number_char e"
proof -
  assume "lower e = CHR ''e''"
  then have "byte (lower e) = 101" by simp
  then show ?thesis by (auto simp: lower_def number_char_def split: if_splits)
qed

lemma exp_text_number: "exp_text s \<Longrightarrow> list_all number_char s"
proof (cases s)
  case (Cons e t)
  assume x: "exp_text s"
  have e: "number_char e"
    using x Cons by (simp add: exp_text_def lower_e)
  have "list_all number_char t"
  proof (cases "t \<noteq> [] \<and> (hd t = CHR ''+'' \<or> hd t = CHR ''-'')")
    case True
    then have "digits_text (tl t)" using x Cons by (simp add: exp_text_def)
    then have "list_all number_char (tl t)" by (rule digits_text_number)
    moreover have "number_char (hd t)" using True by (auto simp: number_char_def)
    ultimately have "list_all number_char (tl t)" "number_char (hd t)" by simp_all
    then show ?thesis using True by (cases t) auto
  next
    case False
    have "digits_text t" using x unfolding Cons exp_text_def list.case if_not_P [OF False] by blast
    then show ?thesis by (rule digits_text_number)
  qed
  then show ?thesis using e Cons by simp
qed simp

lemma list_all_split: "list_all P (takeWhile Q s) \<Longrightarrow> list_all P (dropWhile Q s) \<Longrightarrow> list_all P s"
  by (metis list_all_append takeWhile_dropWhile_id)

lemma frac_exp_text_number: "frac_exp_text s \<Longrightarrow> list_all number_char s"
proof (cases s)
  case (Cons c t)
  assume x: "frac_exp_text s"
  show ?thesis
  proof (cases "c = CHR ''.''")
    case True
    then have "digits_text (takeWhile is_digit t)" "exp_text (dropWhile is_digit t)"
      using x Cons by (simp_all add: frac_exp_text_def)
    then have "list_all number_char t"
      by (rule list_all_split [OF digits_text_number exp_text_number])
    then show ?thesis using True Cons by (simp add: number_char_def)
  next
    case False
    then have "exp_text s" using x Cons by (simp add: frac_exp_text_def)
    then show ?thesis by (rule exp_text_number)
  qed
qed simp

lemma number_text_chars: "number_text s \<Longrightarrow> list_all number_char s"
proof -
  assume x: "number_text s"
  let ?t = "if s \<noteq> [] \<and> hd s = CHR ''-'' then tl s else s"
  have "digits_text (takeWhile is_digit ?t)" "frac_exp_text (dropWhile is_digit ?t)"
    using x by (simp_all add: number_text_def int_text_def Let_def)
  then have "list_all number_char ?t"
    by (rule list_all_split [OF digits_text_number frac_exp_text_number])
  then show ?thesis by (cases s) (auto simp: number_char_def split: if_splits)
qed

lemma number_text_head: "number_text s \<Longrightarrow> \<exists>c cs. s = c # cs \<and> (c = CHR ''-'' \<or> is_digit c)"
  by (cases s) (auto simp: number_text_def int_text_def digits_text_def Let_def split: if_splits)

definition ends_value :: "string \<Rightarrow> bool" where
  "ends_value rest \<longleftrightarrow> rest = [] \<or> \<not> number_char (hd rest)"

lemma read_number_text:
  assumes "number_text t" "ends_value rest"
  shows "read_number (t @ rest) = Some (JNum t, rest)"
proof -
  have t: "\<forall>c\<in>set t. number_char c" using number_text_chars [OF assms(1)] by (simp add: list_all_iff)
  have "takeWhile number_char (t @ rest) = t" "dropWhile number_char (t @ rest) = rest"
    using t assms(2) by (cases rest; auto simp: ends_value_def)+
  then show ?thesis using assms(1) by (simp add: read_number_def)
qed

section \<open>Values read back\<close>

fun json_wf :: "json \<Rightarrow> bool" where
  "json_wf (JNum t) = number_text t"
| "json_wf (JStr s) = valid_utf8 s"
| "json_wf (JArr vs) = (\<forall>v\<in>set vs. json_wf v)"
| "json_wf (JObj ms) = (\<forall>(k, v)\<in>set ms. valid_utf8 k \<and> json_wf v)"
| "json_wf _ = True"

text \<open>The fuel a value needs, and that its text is at least as long.\<close>

fun weight :: "json \<Rightarrow> nat"
and weight_elems :: "json list \<Rightarrow> nat"
and weight_members :: "(string \<times> json) list \<Rightarrow> nat" where
  "weight (JArr vs) = Suc (weight_elems vs)"
| "weight (JObj ms) = Suc (weight_members ms)"
| "weight _ = 1"
| "weight_elems [] = 0"
| "weight_elems (v # vs) = Suc (weight v + weight_elems vs)"
| "weight_members [] = 0"
| "weight_members ((k, v) # ms) = Suc (weight v + weight_members ms)"

lemma render_head:
  assumes "json_wf j"
  obtains c cs where "render j = c # cs" "\<not> is_ws c" "c \<noteq> CHR '']''" "c \<noteq> CHR ''}''"
proof (cases j)
  case (JNum t)
  then obtain c cs where "t = c # cs" "c = CHR ''-'' \<or> is_digit c"
    using number_text_head [of t] assms by (metis json_wf.simps(1))
  moreover from this have "\<not> is_ws c" "c \<noteq> CHR '']''" "c \<noteq> CHR ''}''"
    by (auto simp: is_ws_def is_digit_def)
  ultimately show ?thesis using that [of c cs] JNum by simp
next
  case (JBool b)
  then show ?thesis using that by (cases b) (auto simp: is_ws_def)
qed (use that in \<open>auto simp: is_ws_def json_string_def\<close>)

lemma skip_ws_head: "\<not> is_ws c \<Longrightarrow> skip_ws (c # cs) = c # cs"
  by (simp add: skip_ws_def)

lemma weight_render:
  "json_wf j \<Longrightarrow> weight j \<le> length (render j)"
  "\<forall>v\<in>set vs. json_wf v \<Longrightarrow> vs \<noteq> [] \<Longrightarrow> weight_elems vs \<le> Suc (length (render_elems vs))"
  "\<forall>(k, v)\<in>set ms. valid_utf8 k \<and> json_wf v \<Longrightarrow> ms \<noteq> [] \<Longrightarrow>
     weight_members ms \<le> Suc (length (render_members ms))"
proof (induction j and vs and ms rule: weight_weight_elems_weight_members.induct)
  case (1 vs)
  then show ?case by (cases vs) auto
next
  case (2 ms)
  then show ?case by (cases ms) auto
next
  case (5 v vs)
  then show ?case by (cases vs) auto
next
  case (7 k v ms)
  then show ?case by (cases ms) (auto simp: json_string_def)
qed (auto simp: json_string_def dest: number_text_head)

lemma skip_ws_render:
  "json_wf j \<Longrightarrow> skip_ws (render j @ rest) = render j @ rest"
  by (erule render_head) (simp add: skip_ws_head)

lemma read_json_string:
  "valid_utf8 s \<Longrightarrow> read_chars (tl (json_string s) @ rest) = Some (s, rest)"
  by (simp add: json_string_def read_escaped)

lemma json_string_head: "json_string s = CHR 0x22 # tl (json_string s)"
  by (simp add: json_string_def)

lemma ends_value_simps [simp]:
  "ends_value []" "ends_value (CHR '']'' # rest)" "ends_value (CHR '','' # rest)" "ends_value (CHR ''}'' # rest)"
  by (simp_all add: ends_value_def number_char_def is_digit_def)

lemma read_value_number:
  assumes "number_text t" "ends_value rest"
  shows "read_value (Suc n) (t @ rest) = Some (JNum t, rest)"
proof -
  obtain c cs where t: "t = c # cs" "c = CHR ''-'' \<or> is_digit c" using number_text_head [OF assms(1)] by blast
  then have "c \<notin> {CHR ''n'', CHR ''t'', CHR ''f'', CHR 0x22, CHR ''['', CHR ''{''}" "\<not> is_ws c"
    by (auto simp: is_ws_def is_digit_def)
  then show ?thesis
    using read_number_text [OF assms] by (simp add: t(1) skip_ws_head)
qed

lemma read_array:
  assumes "read_elems n (render_elems vs @ CHR '']'' # rest) = Some (vs, rest)" "vs \<noteq> []"
    and "\<forall>v\<in>set vs. json_wf v"
  shows "read_value (Suc n) (render (JArr vs) @ rest) = Some (JArr vs, rest)"
proof -
  obtain v ws where vs: "vs = v # ws" using assms(2) by (cases vs) auto
  obtain c cs where c: "render v = c # cs" "\<not> is_ws c" "c \<noteq> CHR '']''"
    using render_head [of v] assms(3) vs by (metis list.set_intros(1))
  then obtain cs' where "render_elems vs = c # cs'" using vs by (cases ws) auto
  then show ?thesis using assms(1) c by (simp add: skip_ws_head is_ws_def)
qed

lemma read_object:
  assumes "read_members n (render_members ms @ CHR ''}'' # rest) = Some (ms, rest)" "ms \<noteq> []"
  shows "read_value (Suc n) (render (JObj ms) @ rest) = Some (JObj ms, rest)"
proof -
  obtain m ms' where ms: "ms = m # ms'" using assms(2) by (cases ms) auto
  then obtain cs' where "render_members ms = CHR 0x22 # cs'"
    by (cases m; cases ms') (auto simp: json_string_def)
  then show ?thesis using assms(1) by (simp add: skip_ws_head is_ws_def)
qed

lemma read_atoms:
  assumes "Suc 0 \<le> n"
  shows "read_value n (CHR ''n'' # CHR ''u'' # CHR ''l'' # CHR ''l'' # rest) = Some (JNull, rest)"
    and "read_value n (CHR ''t'' # CHR ''r'' # CHR ''u'' # CHR ''e'' # rest) = Some (JBool True, rest)"
    and "read_value n (CHR ''f'' # CHR ''a'' # CHR ''l'' # CHR ''s'' # CHR ''e'' # rest)
      = Some (JBool False, rest)"
    and "number_text t \<Longrightarrow> ends_value rest \<Longrightarrow> read_value n (t @ rest) = Some (JNum t, rest)"
    and "valid_utf8 s \<Longrightarrow> read_value n (json_string s @ rest) = Some (JStr s, rest)"
proof -
  obtain m where n: "n = Suc m" using assms by (cases n) auto
  show "read_value n (CHR ''n'' # CHR ''u'' # CHR ''l'' # CHR ''l'' # rest) = Some (JNull, rest)"
    "read_value n (CHR ''t'' # CHR ''r'' # CHR ''u'' # CHR ''e'' # rest) = Some (JBool True, rest)"
    "read_value n (CHR ''f'' # CHR ''a'' # CHR ''l'' # CHR ''s'' # CHR ''e'' # rest)
      = Some (JBool False, rest)"
    by (simp_all add: n skip_ws_head is_ws_def read_literal_def)
  show "number_text t \<Longrightarrow> ends_value rest \<Longrightarrow> read_value n (t @ rest) = Some (JNum t, rest)"
    unfolding n by (rule read_value_number)
  assume s: "valid_utf8 s"
  have "skip_ws (json_string s @ rest) = CHR 0x22 # (tl (json_string s) @ rest)"
    by (subst json_string_head) (simp add: skip_ws_head is_ws_def)
  then show "read_value n (json_string s @ rest) = Some (JStr s, rest)"
    using read_json_string [OF s] by (simp add: n)
qed

lemma read_render:
  "json_wf j \<Longrightarrow> weight j \<le> n \<Longrightarrow> ends_value rest \<Longrightarrow> read_value n (render j @ rest) = Some (j, rest)"
  "\<forall>v\<in>set vs. json_wf v \<Longrightarrow> vs \<noteq> [] \<Longrightarrow> weight_elems vs \<le> n \<Longrightarrow>
     read_elems n (render_elems vs @ CHR '']'' # rest) = Some (vs, rest)"
  "\<forall>(k, v)\<in>set ms. valid_utf8 k \<and> json_wf v \<Longrightarrow> ms \<noteq> [] \<Longrightarrow> weight_members ms \<le> n \<Longrightarrow>
     read_members n (render_members ms @ CHR ''}'' # rest) = Some (ms, rest)"
proof (induction j and vs and ms arbitrary: n rest and n rest and n rest
    rule: weight_weight_elems_weight_members.induct)
  case (1 vs)
  then obtain m where n: "n = Suc m" "weight_elems vs \<le> m" by (cases n) auto
  show ?case
  proof (cases "vs = []")
    case True
    then show ?thesis using n by (simp add: skip_ws_head is_ws_def)
  next
    case False
    with 1 n show ?thesis by (simp only: n(1)) (rule read_array, simp_all)
  qed
next
  case (2 ms)
  then obtain m where n: "n = Suc m" "weight_members ms \<le> m" by (cases n) auto
  show ?case
  proof (cases "ms = []")
    case True
    then show ?thesis using n by (simp add: skip_ws_head is_ws_def)
  next
    case False
    with 2 n show ?thesis by (simp only: n(1)) (rule read_object, simp_all)
  qed
next
  case (5 v vs)
  then obtain m where n: "n = Suc m" "weight v \<le> m" "weight_elems vs \<le> m" by (cases n) auto
  show ?case
  proof (cases vs)
    case Nil
    then show ?thesis using 5(1,3) n by (simp add: skip_ws_head is_ws_def)
  next
    case (Cons w ws)
    have v: "read_value m (render v @ CHR '','' # render_elems vs @ CHR '']'' # rest)
        = Some (v, CHR '','' # render_elems vs @ CHR '']'' # rest)"
      using 5(1,3) n by simp
    have "read_elems m (render_elems vs @ CHR '']'' # rest) = Some (vs, rest)"
      using 5(2,3) n Cons by simp
    then show ?thesis using v n(1) Cons by (simp add: skip_ws_head is_ws_def)
  qed
next
  case (7 k v ms)
  then obtain m where n: "n = Suc m" "weight v \<le> m" "weight_members ms \<le> m" by (cases n) auto
  have k: "valid_utf8 k" using 7(3) by simp
  have key: "skip_ws (json_string k @ t) = CHR 0x22 # (tl (json_string k) @ t)" for t
    by (subst json_string_head) (simp add: skip_ws_head is_ws_def)
  have colon: "skip_ws (CHR '':'' # t) = CHR '':'' # t" for t by (simp add: skip_ws_head is_ws_def)
  show ?case
  proof (cases ms)
    case Nil
    then show ?thesis
      using 7(1,3) n read_json_string [OF k] by (simp add: key colon skip_ws_head is_ws_def)
  next
    case (Cons w ws)
    have v: "read_value m (render v @ CHR '','' # render_members ms @ CHR ''}'' # rest)
        = Some (v, CHR '','' # render_members ms @ CHR ''}'' # rest)"
      using 7(1,3) n by simp
    have "read_members m (render_members ms @ CHR ''}'' # rest) = Some (ms, rest)"
      using 7(2,3) n Cons by simp
    then show ?thesis
      using v n(1) Cons read_json_string [OF k] by (cases w) (simp add: key colon skip_ws_head is_ws_def)
  qed
qed (auto simp: read_atoms)

lemma read_json_render: "json_wf j \<Longrightarrow> read_json (render j) = Some j"
  using read_render(1) [OF _ weight_render(1), of j "[]"] by (simp add: read_json_def skip_ws_def)

end
