(* ===== verification/DocumentSize.thy ===== *)
theory DocumentSize
  imports Snapshot FloatShortest
begin

text \<open>
  How long the document of \<open>snapshot/snapshot.go\<close> can become. The limits of the kernel on a host
  name (\<open>HOST_NAME_MAX\<close>) and on an interface name (\<open>IFNAMSIZ\<close>), the 64 interfaces and the length of
  a number's text leave every well-formed document below \<open>MaximumSize\<close>, also when each byte of a
  name is escaped and all 203 issues are present.
\<close>

definition HOST_NAME_MAX :: nat where "HOST_NAME_MAX = 64"
definition IFNAMSIZ :: nat where "IFNAMSIZ = 16"

section \<open>Strings\<close>

definition plain_char :: "char \<Rightarrow> bool" where
  "plain_char c \<longleftrightarrow> 32 \<le> byte c \<and> byte c < 127 \<and> byte c \<notin> {34, 38, 60, 62, 92}"

abbreviation (input) plain_text :: "string \<Rightarrow> bool" where
  "plain_text s \<equiv> list_all plain_char s"

lemma escape_plain: "plain_char c \<Longrightarrow> escape_rune (byte c, [c]) = [c]"
  by (simp add: escape_rune_def plain_char_def)

lemma json_string_plain:
  assumes "plain_text s"
  shows "json_string s = CHR 0x22 # s @ [CHR 0x22]"
proof -
  have "concat (map escape_rune (runes s)) = s"
    using assms by (induction s) (simp_all add: escape_plain, simp add: plain_char_def escape_plain)
  then show ?thesis by (simp add: json_string_def)
qed

lemma length_json_plain [simp]: "plain_text s \<Longrightarrow> length (json_string s) = length s + 2"
  by (simp add: json_string_plain)

lemma length_escape: "w \<noteq> [] \<Longrightarrow> length (escape_rune (r, w)) \<le> 6 * length w"
  by (cases w) (auto simp: escape_rune_def)

lemma length_json_string: "length (json_string s) \<le> 6 * length s + 2"
proof -
  have "length (concat (map escape_rune (runes s))) \<le> 6 * length s"
  proof (induction s rule: runes.induct)
    case (1 s)
    show ?case
    proof (cases "s = []")
      case False
      let ?n = "snd (decode_rune s)"
      have n: "1 \<le> ?n" "?n \<le> length s" using decode_rune_width [OF False] by simp_all
      have "length (escape_rune (fst (decode_rune s), take ?n s)) \<le> 6 * length (take ?n s)"
        using n False by (intro length_escape) auto
      then show ?thesis using 1 False n by (subst runes.simps) (simp add: diff_mult_distrib2)
    qed simp
  qed
  then show ?thesis by (simp add: json_string_def)
qed

section \<open>Numbers, objects and arrays\<close>

lemma length_u64: "length (render (json_u64 v)) \<le> 20"
proof (cases v)
  case (Some w)
  have "unat w < 2 ^ 64" using unsigned_less [of w] by simp
  then have "unat w < 10 ^ 20" by simp
  then have "length (dec (unat w)) \<le> 20" by (rule length_dec_le) simp
  with Some show ?thesis by (simp add: json_u64_def json_opt_def)
qed (simp add: json_u64_def json_opt_def)

lemma length_bool: "length (render (json_bool v)) \<le> 5"
  by (simp add: json_bool_def json_opt_def split: option.split)

lemma length_float:
  assumes "json_float v = Inr j" "\<And>x. v = Some x \<Longrightarrow> is_float64 x"
  shows "length (render j) \<le> 26"
proof (cases v)
  case (Some x)
  then obtain s where "format_json_float x = Inr s" "j = JNum s"
    using assms(1) by (cases "format_json_float x") (auto simp: json_float_def)
  then show ?thesis using length_json_float assms(2) [OF Some] by simp
qed (use assms(1) in \<open>auto simp: json_float_def\<close>)

lemma length_members:
  "length (render_members ms)
     \<le> sum_list (map (\<lambda>(k, v). length (json_string k) + length (render v) + 2) ms)"
proof (induction ms)
  case (Cons m ms)
  then show ?case by (cases m; cases ms) auto
qed simp

lemma length_object:
  "length (render (JObj ms))
     \<le> 2 + sum_list (map (\<lambda>(k, v). length (json_string k) + length (render v) + 2) ms)"
  using length_members [of ms] by simp

lemma length_elements:
  "(\<And>v. v \<in> set vs \<Longrightarrow> length (render v) \<le> b) \<Longrightarrow> length (render_elems vs) \<le> length vs * (b + 1)"
proof (induction vs)
  case (Cons v vs)
  have "length (render v) \<le> b" "length (render_elems vs) \<le> length vs * (b + 1)"
    using Cons by auto
  then show ?case by (cases vs) simp_all
qed simp

lemma length_array:
  assumes "\<And>v. v \<in> set vs \<Longrightarrow> length (render v) \<le> b" "length vs \<le> n"
  shows "length (render (JArr vs)) \<le> n * (b + 1) + 2"
proof -
  have "length vs * (b + 1) \<le> n * (b + 1)" using assms(2) by (rule mult_le_mono1)
  then show ?thesis using length_elements [OF assms(1), of vs] by simp
qed

section \<open>The time\<close>

lemma pad_digits: "list_all is_digit (pad w n)"
  by (auto simp: pad_def list_all_iff dest: dec_digits)

lemma year_width:
  assumes "field_ok (pad_int 4 y @ ''-'' @ rest) 0 4 lo hi" "(pad_int 4 y @ ''-'' @ rest) ! 4 = CHR ''-''"
  shows "length (pad_int 4 y) \<le> 4"
proof -
  have "is_digit (hd (go_slice (pad_int 4 y @ ''-'' @ rest) 0 4))"
    using assms(1) by (cases "go_slice (pad_int 4 y @ ''-'' @ rest) 0 4") (auto simp: field_ok_def Let_def)
  then have y: "\<not> y < 0" by (auto simp: pad_int_def go_slice_def is_digit_def)
  show ?thesis
  proof (rule ccontr)
    assume "\<not> length (pad_int 4 y) \<le> 4"
    then have l: "4 < length (pad_int 4 y)" by simp
    then have "pad_int 4 y ! 4 = CHR ''-''" using assms(2) by (simp add: nth_append)
    moreover have "is_digit (pad_int 4 y ! 4)"
      using l y pad_digits [of 4 "nat y"] by (simp add: pad_int_def list_all_length)
    ultimately show False by (simp add: is_digit_def)
  qed
qed

lemma length_dropWhile_rev: "length (rev (dropWhile P (rev s))) \<le> length s"
  by (simp add: length_dropWhile_le [of P "rev s", simplified])

lemma length_rfc3339:
  assumes "parse_rfc3339_ok (format_rfc3339 t)"
  shows "length (format_rfc3339 t) \<le> 30"
proof -
  obtain y dd where yd: "year_day (t div nanos_per_day) = (y, dd)" by (rule prod.exhaust)
  obtain m d where md: "month_day (month_lengths (leap_year y)) 1 dd = (m, d)" by (rule prod.exhaust)
  have dd: "0 \<le> dd" "dd < (if leap_year y then 366 else 365)" using year_day_bounds [OF yd] by simp_all
  have v: "1 \<le> m" "m \<le> 12" "1 \<le> d" "d \<le> 31"
    using month_day_valid [OF dd md] dd md
    by (auto simp: month_lengths_def split: if_splits)
  define n where "n = t mod nanos_per_day"
  define secs where "secs = n div nanos_per_second"
  have n: "0 \<le> n" "n < nanos_per_day" by (simp_all add: n_def nanos_per_day_def nanos_per_second_def)
  then have secs: "0 \<le> secs" "secs < 86400"
    by (simp_all add: secs_def nanos_per_day_def nanos_per_second_def)
  define frac where "frac = trim_zeros (pad 9 (nat (n mod nanos_per_second)))"
  have "nat (n mod nanos_per_second) < 10 ^ 9" by (simp add: nanos_per_second_def nat_less_iff)
  then have "length (pad 9 (nat (n mod nanos_per_second))) = 9" by (rule pad_props) simp
  then have frac: "length frac \<le> 9"
    unfolding frac_def trim_zeros_def by (metis length_dropWhile_rev)
  have two: "length (pad_int 2 k) = 2" if "0 \<le> k" "k < 100" for k
    using that pad_int_props(1) [of k 2] by simp
  let ?rest = "pad_int 2 m @ ''-'' @ pad_int 2 d @ ''T'' @ pad_int 2 (secs div 3600) @ '':''
     @ pad_int 2 (secs div 60 mod 60) @ '':'' @ pad_int 2 (secs mod 60)
     @ (if frac = [] then [] else ''.'' @ frac) @ ''Z''"
  have s: "format_rfc3339 t = pad_int 4 y @ ''-'' @ ?rest"
    by (simp add: format_rfc3339_def civil_def yd md Let_def n_def secs_def frac_def)
  have "length (pad_int 4 y) \<le> 4"
    using assms unfolding s parse_rfc3339_ok_def by (intro year_width) blast+
  moreover have "length ?rest \<le> 25"
    using two v secs frac by auto
  ultimately show ?thesis unfolding s by simp
qed

section \<open>The document\<close>

text \<open>
  What the platform and the coordinator guarantee beyond well-formedness: names within the kernel's
  limits, values of the float type, and messages that are short and plain.
\<close>

definition kernel_sized :: "Snapshot \<Rightarrow> bool" where
  "kernel_sized s \<longleftrightarrow>
     length (Hostname (SnapHost s)) \<le> HOST_NAME_MAX
     \<and> (\<forall>x. UtilizationPercent (SnapCPU s) = Some x \<longrightarrow> is_float64 x)
     \<and> (\<forall>x. OneMinute (SnapLoad s) = Some x \<longrightarrow> is_float64 x)
     \<and> (\<forall>x. FiveMinutes (SnapLoad s) = Some x \<longrightarrow> is_float64 x)
     \<and> (\<forall>x. FifteenMinutes (SnapLoad s) = Some x \<longrightarrow> is_float64 x)
     \<and> (\<forall>x. SoCTemperatureCelsius (SnapRaspberryPi s) = Some x \<longrightarrow> is_float64 x)
     \<and> (\<forall>n. SnapNetwork s = Some n \<longrightarrow>
          (\<forall>i\<in>set (Interfaces n). length (Name i) < IFNAMSIZ \<and> (\<forall>t. State i = Some t \<longrightarrow> length t \<le> 7)))
     \<and> (\<forall>i\<in>set (Issues s). plain_text (Message i) \<and> length (Message i) \<le> 64)"

lemma length_interface:
  assumes "length (Name i) < IFNAMSIZ" "\<And>t. State i = Some t \<Longrightarrow> length t \<le> 7"
  shows "length (render (json_interface i)) \<le> 219"
proof -
  have "length (json_string (Name i)) \<le> 92"
    using length_json_string [of "Name i"] assms(1) by (simp add: IFNAMSIZ_def)
  moreover have "length (render (json_opt JStr (State i))) \<le> 44"
    using length_json_string [of "the (State i)"] assms(2)
    by (fastforce simp: json_opt_def split: option.split)
  ultimately show ?thesis
    using length_u64 [of "RXBytes i"] length_u64 [of "TXBytes i"]
    by (simp add: json_interface_def plain_char_def)
qed

lemma length_memory: "length (render (json_memory m)) \<le> 130"
  using length_u64 [of "TotalBytes m"] length_u64 [of "AvailableBytes m"] length_u64 [of "UsedBytes m"]
  by (simp add: json_memory_def plain_char_def)

lemma plain_digits: "list_all is_digit s \<Longrightarrow> plain_text s"
  by (auto simp: list_all_iff plain_char_def is_digit_def)

lemma interface_path_plain:
  assumes "k < 64" "a \<in> {''state'', ''rx_bytes'', ''tx_bytes''}"
  shows "plain_text (interface_prefix k @ a) \<and> length (interface_prefix k @ a) \<le> 52"
proof -
  have "plain_text (dec k)" by (rule plain_digits) (auto simp: list_all_iff dest: dec_digits)
  moreover have "length (dec k) \<le> 2" using assms(1) by (intro length_dec_le) simp_all
  ultimately show ?thesis using assms(2) by (auto simp: interface_prefix_def plain_char_def)
qed

lemma fixed_paths_plain: "p \<in> set fixed_paths \<Longrightarrow> plain_text p \<and> length p \<le> 52"
  by (auto simp: fixed_paths_def firmware_paths_def plain_char_def)

lemma missing_path_plain:
  assumes "snapshot_wf s" "p \<in> set (missing_paths s)"
  shows "plain_text p \<and> length p \<le> 52"
proof -
  consider "p \<in> set (missing_fixed s)" | "p \<in> set (missing_network (SnapNetwork s))"
    | "p = ''/cpu/utilization_percent''"
    using assms(2) by (auto simp: missing_paths_def path_unless_def split: if_splits)
  then show ?thesis
  proof cases
    case 1
    obtain bs where "missing_fixed s = unless_paths bs fixed_paths" using missing_fixed_unless by blast
    then have "p \<in> set fixed_paths" using 1 set_unless_paths by auto
    then show ?thesis by (rule fixed_paths_plain)
  next
    case 2
    show ?thesis
    proof (cases "SnapNetwork s")
      case None
      then have "p = ''/network''" using 2 by (simp add: missing_network_def)
      then show ?thesis by (simp add: plain_char_def)
    next
      case (Some n)
      then have "length (Interfaces n) \<le> 64"
        using assms(1) by (simp add: snapshot_wf_def network_ok_def maximumSnapshotInterfaces_def)
      moreover from 2 Some have "p \<in> set (missing_interfaces 0 (Interfaces n))"
        by (simp add: missing_network_def)
      then obtain k a where "k < length (Interfaces n)" "p = interface_prefix k @ a"
        "a \<in> {''state'', ''rx_bytes'', ''tx_bytes''}"
        by (elim missing_interfaces_paths) auto
      ultimately show ?thesis using interface_path_plain [of k a] by simp
    qed
  qed (simp add: plain_char_def)
qed

lemma length_issue:
  assumes "plain_text (Path i)" "length (Path i) \<le> 52" "issue_ok i"
    and "plain_text (Message i)" "length (Message i) \<le> 64"
  shows "length (render (json_issue i)) \<le> 174"
proof -
  have "length (json_string (Code i)) \<le> 25"
    using assms(3) by (auto simp: issue_ok_def validIssueCodeText_def plain_char_def)
  then show ?thesis using assms(1,2,4,5) by (simp add: json_issue_def plain_char_def)
qed

lemma length_network:
  assumes "network_ok nw"
    and "\<And>n i. nw = Some n \<Longrightarrow> i \<in> set (Interfaces n) \<Longrightarrow>
      length (Name i) < IFNAMSIZ \<and> (\<forall>t. State i = Some t \<longrightarrow> length t \<le> 7)"
  shows "length (render (json_opt (\<lambda>n. JObj [(''interfaces'', JArr (map json_interface (Interfaces n)))])
    (map_option (\<lambda>n. \<lparr>Interfaces = Interfaces n\<rparr>) nw))) \<le> 14100"
proof (cases nw)
  case (Some n)
  have "length (render (JArr (map json_interface (Interfaces n)))) \<le> 64 * (219 + 1) + 2"
    using assms Some
    by (intro length_array) (auto intro!: length_interface simp: network_ok_def maximumSnapshotInterfaces_def)
  with Some show ?thesis by (simp add: json_opt_def plain_char_def)
qed (simp add: json_opt_def)

lemma length_issues:
  assumes "snapshot_wf s" "issues_match s" "kernel_sized s"
  shows "length (render (JArr (map json_issue (Issues s)))) \<le> 35527"
proof -
  have paths: "map Path (Issues s) = missing_paths s" and ok: "\<forall>i\<in>set (Issues s). issue_ok i"
    using assms(2) by (simp_all add: issues_match_def)
  have "length (missing_paths s) \<le> 203"
    using assms(1) by (intro length_missing_paths) (simp add: snapshot_wf_def)
  then have len: "length (Issues s) \<le> 203" using paths by (metis length_map)
  have "length (render (json_issue i)) \<le> 174" if i: "i \<in> set (Issues s)" for i
  proof -
    have "Path i \<in> set (missing_paths s)" using i unfolding paths [symmetric] by simp
    then show ?thesis
      using missing_path_plain [OF assms(1)] i ok assms(3)
      by (intro length_issue) (auto simp: kernel_sized_def)
  qed
  then have "length (render (JArr (map json_issue (Issues s)))) \<le> 203 * (174 + 1) + 2"
    using len by (intro length_array) auto
  then show ?thesis by simp
qed

text \<open>The members of the document, whatever their values.\<close>

lemma length_members_11:
  "length (render (JObj
     [(''schema_version'', v1), (''observed_at'', v2), (''host'', v3), (''cpu'', v4), (''load'', v5),
      (''memory'', v6), (''root_filesystem'', v7), (''uptime_seconds'', v8), (''network'', v9),
      (''raspberry_pi'', v10), (''issues'', v11)]))
   \<le> 250 + length (render v1) + length (render v2) + length (render v3) + length (render v4)
       + length (render v5) + length (render v6) + length (render v7) + length (render v8)
       + length (render v9) + length (render v10) + length (render v11)"
  by (simp add: plain_char_def)

text \<open>The document, given the texts of its five floats.\<close>

definition document_with :: "wireDocument \<Rightarrow> json \<Rightarrow> json \<Rightarrow> json \<Rightarrow> json \<Rightarrow> json \<Rightarrow> json" where
  "document_with d util l1 l5 l15 temp =
     JObj
       [(''schema_version'', JStr (wireSchemaVersion d)),
        (''observed_at'', JStr (wireObservedAt d)),
        (''host'', JObj [(''hostname'', JStr (Hostname (wireHost d)))]),
        (''cpu'', JObj [(''utilization_percent'', util),
                        (''logical_cpu_count'', json_u64 (LogicalCPUCount (wireCPU d)))]),
        (''load'', JObj [(''one_minute'', l1), (''five_minutes'', l5), (''fifteen_minutes'', l15)]),
        (''memory'', json_memory (wireMemory d)),
        (''root_filesystem'', json_memory (wireRootFilesystem d)),
        (''uptime_seconds'', json_u64 (wireUptimeSeconds d)),
        (''network'', json_opt (\<lambda>n. JObj [(''interfaces'', JArr (map json_interface (Interfaces n)))])
                        (wireNetwork d)),
        (''raspberry_pi'', JObj
           [(''soc_temperature_celsius'', temp),
            (''thermal_throttling_active'', json_bool (ThermalThrottlingActive (wireRaspberryPi d))),
            (''thermal_throttling_occurred_since_boot'',
               json_bool (ThermalThrottlingOccurredSinceBoot (wireRaspberryPi d))),
            (''undervoltage_active'', json_bool (UndervoltageActive (wireRaspberryPi d))),
            (''undervoltage_occurred_since_boot'',
               json_bool (UndervoltageOccurredSinceBoot (wireRaspberryPi d)))]),
        (''issues'', JArr (map json_issue (wireIssues d)))]"

lemma document_json_with:
  assumes "document_json d = Inr j"
  obtains util l1 l5 l15 temp where "j = document_with d util l1 l5 l15 temp"
    "json_float (UtilizationPercent (wireCPU d)) = Inr util"
    "json_float (OneMinute (wireLoad d)) = Inr l1" "json_float (FiveMinutes (wireLoad d)) = Inr l5"
    "json_float (FifteenMinutes (wireLoad d)) = Inr l15"
    "json_float (SoCTemperatureCelsius (wireRaspberryPi d)) = Inr temp"
  using assms by (auto simp: document_json_def document_with_def Let_def go_bind_Inr_iff)

lemma wire_of_floats:
  "wireCPU (wire_of s\<lparr>wireIssues := is\<rparr>) = SnapCPU s"
  "wireLoad (wire_of s\<lparr>wireIssues := is\<rparr>) = SnapLoad s"
  "wireRaspberryPi (wire_of s\<lparr>wireIssues := is\<rparr>) = SnapRaspberryPi s"
  by (simp_all add: wire_of_def)

lemma length_flags:
  assumes "length (render temp) \<le> 26"
  shows "length (render (JObj
    [(''soc_temperature_celsius'', temp),
     (''thermal_throttling_active'', json_bool (ThermalThrottlingActive r)),
     (''thermal_throttling_occurred_since_boot'', json_bool (ThermalThrottlingOccurredSinceBoot r)),
     (''undervoltage_active'', json_bool (UndervoltageActive r)),
     (''undervoltage_occurred_since_boot'', json_bool (UndervoltageOccurredSinceBoot r))])) \<le> 220"
  using assms length_bool [of "ThermalThrottlingActive r"]
    length_bool [of "ThermalThrottlingOccurredSinceBoot r"] length_bool [of "UndervoltageActive r"]
    length_bool [of "UndervoltageOccurredSinceBoot r"]
  by (simp add: plain_char_def)

lemma document_length:
  assumes "snapshot_wf s" "issues_match s" "kernel_sized s"
    and "document_json (wire_of s\<lparr>wireIssues := Issues s\<rparr>) = Inr j"
  shows "length (render j) \<le> MaximumSize"
proof -
  obtain util l1 l5 l15 temp where
    j: "j = document_with (wire_of s\<lparr>wireIssues := Issues s\<rparr>) util l1 l5 l15 temp"
    and f: "json_float (UtilizationPercent (SnapCPU s)) = Inr util"
    "json_float (OneMinute (SnapLoad s)) = Inr l1" "json_float (FiveMinutes (SnapLoad s)) = Inr l5"
    "json_float (FifteenMinutes (SnapLoad s)) = Inr l15"
    "json_float (SoCTemperatureCelsius (SnapRaspberryPi s)) = Inr temp"
    by (rule document_json_with [OF assms(4), unfolded wire_of_floats])
  have floats: "length (render util) \<le> 26" "length (render l1) \<le> 26" "length (render l5) \<le> 26"
    "length (render l15) \<le> 26" "length (render temp) \<le> 26"
    using length_float [OF f(1)] length_float [OF f(2)] length_float [OF f(3)] length_float [OF f(4)]
      length_float [OF f(5)] assms(3) unfolding kernel_sized_def by blast+
  have "length (format_rfc3339 (ObservedAt s)) \<le> 30"
    using assms(1) by (intro length_rfc3339) (simp add: snapshot_wf_def)
  then have time: "length (render (JStr (format_rfc3339 (ObservedAt s)))) \<le> 182"
    using length_json_string [of "format_rfc3339 (ObservedAt s)"] by simp
  have host: "length (render (JObj [(''hostname'', JStr (Hostname (SnapHost s)))])) \<le> 400"
    using length_json_string [of "Hostname (SnapHost s)"] assms(3)
    by (simp add: kernel_sized_def HOST_NAME_MAX_def plain_char_def)
  have network: "length (render (json_opt (\<lambda>n. JObj [(''interfaces'',
      JArr (map json_interface (Interfaces n)))])
      (map_option (\<lambda>n. \<lparr>Interfaces = Interfaces n\<rparr>) (SnapNetwork s)))) \<le> 14100"
    using assms(1,3) by (intro length_network) (auto simp: snapshot_wf_def kernel_sized_def)
  have cpu: "length (render (JObj [(''utilization_percent'', util),
      (''logical_cpu_count'', json_u64 (LogicalCPUCount (SnapCPU s)))])) \<le> 100"
    using floats(1) length_u64 [of "LogicalCPUCount (SnapCPU s)"] by (simp add: plain_char_def)
  have load: "length (render (JObj [(''one_minute'', l1), (''five_minutes'', l5),
      (''fifteen_minutes'', l15)])) \<le> 140"
    using floats by (simp add: plain_char_def)
  have schema: "length (render (JStr SchemaVersionText)) \<le> 5"
    by (simp add: SchemaVersionText_def plain_char_def)
  show ?thesis
    unfolding j document_with_def MaximumSize_def
    by (rule order_trans [OF length_members_11], unfold wire_of_def wireDocument.simps)
      (use schema time host cpu load length_memory [of "SnapMemory s"]
         length_memory [of "SnapRootFilesystem s"] length_u64 [of "UptimeSeconds s"] network
         length_flags [OF floats(5), of "SnapRaspberryPi s"] length_issues [OF assms(1-3)]
       in linarith)
qed

text \<open>So the bound of the encoder is never reached.\<close>

lemma kernel_sized_fits:
  assumes "snapshot_wf s" "issues_match s" "kernel_sized s"
  shows "encodes_within s"
proof -
  obtain j where j: "document_json (wire_of s\<lparr>wireIssues := Issues s\<rparr>) = Inr j"
    using document_json_wf [OF assms(1)] .
  then show ?thesis
    using document_length [OF assms j] by (simp add: encodes_within_def marshal_def)
qed

end
