(* ===== verification/DocumentReader.thy ===== *)
theory DocumentReader
  imports JsonReader DocumentSize "HOL-Library.Monad_Syntax"
begin

text \<open>
  What a consumer gets from the document of \<open>snapshot/snapshot.go\<close>. Read as JSON it has the schema of
  \<open>docs/http-api-v0.1.md\<close>: the documented names in order, each with its type and nullability. Read
  field by field it gives back every value of the snapshot: integers exactly, floats to the bit.
\<close>

section \<open>Number texts\<close>

lemma takeWhile_digits:
  "list_all is_digit s \<Longrightarrow> r = [] \<or> \<not> is_digit (hd r) \<Longrightarrow> takeWhile is_digit (s @ r) = s \<and> dropWhile is_digit (s @ r) = r"
  by (cases r) (auto simp: list_all_iff)

lemma number_decimal:
  assumes "int_text i" "list_all is_digit f" "exp_text ex" "ex = [] \<or> \<not> is_digit (hd ex)"
    "ex = [] \<or> hd ex \<noteq> CHR ''.''"
  shows "number_text ((if neg then ''-'' else []) @ i @ point_text f @ ex)"
proof -
  have i: "i \<noteq> []" "list_all is_digit i" using assms(1) by (auto simp: int_text_def digits_text_def)
  then have "hd i \<noteq> CHR ''-''" by (cases i) (auto simp: is_digit_def)
  then have neg: "(let s = (if neg then ''-'' else []) @ i @ point_text f @ ex
      in if s \<noteq> [] \<and> hd s = CHR ''-'' then tl s else s) = i @ point_text f @ ex"
    using i(1) by (cases neg) (auto simp: Let_def)
  have rest: "point_text f @ ex = [] \<or> \<not> is_digit (hd (point_text f @ ex))"
    using assms(4) by (auto simp: point_text_def is_digit_def)
  have "frac_exp_text (point_text f @ ex)"
  proof (cases "f = []")
    case True
    then show ?thesis using assms(3,5) by (cases ex) (auto simp: point_text_def frac_exp_text_def)
  next
    case False
    then show ?thesis
      using assms(2-4) takeWhile_digits [OF assms(2,4)]
      by (simp add: point_text_def frac_exp_text_def digits_text_def)
  qed
  then show ?thesis
    using takeWhile_digits [OF i(2) rest] assms(1) neg unfolding number_text_def Let_def by simp
qed

lemma int_text_dec: "int_text (dec n)"
proof (cases "n = 0")
  case True
  then show ?thesis by (simp add: int_text_def digits_text_def dec.simps [of 0] digit_char_eval is_digit_def)
next
  case False
  then show ?thesis
    using hd_dec [of n] by (auto simp: int_text_def digits_text_def list_all_iff dest: dec_digits)
qed

lemma number_text_dec: "number_text (dec n)"
  using number_decimal [OF int_text_dec, of "[]" "[]" False n] by (simp add: point_text_def exp_text_def)

lemma exp_text_exponent: "exp_text (exponent_text e)"
  by (auto simp: exp_text_def exponent_text_def lower_def digits_text_def list_all_iff dest: dec_digits)

lemma number_text_body:
  assumes "0 < r" "round_raw r = r"
  shows "number_text ((if neg then ''-'' else []) @ float_body r)"
proof -
  obtain ds dp where ds: "shortest_digits r = (ds, dp)" by (rule prod.exhaust)
  note d = shortest_digits_ok [OF assms(1,2) ds]
  show ?thesis
  proof (cases "r < 1 / 10 ^ 6 \<or> 10 ^ 21 \<le> r")
    case True
    have "int_text (take 1 ds)" "list_all is_digit (drop 1 ds)"
      using d(2,6,7) by (cases ds; auto simp: int_text_def digits_text_def)+
    from number_decimal [OF this exp_text_exponent, of "dp - 1" neg]
    have "number_text ((if neg then ''-'' else []) @ format_exp ds dp)"
      unfolding format_exp_text [OF d(2)] by (simp add: exponent_text_def is_digit_def)
    then show ?thesis using True ds by (simp add: float_body_def)
  next
    case False
    obtain i f where f: "format_fixed ds dp = i @ point_text f" "i \<noteq> []" "list_all is_digit i"
      "list_all is_digit f" "hd i = CHR ''0'' \<longrightarrow> i = ''0''"
      using format_fixed_text [OF d(2,6,7)] by metis
    then have "int_text i" by (simp add: int_text_def digits_text_def)
    from number_decimal [OF this f(4), of "[]" neg]
    have "number_text ((if neg then ''-'' else []) @ format_fixed ds dp)"
      unfolding f(1) by (simp add: exp_text_def)
    then show ?thesis using False ds by (simp add: float_body_def)
  qed
qed

lemma number_text_zero: "number_text ''0''" "number_text ''-0''"
  by (simp_all add: number_text_def int_text_def digits_text_def frac_exp_text_def is_digit_def)

lemma number_text_float:
  assumes "is_float64 x" "format_json_float x = Inr s"
  shows "number_text s"
proof (cases x)
  case (Fin r)
  show ?thesis
  proof (cases "r = 0")
    case True
    then show ?thesis using assms(2) Fin number_text_zero by (auto simp: format_json_float_def)
  next
    case False
    then show ?thesis
      using assms Fin format_json_float_Fin [OF False] number_text_body [of "\<bar>r\<bar>" "r < 0"]
      by (auto simp: is_float64_def)
  qed
next
  case NegZero
  then show ?thesis using assms(2) number_text_zero by (auto simp: format_json_float_def)
qed (use assms(2) in \<open>auto simp: format_json_float_def\<close>)

section \<open>The documented schema\<close>

datatype schema =
    SString
  | SInteger
  | SNumber
  | SBoolean
  | SNullable schema
  | SArray schema
  | SObject "(string \<times> schema) list"

fun conforms :: "schema \<Rightarrow> json \<Rightarrow> bool"
and conforms_members :: "(string \<times> schema) list \<Rightarrow> (string \<times> json) list \<Rightarrow> bool" where
  "conforms SString j = (case j of JStr s \<Rightarrow> True | _ \<Rightarrow> False)"
| "conforms SInteger j = (case j of JNum t \<Rightarrow> int_text t | _ \<Rightarrow> False)"
| "conforms SNumber j = (case j of JNum t \<Rightarrow> number_text t | _ \<Rightarrow> False)"
| "conforms SBoolean j = (case j of JBool b \<Rightarrow> True | _ \<Rightarrow> False)"
| "conforms (SNullable s) j = (j = JNull \<or> conforms s j)"
| "conforms (SArray s) j = (case j of JArr vs \<Rightarrow> list_all (conforms s) vs | _ \<Rightarrow> False)"
| "conforms (SObject fs) j = (case j of JObj ms \<Rightarrow> conforms_members fs ms | _ \<Rightarrow> False)"
| "conforms_members [] ms = (ms = [])"
| "conforms_members ((k, s) # fs) ms =
     (case ms of [] \<Rightarrow> False | (k', v) # ms' \<Rightarrow> k' = k \<and> conforms s v \<and> conforms_members fs ms')"

definition bytesSchema :: schema where
  "bytesSchema =
     SObject [(''total_bytes'', SNullable SInteger), (''available_bytes'', SNullable SInteger),
              (''used_bytes'', SNullable SInteger)]"

definition interfaceSchema :: schema where
  "interfaceSchema =
     SObject [(''name'', SString), (''state'', SNullable SString),
              (''rx_bytes'', SNullable SInteger), (''tx_bytes'', SNullable SInteger)]"

definition issueSchema :: schema where
  "issueSchema = SObject [(''path'', SString), (''code'', SString), (''message'', SString)]"

definition documentSchema :: schema where
  "documentSchema =
     SObject
       [(''schema_version'', SString),
        (''observed_at'', SString),
        (''host'', SObject [(''hostname'', SString)]),
        (''cpu'', SObject [(''utilization_percent'', SNullable SNumber),
                           (''logical_cpu_count'', SNullable SInteger)]),
        (''load'', SObject [(''one_minute'', SNullable SNumber), (''five_minutes'', SNullable SNumber),
                            (''fifteen_minutes'', SNullable SNumber)]),
        (''memory'', bytesSchema),
        (''root_filesystem'', bytesSchema),
        (''uptime_seconds'', SNullable SInteger),
        (''network'', SNullable (SObject [(''interfaces'', SArray interfaceSchema)])),
        (''raspberry_pi'', SObject
           [(''soc_temperature_celsius'', SNullable SNumber),
            (''thermal_throttling_active'', SNullable SBoolean),
            (''thermal_throttling_occurred_since_boot'', SNullable SBoolean),
            (''undervoltage_active'', SNullable SBoolean),
            (''undervoltage_occurred_since_boot'', SNullable SBoolean)]),
        (''issues'', SArray issueSchema)]"

section \<open>The document is a JSON text of the schema\<close>

text \<open>The floats of a snapshot are values of the type.\<close>

definition snapshot_floats :: "Snapshot \<Rightarrow> bool" where
  "snapshot_floats s \<longleftrightarrow>
     (\<forall>x. UtilizationPercent (SnapCPU s) = Some x \<longrightarrow> is_float64 x)
     \<and> (\<forall>x. OneMinute (SnapLoad s) = Some x \<longrightarrow> is_float64 x)
     \<and> (\<forall>x. FiveMinutes (SnapLoad s) = Some x \<longrightarrow> is_float64 x)
     \<and> (\<forall>x. FifteenMinutes (SnapLoad s) = Some x \<longrightarrow> is_float64 x)
     \<and> (\<forall>x. SoCTemperatureCelsius (SnapRaspberryPi s) = Some x \<longrightarrow> is_float64 x)"

lemma valid_plain: "plain_text s \<Longrightarrow> valid_utf8 s"
  by (rule valid_utf8_ascii) (auto simp: list_all_iff plain_char_def)

lemma pad_int_plain_text: "plain_text (pad_int w n)"
  using pad_digits [THEN plain_digits] by (simp add: pad_int_def plain_char_def)

lemma rfc3339_plain: "plain_text (format_rfc3339 t)"
proof -
  have "list_all is_digit (trim_zeros (pad 9 n))" for n by (rule list_all_trim_zeros [OF pad_digits])
  then have "plain_text (trim_zeros (pad 9 n))" for n by (rule plain_digits)
  then show ?thesis
    by (auto simp: format_rfc3339_def Let_def plain_char_def pad_int_plain_text split: prod.split)
qed

lemma json_float_number:
  assumes "json_float v = Inr j" "\<And>x. v = Some x \<Longrightarrow> is_float64 x"
  shows "conforms (SNullable SNumber) j \<and> json_wf j"
proof (cases v)
  case (Some x)
  then obtain s where "format_json_float x = Inr s" "j = JNum s"
    using assms(1) by (cases "format_json_float x") (auto simp: json_float_def)
  then show ?thesis using number_text_float assms(2) [OF Some] by simp
qed (use assms(1) in \<open>auto simp: json_float_def\<close>)

lemma json_u64_number [simp]: "conforms (SNullable SInteger) (json_u64 v)" "json_wf (json_u64 v)"
  by (simp_all add: json_u64_def json_opt_def int_text_dec number_text_dec split: option.split)

lemma json_bool_boolean [simp]: "conforms (SNullable SBoolean) (json_bool v)" "json_wf (json_bool v)"
  by (simp_all add: json_bool_def json_opt_def split: option.split)

lemma json_memory_bytes [simp]: "conforms bytesSchema (json_memory m)" "json_wf (json_memory m)"
  using json_u64_number by (simp_all add: json_memory_def bytesSchema_def valid_utf8_ascii del: conforms.simps(5))

lemma json_state:
  "(\<And>t. v = Some t \<Longrightarrow> valid_utf8 t) \<Longrightarrow>
   conforms (SNullable SString) (json_opt JStr v) \<and> json_wf (json_opt JStr v)"
  by (cases v) (simp_all add: json_opt_def)

lemma json_interface_conforms:
  assumes "interface_ok i"
  shows "conforms interfaceSchema (json_interface i) \<and> json_wf (json_interface i)"
proof -
  have "valid_utf8 (Name i)" "\<And>t. State i = Some t \<Longrightarrow> valid_utf8 t"
    using assms by (auto simp: interface_ok_def)
  then show ?thesis
    using json_state [of "State i"]
    by (simp add: json_interface_def interfaceSchema_def del: conforms.simps(5))
qed

lemma json_issue_conforms:
  "valid_utf8 (Path i) \<Longrightarrow> issue_ok i \<Longrightarrow>
   conforms issueSchema (json_issue i) \<and> json_wf (json_issue i)"
  by (auto simp: json_issue_def issueSchema_def issue_ok_def validIssueCodeText_def valid_utf8_ascii)

lemma json_network_conforms:
  assumes "network_ok nw"
  defines "j \<equiv> json_opt (\<lambda>n. JObj [(''interfaces'', JArr (map json_interface (Interfaces n)))])
      (map_option (\<lambda>n. \<lparr>Interfaces = Interfaces n\<rparr>) nw)"
  shows "conforms (SNullable (SObject [(''interfaces'', SArray interfaceSchema)])) j \<and> json_wf j"
proof (cases nw)
  case (Some n)
  then have "\<forall>i\<in>set (Interfaces n). interface_ok i" using assms(1) by (simp add: network_ok_def)
  then show ?thesis
    using Some json_interface_conforms by (simp add: j_def json_opt_def list_all_iff)
qed (simp add: j_def json_opt_def)

lemma document_with_conforms:
  assumes "snapshot_wf s" "issues_match s"
    and "\<And>f. f \<in> {util, l1, l5, l15, temp} \<Longrightarrow> conforms (SNullable SNumber) f \<and> json_wf f"
  shows "conforms documentSchema (document_with (wire_of s\<lparr>wireIssues := Issues s\<rparr>) util l1 l5 l15 temp)
    \<and> json_wf (document_with (wire_of s\<lparr>wireIssues := Issues s\<rparr>) util l1 l5 l15 temp)"
proof -
  have f: "conforms (SNullable SNumber) util" "json_wf util" "conforms (SNullable SNumber) l1" "json_wf l1"
    "conforms (SNullable SNumber) l5" "json_wf l5" "conforms (SNullable SNumber) l15" "json_wf l15"
    "conforms (SNullable SNumber) temp" "json_wf temp"
    using assms(3) by simp_all
  have host: "valid_utf8 (Hostname (SnapHost s))" and nw: "network_ok (SnapNetwork s)"
    using assms(1) by (simp_all add: snapshot_wf_def)
  have "conforms issueSchema (json_issue i) \<and> json_wf (json_issue i)" if "i \<in> set (Issues s)" for i
  proof (rule json_issue_conforms)
    have "Path i \<in> set (missing_paths s)"
      using that assms(2) by (metis image_eqI issues_match_def list.set_map)
    then show "valid_utf8 (Path i)" using missing_path_plain [OF assms(1)] valid_plain by blast
    show "issue_ok i" using that assms(2) by (simp add: issues_match_def)
  qed
  then have issues: "conforms (SArray issueSchema) (JArr (map json_issue (Issues s)))"
    "json_wf (JArr (map json_issue (Issues s)))"
    by (simp_all add: list_all_iff)
  note network = json_network_conforms [OF nw]
  show ?thesis
    unfolding document_with_def documentSchema_def wire_of_def wireDocument.simps
    using f host network issues valid_plain [OF rfc3339_plain [of "ObservedAt s"]]
    by (simp add: valid_utf8_ascii SchemaVersionText_def del: conforms.simps(5,6) json_wf.simps(3))
qed

lemma encoded_document:
  assumes "Encode s = Inr e" "snapshot_floats s"
  obtains j where "document_json (wire_of s\<lparr>wireIssues := Issues s\<rparr>) = Inr j"
    "encoded_body e = render j" "conforms documentSchema j" "json_wf j"
proof -
  note ok = Encode_Inr_D [OF assms(1)]
  obtain j where j: "document_json (wire_of s\<lparr>wireIssues := Issues s\<rparr>) = Inr j"
    "encoded_body e = render j"
    using ok(4) by (cases "document_json (wire_of s\<lparr>wireIssues := Issues s\<rparr>)") (auto simp: marshal_def)
  obtain util l1 l5 l15 temp where
    w: "j = document_with (wire_of s\<lparr>wireIssues := Issues s\<rparr>) util l1 l5 l15 temp"
    and f: "json_float (UtilizationPercent (SnapCPU s)) = Inr util"
    "json_float (OneMinute (SnapLoad s)) = Inr l1" "json_float (FiveMinutes (SnapLoad s)) = Inr l5"
    "json_float (FifteenMinutes (SnapLoad s)) = Inr l15"
    "json_float (SoCTemperatureCelsius (SnapRaspberryPi s)) = Inr temp"
    by (rule document_json_with [OF j(1), unfolded wire_of_floats])
  have "conforms (SNullable SNumber) x \<and> json_wf x" if "x \<in> {util, l1, l5, l15, temp}" for x
    using that json_float_number [OF f(1)] json_float_number [OF f(2)] json_float_number [OF f(3)]
      json_float_number [OF f(4)] json_float_number [OF f(5)] assms(2)
    unfolding snapshot_floats_def by blast
  from document_with_conforms [OF ok(1,2) this] j show thesis using that unfolding w by blast
qed

lemma encode_reads_json:
  assumes "Encode s = Inr e" "snapshot_floats s"
  shows "\<exists>j. read_json (encoded_body e) = Some j \<and> conforms documentSchema j"
proof -
  obtain j where "encoded_body e = render j" "conforms documentSchema j" "json_wf j"
    using encoded_document [OF assms] .
  then show ?thesis using read_json_render [of j] by auto
qed

section \<open>A consumer's view\<close>

text \<open>The value at a path of member names, and the Go values of JSON values.\<close>

fun pointer :: "string list \<Rightarrow> json \<Rightarrow> json option" where
  "pointer [] j = Some j"
| "pointer (k # ks) j =
     (case j of JObj ms \<Rightarrow> Option.bind (map_of ms k) (pointer ks) | _ \<Rightarrow> None)"

definition field :: "string list \<Rightarrow> (json \<Rightarrow> 'a option) \<Rightarrow> json \<Rightarrow> 'a option" where
  "field path get j = Option.bind (pointer path j) get"

definition get_string :: "json \<Rightarrow> string option" where
  "get_string j = (case j of JStr s \<Rightarrow> Some s | _ \<Rightarrow> None)"

definition get_bool :: "json \<Rightarrow> bool option" where
  "get_bool j = (case j of JBool b \<Rightarrow> Some b | _ \<Rightarrow> None)"

definition get_u64 :: "json \<Rightarrow> u64 option" where
  "get_u64 j =
     (case j of
        JNum t \<Rightarrow> (case parse_uint 10 64 t of Inl e \<Rightarrow> None | Inr n \<Rightarrow> Some (of_nat n))
      | _ \<Rightarrow> None)"

definition get_float :: "json \<Rightarrow> float64 option" where
  "get_float j =
     (case j of JNum t \<Rightarrow> (case parse_float t of Inl e \<Rightarrow> None | Inr x \<Rightarrow> Some x) | _ \<Rightarrow> None)"

definition nullable :: "(json \<Rightarrow> 'a option) \<Rightarrow> json \<Rightarrow> 'a option option" where
  "nullable get j = (if j = JNull then Some None else map_option Some (get j))"

fun get_all :: "(json \<Rightarrow> 'a option) \<Rightarrow> json list \<Rightarrow> 'a list option" where
  "get_all get [] = Some []"
| "get_all get (v # vs) = do { x \<leftarrow> get v; xs \<leftarrow> get_all get vs; Some (x # xs) }"

definition get_list :: "(json \<Rightarrow> 'a option) \<Rightarrow> json \<Rightarrow> 'a list option" where
  "get_list get j = (case j of JArr vs \<Rightarrow> get_all get vs | _ \<Rightarrow> None)"

definition get_memory :: "json \<Rightarrow> Memory option" where
  "get_memory j = do {
     tot \<leftarrow> field [''total_bytes''] (nullable get_u64) j;
     available \<leftarrow> field [''available_bytes''] (nullable get_u64) j;
     used \<leftarrow> field [''used_bytes''] (nullable get_u64) j;
     Some \<lparr>TotalBytes = tot, AvailableBytes = available, UsedBytes = used\<rparr> }"

definition get_interface :: "json \<Rightarrow> NetworkInterface option" where
  "get_interface j = do {
     n \<leftarrow> field [''name''] get_string j;
     st \<leftarrow> field [''state''] (nullable get_string) j;
     rx \<leftarrow> field [''rx_bytes''] (nullable get_u64) j;
     tx \<leftarrow> field [''tx_bytes''] (nullable get_u64) j;
     Some \<lparr>Name = n, State = st, RXBytes = rx, TXBytes = tx\<rparr> }"

definition get_network :: "json \<Rightarrow> Network option" where
  "get_network j = do {
     is \<leftarrow> field [''interfaces''] (get_list get_interface) j;
     Some \<lparr>Interfaces = is\<rparr> }"

definition get_issue :: "json \<Rightarrow> Issue option" where
  "get_issue j = do {
     p \<leftarrow> field [''path''] get_string j;
     c \<leftarrow> field [''code''] get_string j;
     m \<leftarrow> field [''message''] get_string j;
     Some \<lparr>Path = p, Code = c, Message = m\<rparr> }"

definition get_raspberryPi :: "json \<Rightarrow> RaspberryPi option" where
  "get_raspberryPi j = do {
     t \<leftarrow> field [''soc_temperature_celsius''] (nullable get_float) j;
     ta \<leftarrow> field [''thermal_throttling_active''] (nullable get_bool) j;
     tb \<leftarrow> field [''thermal_throttling_occurred_since_boot''] (nullable get_bool) j;
     ua \<leftarrow> field [''undervoltage_active''] (nullable get_bool) j;
     ub \<leftarrow> field [''undervoltage_occurred_since_boot''] (nullable get_bool) j;
     Some \<lparr>SoCTemperatureCelsius = t, ThermalThrottlingActive = ta,
           ThermalThrottlingOccurredSinceBoot = tb, UndervoltageActive = ua,
           UndervoltageOccurredSinceBoot = ub\<rparr> }"

definition get_document :: "json \<Rightarrow> wireDocument option" where
  "get_document j = do {
     version \<leftarrow> field [''schema_version''] get_string j;
     observed \<leftarrow> field [''observed_at''] get_string j;
     hostname \<leftarrow> field [''host'', ''hostname''] get_string j;
     util \<leftarrow> field [''cpu'', ''utilization_percent''] (nullable get_float) j;
     count \<leftarrow> field [''cpu'', ''logical_cpu_count''] (nullable get_u64) j;
     l1 \<leftarrow> field [''load'', ''one_minute''] (nullable get_float) j;
     l5 \<leftarrow> field [''load'', ''five_minutes''] (nullable get_float) j;
     l15 \<leftarrow> field [''load'', ''fifteen_minutes''] (nullable get_float) j;
     mem \<leftarrow> field [''memory''] get_memory j;
     fs \<leftarrow> field [''root_filesystem''] get_memory j;
     uptime \<leftarrow> field [''uptime_seconds''] (nullable get_u64) j;
     network \<leftarrow> field [''network''] (nullable get_network) j;
     pi \<leftarrow> field [''raspberry_pi''] get_raspberryPi j;
     issues \<leftarrow> field [''issues''] (get_list get_issue) j;
     Some \<lparr>wireSchemaVersion = version, wireObservedAt = observed,
           wireHost = \<lparr>Hostname = hostname\<rparr>,
           wireCPU = \<lparr>UtilizationPercent = util, LogicalCPUCount = count\<rparr>,
           wireLoad = \<lparr>OneMinute = l1, FiveMinutes = l5, FifteenMinutes = l15\<rparr>,
           wireMemory = mem, wireRootFilesystem = fs, wireUptimeSeconds = uptime,
           wireNetwork = network, wireRaspberryPi = pi, wireIssues = issues\<rparr> }"

section \<open>Every value comes back\<close>

lemma field_simps' [simp]:
  "field [k] get (JObj ms) = Option.bind (map_of ms k) get"
  "field (k # l # ks) get (JObj ms) = Option.bind (map_of ms k) (field (l # ks) get)"
  by (auto simp: field_def split: Option.bind_split)

lemma get_u64_back [simp]: "nullable get_u64 (json_u64 v) = Some v"
proof (cases v)
  case (Some w)
  have "unat w < 2 ^ 64" using unsigned_less [of w] by simp
  then show ?thesis using Some by (simp add: nullable_def json_u64_def json_opt_def get_u64_def)
qed (simp add: nullable_def json_u64_def json_opt_def)

lemma get_bool_back [simp]: "nullable get_bool (json_bool v) = Some v"
  by (cases v) (simp_all add: nullable_def json_bool_def json_opt_def get_bool_def)

lemma get_state_back [simp]: "nullable get_string (json_opt JStr v) = Some v"
  by (cases v) (simp_all add: nullable_def json_opt_def get_string_def)

lemma get_float_back:
  assumes "json_float v = Inr j" "\<And>x. v = Some x \<Longrightarrow> is_float64 x"
  shows "nullable get_float j = Some v"
proof (cases v)
  case (Some x)
  then obtain s where s: "format_json_float x = Inr s" "j = JNum s"
    using assms(1) by (cases "format_json_float x") (auto simp: json_float_def)
  then show ?thesis
    using parse_format_json_float [OF assms(2) [OF Some] s(1)] Some
    by (simp add: nullable_def get_float_def)
qed (use assms(1) in \<open>auto simp: json_float_def nullable_def\<close>)

lemma get_string_back [simp]: "get_string (JStr s) = Some s"
  by (simp add: get_string_def)

lemma get_all_back: "(\<And>x. x \<in> set xs \<Longrightarrow> get (f x) = Some x) \<Longrightarrow> get_all get (map f xs) = Some xs"
  by (induction xs) auto

lemma get_memory_back [simp]: "get_memory (json_memory m) = Some m"
  by (simp add: get_memory_def json_memory_def)

lemma get_interface_back [simp]: "get_interface (json_interface i) = Some i"
  by (simp add: get_interface_def json_interface_def)

lemma get_issue_back [simp]: "get_issue (json_issue i) = Some i"
  by (simp add: get_issue_def json_issue_def)

lemma get_network_back [simp]:
  "nullable get_network (json_opt (\<lambda>n. JObj [(''interfaces'', JArr (map json_interface (Interfaces n)))]) nw)
     = Some nw"
  by (cases nw) (simp_all add: nullable_def json_opt_def get_network_def get_list_def get_all_back)

lemma get_document_back:
  assumes "nullable get_float util = Some (UtilizationPercent (wireCPU d))"
    and "nullable get_float l1 = Some (OneMinute (wireLoad d))"
    and "nullable get_float l5 = Some (FiveMinutes (wireLoad d))"
    and "nullable get_float l15 = Some (FifteenMinutes (wireLoad d))"
    and "nullable get_float temp = Some (SoCTemperatureCelsius (wireRaspberryPi d))"
  shows "get_document (document_with d util l1 l5 l15 temp) = Some d"
  using assms
  by (simp add: get_document_def document_with_def get_raspberryPi_def get_list_def get_all_back)

section \<open>Properties\<close>

text \<open>
  C4 (encoded_schema): whatever the encoder accepts, the bytes it returns are a JSON text of the
  documented schema: the documented names in the documented order, integers as decimal tokens without
  leading zeros, numbers, strings, and null exactly where a field is nullable.
\<close>

theorem encoded_schema:
  assumes "Encode s = Inr e" "snapshot_floats s"
  shows "\<exists>j. read_json (encoded_body e) = Some j \<and> conforms documentSchema j"
  using assms by (rule encode_reads_json)

text \<open>
  C5 (document_reads_back): a consumer that reads the document field by field gets every value of the
  snapshot back: the escaped strings, the integers of all 64 bits, each float to the last bit, the
  interfaces and the issues in order, and null for what is missing.
\<close>

theorem document_reads_back:
  assumes "Encode s = Inr e" "snapshot_floats s"
  shows "\<exists>j. read_json (encoded_body e) = Some j
    \<and> get_document j = Some (wire_of s\<lparr>wireIssues := Issues s\<rparr>)"
proof -
  let ?d = "wire_of s\<lparr>wireIssues := Issues s\<rparr>"
  obtain j where j: "document_json ?d = Inr j" "encoded_body e = render j" "json_wf j"
    using encoded_document [OF assms] .
  obtain util l1 l5 l15 temp where
    w: "j = document_with ?d util l1 l5 l15 temp"
    and f: "json_float (UtilizationPercent (wireCPU ?d)) = Inr util"
    "json_float (OneMinute (wireLoad ?d)) = Inr l1" "json_float (FiveMinutes (wireLoad ?d)) = Inr l5"
    "json_float (FifteenMinutes (wireLoad ?d)) = Inr l15"
    "json_float (SoCTemperatureCelsius (wireRaspberryPi ?d)) = Inr temp"
    by (rule document_json_with [OF j(1)])
  note floats = assms(2) [unfolded snapshot_floats_def]
  have "get_document j = Some ?d"
    unfolding w
    by (rule get_document_back; rule get_float_back)
      (rule f, use floats in \<open>simp add: wire_of_floats\<close>)+
  then show ?thesis using read_json_render [OF j(3)] j(2) by auto
qed

lemma example_snapshot_floats: "snapshot_floats example_snapshot"
  using is_float64_of_nat [of 50]
  by (simp add: snapshot_floats_def example_snapshot_def)

theorem encoded_schema_witness:
  "\<exists>e j. Encode example_snapshot = Inr e \<and> read_json (encoded_body e) = Some j
     \<and> conforms documentSchema j"
  using example_encodes encoded_schema [OF _ example_snapshot_floats] by blast

theorem document_reads_back_witness:
  "\<exists>e j. Encode example_snapshot = Inr e \<and> read_json (encoded_body e) = Some j
     \<and> get_document j = Some (wire_of example_snapshot\<lparr>wireIssues := Issues example_snapshot\<rparr>)"
  using example_encodes document_reads_back [OF _ example_snapshot_floats] by blast

end
