(* ===== verification/Coordinator.thy ===== *)
theory Coordinator
  imports Validators Cpu Degradation DocumentSize
begin

text \<open>
  \<open>internal/observe/coordinator.go\<close> without its validators (\<open>Validators.thy\<close>): one collection
  cycle over the seven domains with its deadlines, the assembly of the snapshot and of the
  degradation events, and the coordinator that runs one cycle at a time and fails once.
  Contexts, collectors, clocks, the reporter and the encoder are arguments: a context is the
  sequence of its answers to \<open>Err()\<close>.
\<close>

section \<open>Observations of a cycle\<close>

definition errCollectionDeadline :: goerror where
  "errCollectionDeadline = New ''collection deadline expired''"

record cycleObservations =
  cy_host :: hostObservation
  cy_cpuLoad :: cpuLoadObservation
  cy_memory :: "memoryObservation outcome"
  cy_root :: "filesystemObservation outcome"
  cy_raspberryPi :: raspberryPiObservation
  cy_network :: "networkObservation outcome"
  cy_cpuUtilization :: "float64 outcome"

definition unavailableCycle :: "goerror option \<Rightarrow> cycleObservations" where
  "unavailableCycle cause =
     \<lparr>cy_host = \<lparr>host_hostname = unavailable reasonTemporarilyUnavailable cause,
                 host_uptime = unavailable reasonTemporarilyUnavailable cause\<rparr>,
      cy_cpuLoad = \<lparr>cl_logicalCPUCount = unavailable reasonTemporarilyUnavailable cause,
                    cl_topologySignature = [],
                    cl_load = unavailable reasonTemporarilyUnavailable cause\<rparr>,
      cy_memory = unavailable reasonTemporarilyUnavailable cause,
      cy_root = unavailable reasonTemporarilyUnavailable cause,
      cy_raspberryPi = \<lparr>rpi_temperature = unavailable reasonTemporarilyUnavailable cause,
                        rpi_firmware = unavailable reasonTemporarilyUnavailable cause\<rparr>,
      cy_network = unavailable reasonTemporarilyUnavailable cause,
      cy_cpuUtilization = unavailable reasonTemporarilyUnavailable cause\<rparr>"

definition copyCPU :: "cpuPublication outcome \<times> int \<Rightarrow> cpuLoadObservation \<Rightarrow> float64 outcome" where
  "copyCPU latest topology =
     (let (publication, now) = latest
      in case validateOutcome publication of
           Some e \<Rightarrow> defect (Some e)
         | None \<Rightarrow>
             if o_state publication \<noteq> statePresent
             then \<lparr>o_state = o_state publication, o_value = 0, o_reason = o_reason publication,
                   o_cause = o_cause publication\<rparr>
             else let v = o_value publication; u = pub_utilizationPercent v;
                      age = now - pub_sampledAt v
                  in if is_NaN u \<or> is_Inf u \<or> f_less u (Fin 0) \<or> f_less (Fin 100) u
                        \<or> topology_count (pub_topology v) = 0
                        \<or> topology_signature (pub_topology v) = []
                     then defect (Some (New ''CPU publication is internally inconsistent''))
                     else if age < 0
                     then defect (Some (New ''CPU publication is from the future''))
                     else if age > maximumPublicationAge
                     then unavailable reasonTemporarilyUnavailable
                            (Some (New ''CPU publication is stale''))
                     else if o_state (cl_logicalCPUCount topology) \<noteq> statePresent
                        \<or> o_value (cl_logicalCPUCount topology) \<noteq> topology_count (pub_topology v)
                        \<or> cl_topologySignature topology \<noteq> topology_signature (pub_topology v)
                     then unavailable reasonTemporarilyUnavailable
                            (Some (New ''CPU publication topology does not match the collection cycle''))
                     else present u)"

text \<open>The provider used when no CPU observer was configured.\<close>

definition unavailableCPULatest :: "cpuPublication outcome \<times> int" where
  "unavailableCPULatest =
     (unavailable reasonTemporarilyUnavailable (Some (New ''CPU observer is unavailable'')), 0)"

section \<open>Assembling the snapshot\<close>

definition appendUnavailableIssue :: "Issue list \<Rightarrow> string \<Rightarrow> u8 \<Rightarrow> Issue list call" where
  "appendUnavailableIssue issues path reason =
     (if reason = reasonUnsupported then
        Return (issues @ [\<lparr>Path = path, Code = IssueUnsupported,
                           Message = ''The metric is unsupported on this platform.''\<rparr>])
      else if reason = reasonPermissionDenied then
        Return (issues @ [\<lparr>Path = path, Code = IssuePermissionDenied,
                           Message = ''The metric is not accessible to the service account.''\<rparr>])
      else if reason = reasonTemporarilyUnavailable then
        Return (issues @ [\<lparr>Path = path, Code = IssueTemporarilyUnavailable,
                           Message = ''The metric is temporarily unavailable.''\<rparr>])
      else Panic (New ''invalid availability reason''))"

definition setValue ::
    "'a option \<Rightarrow> 'a outcome \<Rightarrow> string \<Rightarrow> Issue list \<Rightarrow> ('a option \<times> Issue list) call" where
  "setValue target result path issues =
     (if o_state result = statePresent then Return (Some (o_value result), issues)
      else call_bind (appendUnavailableIssue issues path (o_reason result))
             (\<lambda>issues'. Return (target, issues')))"

definition setLoad :: "loadObservation outcome \<Rightarrow> Snapshot \<Rightarrow> Snapshot call" where
  "setLoad result document =
     (if o_state result = statePresent
      then Return (document\<lparr>SnapLoad :=
             \<lparr>OneMinute = Some (load_oneMinute (o_value result)),
              FiveMinutes = Some (load_fiveMinutes (o_value result)),
              FifteenMinutes = Some (load_fifteenMinutes (o_value result))\<rparr>\<rparr>)
      else call_bind (appendUnavailableIssue (Issues document) ''/load'' (o_reason result))
             (\<lambda>issues. Return (document\<lparr>Issues := issues\<rparr>)))"

definition setMemory ::
    "Memory \<Rightarrow> memoryObservation outcome \<Rightarrow> string \<Rightarrow> Issue list \<Rightarrow> (Memory \<times> Issue list) call" where
  "setMemory target result path issues =
     (if o_state result = statePresent
      then Return (\<lparr>TotalBytes = Some (mem_totalBytes (o_value result)),
                    AvailableBytes = Some (mem_availableBytes (o_value result)),
                    UsedBytes = Some (mem_usedBytes (o_value result))\<rparr>, issues)
      else call_bind (appendUnavailableIssue issues path (o_reason result))
             (\<lambda>issues'. Return (target, issues')))"

definition setRootFilesystem ::
    "RootFilesystem \<Rightarrow> filesystemObservation outcome \<Rightarrow> string \<Rightarrow> Issue list
     \<Rightarrow> (RootFilesystem \<times> Issue list) call" where
  "setRootFilesystem target result path issues =
     (if o_state result = statePresent
      then Return (\<lparr>TotalBytes = Some (mem_totalBytes (o_value result)),
                    AvailableBytes = Some (mem_availableBytes (o_value result)),
                    UsedBytes = Some (mem_usedBytes (o_value result))\<rparr>, issues)
      else call_bind (appendUnavailableIssue issues path (o_reason result))
             (\<lambda>issues'. Return (target, issues')))"

text \<open>The loop over the paths of the firmware flags.\<close>

fun appendUnavailableIssues :: "Issue list \<Rightarrow> string list \<Rightarrow> u8 \<Rightarrow> Issue list call" where
  "appendUnavailableIssues issues [] reason = Return issues"
| "appendUnavailableIssues issues (p # ps) reason =
     call_bind (appendUnavailableIssue issues p reason)
       (\<lambda>issues'. appendUnavailableIssues issues' ps reason)"

definition setFirmware :: "firmwareHealth outcome \<Rightarrow> Snapshot \<Rightarrow> Snapshot call" where
  "setFirmware result document =
     (let paths = [''/raspberry_pi/thermal_throttling_active'',
                   ''/raspberry_pi/thermal_throttling_occurred_since_boot'',
                   ''/raspberry_pi/undervoltage_active'',
                   ''/raspberry_pi/undervoltage_occurred_since_boot'']
      in if o_state result \<noteq> statePresent
         then call_bind (appendUnavailableIssues (Issues document) paths (o_reason result))
                (\<lambda>issues. Return (document\<lparr>Issues := issues\<rparr>))
         else let v = o_value result
              in Return (document\<lparr>SnapRaspberryPi := (SnapRaspberryPi document)
                   \<lparr>ThermalThrottlingActive := Some (fh_thermalThrottlingActive v),
                    ThermalThrottlingOccurredSinceBoot := Some (fh_thermalThrottlingOccurredSinceBoot v),
                    UndervoltageActive := Some (fh_undervoltageActive v),
                    UndervoltageOccurredSinceBoot := Some (fh_undervoltageOccurredSinceBoot v)\<rparr>\<rparr>))"

text \<open>The loop over the observed interfaces, from \<open>index\<close> on.\<close>

fun setInterfaces ::
    "nat \<Rightarrow> networkInterfaceObservation list \<Rightarrow> Issue list \<Rightarrow> (NetworkInterface list \<times> Issue list) call"
where
  "setInterfaces index [] issues = Return ([], issues)"
| "setInterfaces index (n # ns) issues =
     (let prefix = interface_prefix index
      in call_bind (setValue None (ifo_state n) (prefix @ ''state'') issues) (\<lambda>(st, issues).
         call_bind (setValue None (ifo_rxBytes n) (prefix @ ''rx_bytes'') issues) (\<lambda>(rx, issues).
         call_bind (setValue None (ifo_txBytes n) (prefix @ ''tx_bytes'') issues) (\<lambda>(tx, issues).
         call_bind (setInterfaces (Suc index) ns issues) (\<lambda>(rest, issues).
           Return (\<lparr>Name = ifo_name n, State = st, RXBytes = rx, TXBytes = tx\<rparr> # rest, issues))))))"

definition setNetwork :: "networkObservation outcome \<Rightarrow> Snapshot \<Rightarrow> Snapshot call" where
  "setNetwork result document =
     (if o_state result \<noteq> statePresent
      then call_bind (appendUnavailableIssue (Issues document) ''/network'' (o_reason result))
             (\<lambda>issues. Return (document\<lparr>Issues := issues\<rparr>))
      else call_bind (setInterfaces 0 (obs_interfaces (o_value result)) (Issues document))
             (\<lambda>(interfaces, issues).
               Return (document\<lparr>SnapNetwork := Some \<lparr>Interfaces = interfaces\<rparr>, Issues := issues\<rparr>)))"

text \<open>The zero value of the snapshot, and the part of \<open>finalize\<close> that fills it.\<close>

definition emptySnapshot :: Snapshot where
  "emptySnapshot =
     \<lparr>ObservedAt = 0, SnapHost = \<lparr>Hostname = []\<rparr>,
      SnapCPU = \<lparr>UtilizationPercent = None, LogicalCPUCount = None\<rparr>,
      SnapLoad = \<lparr>OneMinute = None, FiveMinutes = None, FifteenMinutes = None\<rparr>,
      SnapMemory = \<lparr>TotalBytes = None, AvailableBytes = None, UsedBytes = None\<rparr>,
      SnapRootFilesystem = \<lparr>TotalBytes = None, AvailableBytes = None, UsedBytes = None\<rparr>,
      UptimeSeconds = None, SnapNetwork = None,
      SnapRaspberryPi =
        \<lparr>SoCTemperatureCelsius = None, ThermalThrottlingActive = None,
         ThermalThrottlingOccurredSinceBoot = None, UndervoltageActive = None,
         UndervoltageOccurredSinceBoot = None\<rparr>,
      Issues = []\<rparr>"

definition fillDocument :: "cycleObservations \<Rightarrow> Snapshot call" where
  "fillDocument ob =
     (let d = (if o_state (host_hostname (cy_host ob)) = statePresent
               then emptySnapshot\<lparr>SnapHost := \<lparr>Hostname = o_value (host_hostname (cy_host ob))\<rparr>\<rparr>
               else emptySnapshot)
      in call_bind (setValue (UptimeSeconds d) (host_uptime (cy_host ob)) ''/uptime_seconds'' (Issues d))
           (\<lambda>(v, issues). let d = d\<lparr>UptimeSeconds := v, Issues := issues\<rparr> in
         call_bind (setValue (LogicalCPUCount (SnapCPU d)) (cl_logicalCPUCount (cy_cpuLoad ob))
                      ''/cpu/logical_cpu_count'' (Issues d))
           (\<lambda>(v, issues). let d = d\<lparr>SnapCPU := (SnapCPU d)\<lparr>LogicalCPUCount := v\<rparr>, Issues := issues\<rparr> in
         call_bind (setLoad (cl_load (cy_cpuLoad ob)) d) (\<lambda>d.
         call_bind (setMemory (SnapMemory d) (cy_memory ob) ''/memory'' (Issues d))
           (\<lambda>(m, issues). let d = d\<lparr>SnapMemory := m, Issues := issues\<rparr> in
         call_bind (setRootFilesystem (SnapRootFilesystem d) (cy_root ob) ''/root_filesystem'' (Issues d))
           (\<lambda>(m, issues). let d = d\<lparr>SnapRootFilesystem := m, Issues := issues\<rparr> in
         call_bind (setValue (SoCTemperatureCelsius (SnapRaspberryPi d))
                      (rpi_temperature (cy_raspberryPi ob)) ''/raspberry_pi/soc_temperature_celsius''
                      (Issues d))
           (\<lambda>(v, issues). let d = d\<lparr>SnapRaspberryPi := (SnapRaspberryPi d)\<lparr>SoCTemperatureCelsius := v\<rparr>,
                                   Issues := issues\<rparr> in
         call_bind (setFirmware (rpi_firmware (cy_raspberryPi ob)) d) (\<lambda>d.
         call_bind (setNetwork (cy_network ob) d) (\<lambda>d.
         call_bind (setValue (UtilizationPercent (SnapCPU d)) (cy_cpuUtilization ob)
                      ''/cpu/utilization_percent'' (Issues d))
           (\<lambda>(v, issues).
              Return (d\<lparr>SnapCPU := (SnapCPU d)\<lparr>UtilizationPercent := v\<rparr>, Issues := issues\<rparr>)))))))))))"

text \<open>The degradation events of \<open>finalize\<close>: the hostname first, then the issues in order.\<close>

definition degradationEvents :: "hostObservation \<Rightarrow> Issue list \<Rightarrow> degradationEvent list call" where
  "degradationEvents host issues =
     (let events = map (\<lambda>i. \<lparr>ev_metric = Path i, ev_reason = Code i\<rparr>) issues
      in if o_state (host_hostname host) \<noteq> statePresent
         then call_bind (degradationCode (o_reason (host_hostname host)))
                (\<lambda>code. Return (\<lparr>ev_metric = ''/host/hostname'', ev_reason = code\<rparr> # events))
         else Return events)"

type_synonym 'r reportFunction =
  "'r \<Rightarrow> degradationEvent list \<Rightarrow> 'r \<times> DegradationRecord list \<times> goerror option"

type_synonym 'r cycleResult = "('r \<times> DegradationRecord list \<times> Encoded go) call"

definition finalize ::
    "(Snapshot \<Rightarrow> Encoded go) \<Rightarrow> 'r reportFunction \<Rightarrow> gotime \<Rightarrow> 'r \<Rightarrow> cycleObservations
     \<Rightarrow> 'r cycleResult" where
  "finalize enc report now r ob =
     call_bind (fillDocument ob) (\<lambda>document.
     call_bind (degradationEvents (cy_host ob) (Issues document)) (\<lambda>events.
       if o_state (host_hostname (cy_host ob)) \<noteq> statePresent
       then (case report r events of
               (r', out, Some e) \<Rightarrow>
                 Return (r', out, Inl (internalDefect (Some (Wrapf ''report degradation: %w'' [] e))))
             | (r', out, None) \<Rightarrow> Return (r', out, Inl ErrNoUsefulSnapshot))
       else
         (let result = enc (document\<lparr>ObservedAt := now\<rparr>)
          in if (case result of Inr v \<Rightarrow> True | Inl e \<Rightarrow> errors_is e ErrNoUsefulSnapshot)
             then (case report r events of
                     (r', out, Some e) \<Rightarrow>
                       Return (r', out,
                         Inl (internalDefect (Some (Wrapf ''report degradation: %w'' [] e))))
                   | (r', out, None) \<Rightarrow> Return (r', out, result))
             else (case result of
                     Inl e \<Rightarrow> Return (r, [],
                       Inl (internalDefect (Some (Wrapf ''finalize snapshot: %w'' [] e))))
                   | Inr v \<Rightarrow> Return (r, [], result)))))"

section \<open>One collection cycle\<close>

text \<open>The collectors of a cycle, as what each call does when it is made.\<close>

record cycleCollectors =
  CollectHost :: "hostObservation call"
  CollectCPULoad :: "cpuLoadObservation call"
  CollectMemory :: "memoryObservation outcome call"
  CollectRootFilesystem :: "filesystemObservation outcome call"
  CollectRaspberryPi :: "raspberryPiObservation call"
  CollectNetwork :: "networkObservation outcome call"

text \<open>
  The answers of the contexts of a cycle: \<open>lifecycle.Err()\<close> and \<open>cycleContext.Err()\<close> before the
  domain of a number, and \<open>domainContext.Err()\<close> after its collector returned.
\<close>

record cycleContexts =
  ctx_lifecycle :: "nat \<Rightarrow> goerror option"
  ctx_cycle :: "nat \<Rightarrow> goerror option"
  ctx_domain :: "nat \<Rightarrow> goerror option"

definition runDomain :: "'a call \<Rightarrow> goerror option \<Rightarrow> ('a \<times> bool) call" where
  "runDomain collector domainErr = call_bind collector (\<lambda>v. Return (v, domainErr \<noteq> None))"

text \<open>
  One domain: the lifecycle is polled, then unless the cycle has expired the collector runs, its
  value is validated even when its own deadline has passed, and kept only when it has not.
\<close>

definition collectDomain ::
    "cycleContexts \<Rightarrow> nat \<Rightarrow> 'a call \<Rightarrow> ('a \<Rightarrow> goerror option)
     \<Rightarrow> ('a \<Rightarrow> cycleObservations \<Rightarrow> cycleObservations) \<Rightarrow> cycleObservations
     \<Rightarrow> (cycleObservations go) call" where
  "collectDomain c i collector validate store ob =
     (case ctx_lifecycle c i of
        Some e \<Rightarrow> Return (Inl e)
      | None \<Rightarrow>
          if ctx_cycle c i \<noteq> None then Return (Inr ob)
          else call_bind (runDomain collector (ctx_domain c i)) (\<lambda>(v, expired).
                 case validate v of
                   Some e \<Rightarrow> Return (Inl (internalDefect (Some e)))
                 | None \<Rightarrow> Return (Inr (if expired then ob else store v ob))))"

text \<open>The first domain runs without a poll of the cycle's context.\<close>

definition collectHostDomain ::
    "cycleContexts \<Rightarrow> hostObservation call \<Rightarrow> cycleObservations \<Rightarrow> (cycleObservations go) call" where
  "collectHostDomain c collector ob =
     collectDomain (c\<lparr>ctx_cycle := (ctx_cycle c)(0 := None)\<rparr>) 0 collector validateHost
       (\<lambda>v ob. ob\<lparr>cy_host := v\<rparr>) ob"

definition collectObservations ::
    "cycleContexts \<Rightarrow> cycleCollectors \<Rightarrow> cpuPublication outcome \<times> int
     \<Rightarrow> (cycleObservations go) call" where
  "collectObservations c cc latest =
     io_bind (collectHostDomain c (CollectHost cc) (unavailableCycle (Some errCollectionDeadline))) (\<lambda>ob.
     io_bind (collectDomain c 1 (CollectCPULoad cc) validateCPULoad
                (\<lambda>v ob. ob\<lparr>cy_cpuLoad := v\<rparr>) ob) (\<lambda>ob.
     io_bind (collectDomain c 2 (CollectMemory cc) validateMemoryOutcome
                (\<lambda>v ob. ob\<lparr>cy_memory := v\<rparr>) ob) (\<lambda>ob.
     io_bind (collectDomain c 3 (CollectRootFilesystem cc) validateFilesystemOutcome
                (\<lambda>v ob. ob\<lparr>cy_root := v\<rparr>) ob) (\<lambda>ob.
     io_bind (collectDomain c 4 (CollectRaspberryPi cc) validateRaspberryPi
                (\<lambda>v ob. ob\<lparr>cy_raspberryPi := v\<rparr>) ob) (\<lambda>ob.
     io_bind (collectDomain c 5 (CollectNetwork cc) validateNetwork
                (\<lambda>v ob. ob\<lparr>cy_network := v\<rparr>) ob) (\<lambda>ob.
       case ctx_lifecycle c 6 of
         Some e \<Rightarrow> Return (Inl e)
       | None \<Rightarrow>
           (let util = copyCPU latest (cy_cpuLoad ob)
            in case validateOutcome util of
                 Some e \<Rightarrow> Return (Inl (internalDefect
                             (Some (Wrapf ''CPU utilization publication: %w'' [] e))))
               | None \<Rightarrow> Return (Inr (ob\<lparr>cy_cpuUtilization := util\<rparr>)))))))))"

definition collect ::
    "(Snapshot \<Rightarrow> Encoded go) \<Rightarrow> 'r reportFunction \<Rightarrow> gotime \<Rightarrow> cycleContexts \<Rightarrow> cycleCollectors
     \<Rightarrow> cpuPublication outcome \<times> int \<Rightarrow> 'r \<Rightarrow> 'r cycleResult" where
  "collect enc report now c cc latest r =
     call_bind (collectObservations c cc latest) (\<lambda>result.
       case result of Inl e \<Rightarrow> Return (r, [], Inl e) | Inr ob \<Rightarrow> finalize enc report now r ob)"

text \<open>The body of \<open>run\<close>: a panic of the cycle is an internal defect.\<close>

definition cycleOutcome :: "'r \<Rightarrow> 'r cycleResult \<Rightarrow> 'r \<times> DegradationRecord list \<times> Encoded go" where
  "cycleOutcome r result =
     (case result of
        Panic e \<Rightarrow> (r, [], Inl (internalDefect (Some (Formatv ''collection cycle panic: %v'' e))))
      | Return v \<Rightarrow> v)"

text \<open>The production collectors over the sources and the firmware provider's answer.\<close>

definition productionCollectors ::
    "(nat \<Rightarrow> goerror option) \<Rightarrow> genericSource \<Rightarrow> Link list go \<Rightarrow> raspberryPiObservation
     \<Rightarrow> cycleCollectors" where
  "productionCollectors ctxErr src links raspberryPi =
     \<lparr>CollectHost = Return (collectHost (ctxErr 0) src),
      CollectCPULoad = Return (collectCPULoad (ctxErr 1) src),
      CollectMemory = Return (collectMemory (ctxErr 2) src),
      CollectRootFilesystem = Return (collectRootFilesystem (ctxErr 3) src),
      CollectRaspberryPi = Return raspberryPi,
      CollectNetwork = the (collectNetwork (ctxErr 5) links)\<rparr>"

section \<open>What assembling a valid cycle gives\<close>

definition cycle_ok :: "cycleObservations \<Rightarrow> bool" where
  "cycle_ok ob \<longleftrightarrow>
     host_ok (cy_host ob) \<and> cpuLoad_ok (cy_cpuLoad ob) \<and> memory_outcome_ok (cy_memory ob)
     \<and> memory_outcome_ok (cy_root ob) \<and> raspberryPi_ok (cy_raspberryPi ob)
     \<and> network_observation_ok (cy_network ob)
     \<and> valid_outcome (cy_cpuUtilization ob)
     \<and> (is_present (cy_cpuUtilization ob) \<longrightarrow> percentage (o_value (cy_cpuUtilization ob)))"

definition value_of :: "'a outcome \<Rightarrow> 'a option" where
  "value_of v = (if is_present v then Some (o_value v) else None)"

definition reason_issue :: "string \<Rightarrow> u8 \<Rightarrow> Issue" where
  "reason_issue path reason =
     (if reason = reasonUnsupported
      then \<lparr>Path = path, Code = IssueUnsupported,
            Message = ''The metric is unsupported on this platform.''\<rparr>
      else if reason = reasonPermissionDenied
      then \<lparr>Path = path, Code = IssuePermissionDenied,
            Message = ''The metric is not accessible to the service account.''\<rparr>
      else \<lparr>Path = path, Code = IssueTemporarilyUnavailable,
            Message = ''The metric is temporarily unavailable.''\<rparr>)"

definition issues_of :: "'a outcome \<Rightarrow> string list \<Rightarrow> Issue list" where
  "issues_of v paths = (if is_present v then [] else map (\<lambda>p. reason_issue p (o_reason v)) paths)"

lemma append_issue:
  "known_reason r \<Longrightarrow> appendUnavailableIssue is p r = Return (is @ [reason_issue p r])"
  by (auto simp: appendUnavailableIssue_def reason_issue_def known_reason_def)

lemma append_issues:
  "known_reason r \<Longrightarrow>
   appendUnavailableIssues is ps r = Return (is @ map (\<lambda>p. reason_issue p r) ps)"
  by (induction ps arbitrary: "is") (simp_all add: append_issue)

lemma outcome_reason: "valid_outcome v \<Longrightarrow> \<not> is_present v \<Longrightarrow> known_reason (o_reason v)"
  by (simp add: valid_outcome_not_present is_present_def)

lemma present_state: "o_state v = statePresent \<longleftrightarrow> is_present v"
  by (simp add: is_present_def)

lemma setValue_valid:
  "valid_outcome v \<Longrightarrow> setValue None v p is = Return (value_of v, is @ issues_of v [p])"
  by (simp add: setValue_def present_state value_of_def issues_of_def append_issue outcome_reason)

definition observed_interface :: "networkInterfaceObservation \<Rightarrow> NetworkInterface" where
  "observed_interface n =
     \<lparr>Name = ifo_name n, State = value_of (ifo_state n), RXBytes = value_of (ifo_rxBytes n),
      TXBytes = value_of (ifo_txBytes n)\<rparr>"

fun interface_issues :: "nat \<Rightarrow> networkInterfaceObservation list \<Rightarrow> Issue list" where
  "interface_issues i [] = []"
| "interface_issues i (n # ns) =
     issues_of (ifo_state n) [interface_prefix i @ ''state'']
     @ issues_of (ifo_rxBytes n) [interface_prefix i @ ''rx_bytes'']
     @ issues_of (ifo_txBytes n) [interface_prefix i @ ''tx_bytes'']
     @ interface_issues (Suc i) ns"

lemma setInterfaces_valid:
  "\<forall>n\<in>set ns. interface_observation_ok n \<Longrightarrow>
   setInterfaces i ns is = Return (map observed_interface ns, is @ interface_issues i ns)"
proof (induction ns arbitrary: i "is")
  case Nil
  then show ?case by simp
next
  case (Cons n ns)
  have "valid_outcome (ifo_state n)" "valid_outcome (ifo_rxBytes n)" "valid_outcome (ifo_txBytes n)"
    using Cons.prems by (simp_all add: interface_observation_ok_def)
  moreover have "setInterfaces (Suc i) ns is' =
      Return (map observed_interface ns, is' @ interface_issues (Suc i) ns)" for is'
    using Cons by simp
  ultimately show ?case by (simp add: setValue_valid Let_def observed_interface_def)
qed

definition memory_of :: "memoryObservation outcome \<Rightarrow> Memory" where
  "memory_of v =
     \<lparr>TotalBytes = map_option mem_totalBytes (value_of v),
      AvailableBytes = map_option mem_availableBytes (value_of v),
      UsedBytes = map_option mem_usedBytes (value_of v)\<rparr>"

definition load_of :: "loadObservation outcome \<Rightarrow> Load" where
  "load_of v =
     \<lparr>OneMinute = map_option load_oneMinute (value_of v),
      FiveMinutes = map_option load_fiveMinutes (value_of v),
      FifteenMinutes = map_option load_fifteenMinutes (value_of v)\<rparr>"

definition raspberryPi_of :: "raspberryPiObservation \<Rightarrow> RaspberryPi" where
  "raspberryPi_of v =
     \<lparr>SoCTemperatureCelsius = value_of (rpi_temperature v),
      ThermalThrottlingActive = map_option fh_thermalThrottlingActive (value_of (rpi_firmware v)),
      ThermalThrottlingOccurredSinceBoot =
        map_option fh_thermalThrottlingOccurredSinceBoot (value_of (rpi_firmware v)),
      UndervoltageActive = map_option fh_undervoltageActive (value_of (rpi_firmware v)),
      UndervoltageOccurredSinceBoot =
        map_option fh_undervoltageOccurredSinceBoot (value_of (rpi_firmware v))\<rparr>"

definition network_of :: "networkObservation outcome \<Rightarrow> Network option" where
  "network_of v = map_option (\<lambda>n. \<lparr>Interfaces = map observed_interface (obs_interfaces n)\<rparr>) (value_of v)"

definition network_issues :: "networkObservation outcome \<Rightarrow> Issue list" where
  "network_issues v =
     (if is_present v then interface_issues 0 (obs_interfaces (o_value v))
      else issues_of v [''/network''])"

definition assembled :: "cycleObservations \<Rightarrow> Snapshot" where
  "assembled ob =
     \<lparr>ObservedAt = 0,
      SnapHost = \<lparr>Hostname = (if is_present (host_hostname (cy_host ob))
                              then o_value (host_hostname (cy_host ob)) else [])\<rparr>,
      SnapCPU = \<lparr>UtilizationPercent = value_of (cy_cpuUtilization ob),
                 LogicalCPUCount = value_of (cl_logicalCPUCount (cy_cpuLoad ob))\<rparr>,
      SnapLoad = load_of (cl_load (cy_cpuLoad ob)),
      SnapMemory = memory_of (cy_memory ob), SnapRootFilesystem = memory_of (cy_root ob),
      UptimeSeconds = value_of (host_uptime (cy_host ob)),
      SnapNetwork = network_of (cy_network ob),
      SnapRaspberryPi = raspberryPi_of (cy_raspberryPi ob),
      Issues =
        issues_of (host_uptime (cy_host ob)) [''/uptime_seconds'']
        @ issues_of (cl_logicalCPUCount (cy_cpuLoad ob)) [''/cpu/logical_cpu_count'']
        @ issues_of (cl_load (cy_cpuLoad ob)) [''/load'']
        @ issues_of (cy_memory ob) [''/memory'']
        @ issues_of (cy_root ob) [''/root_filesystem'']
        @ issues_of (rpi_temperature (cy_raspberryPi ob)) [''/raspberry_pi/soc_temperature_celsius'']
        @ issues_of (rpi_firmware (cy_raspberryPi ob)) firmware_paths
        @ network_issues (cy_network ob)
        @ issues_of (cy_cpuUtilization ob) [''/cpu/utilization_percent'']\<rparr>"

lemma setLoad_valid:
  "valid_outcome v \<Longrightarrow> SnapLoad d = \<lparr>OneMinute = None, FiveMinutes = None, FifteenMinutes = None\<rparr> \<Longrightarrow>
   setLoad v d = Return (d\<lparr>SnapLoad := load_of v, Issues := Issues d @ issues_of v [''/load'']\<rparr>)"
  by (cases "is_present v")
    (simp_all add: setLoad_def present_state load_of_def value_of_def issues_of_def append_issue
      outcome_reason)

lemma setMemory_valid:
  assumes "valid_outcome v"
  shows "setMemory \<lparr>TotalBytes = None, AvailableBytes = None, UsedBytes = None\<rparr> v p is =
           Return (memory_of v, is @ issues_of v [p])"
    and "setRootFilesystem \<lparr>TotalBytes = None, AvailableBytes = None, UsedBytes = None\<rparr> v p is =
           Return (memory_of v, is @ issues_of v [p])"
  using assms
  by (cases "is_present v"; simp add: setMemory_def setRootFilesystem_def present_state
      memory_of_def value_of_def issues_of_def append_issue outcome_reason)+

lemma setFirmware_valid:
  assumes "valid_outcome (rpi_firmware v)"
    and "SnapRaspberryPi d =
       \<lparr>SoCTemperatureCelsius = value_of (rpi_temperature v), ThermalThrottlingActive = None,
        ThermalThrottlingOccurredSinceBoot = None, UndervoltageActive = None,
        UndervoltageOccurredSinceBoot = None\<rparr>"
  shows "setFirmware (rpi_firmware v) d =
     Return (d\<lparr>SnapRaspberryPi := raspberryPi_of v,
               Issues := Issues d @ issues_of (rpi_firmware v) firmware_paths\<rparr>)"
  using assms
  by (cases "is_present (rpi_firmware v)")
    (simp_all add: setFirmware_def present_state raspberryPi_of_def value_of_def issues_of_def
      append_issues outcome_reason firmware_paths_def Let_def)

lemma setNetwork_valid:
  assumes "network_observation_ok v" "SnapNetwork d = None"
  shows "setNetwork v d =
     Return (d\<lparr>SnapNetwork := network_of v, Issues := Issues d @ network_issues v\<rparr>)"
  using assms
  by (cases "is_present v")
    (simp_all add: setNetwork_def present_state network_of_def value_of_def network_issues_def
      issues_of_def append_issue outcome_reason network_observation_ok_def setInterfaces_valid)

lemma fillDocument_valid:
  assumes "cycle_ok ob"
  shows "fillDocument ob = Return (assembled ob)"
proof -
  have v: "valid_outcome (host_uptime (cy_host ob))" "valid_outcome (cl_logicalCPUCount (cy_cpuLoad ob))"
    "valid_outcome (cl_load (cy_cpuLoad ob))" "valid_outcome (cy_memory ob)" "valid_outcome (cy_root ob)"
    "valid_outcome (rpi_temperature (cy_raspberryPi ob))" "valid_outcome (rpi_firmware (cy_raspberryPi ob))"
    "network_observation_ok (cy_network ob)" "valid_outcome (cy_cpuUtilization ob)"
    using assms by (simp_all add: cycle_ok_def host_ok_def cpuLoad_ok_def memory_outcome_ok_def
        raspberryPi_ok_def temperature_ok_def)
  show ?thesis
    by (simp add: fillDocument_def emptySnapshot_def Let_def present_state v setValue_valid
        setLoad_valid setMemory_valid setFirmware_valid setNetwork_valid assembled_def)
qed

section \<open>The assembled snapshot is encodable\<close>

lemma Path_reason_issue [simp]: "Path (reason_issue p r) = p"
  by (simp add: reason_issue_def)

lemma issue_ok_reason_issue [simp]: "issue_ok (reason_issue p r)"
  by (simp add: reason_issue_def issue_ok_def validIssueCodeText_def valid_utf8_ascii)

lemma value_of_None [simp]: "value_of v = None \<longleftrightarrow> \<not> is_present v"
  by (simp add: value_of_def)

lemma value_of_Some [simp]: "value_of v = Some x \<longleftrightarrow> is_present v \<and> x = o_value v"
  by (auto simp: value_of_def)

lemma paths_issues_of [simp]: "map Path (issues_of v [p]) = path_unless (is_present v) p"
  by (simp add: issues_of_def path_unless_def)

lemma paths_firmware:
  "map Path (issues_of v firmware_paths) =
     path_unless (is_present v) ''/raspberry_pi/thermal_throttling_active''
     @ path_unless (is_present v) ''/raspberry_pi/thermal_throttling_occurred_since_boot''
     @ path_unless (is_present v) ''/raspberry_pi/undervoltage_active''
     @ path_unless (is_present v) ''/raspberry_pi/undervoltage_occurred_since_boot''"
  by (simp add: issues_of_def path_unless_def firmware_paths_def)

lemma paths_interface_issues:
  "map Path (interface_issues i ns) = missing_interfaces i (map observed_interface ns)"
  by (induction ns arbitrary: i) (simp_all add: missing_interface_def observed_interface_def)

lemma paths_network_issues: "map Path (network_issues v) = missing_network (network_of v)"
  by (simp add: network_issues_def missing_network_def network_of_def paths_interface_issues
      value_of_def path_unless_def)

lemma assembled_paths: "map Path (Issues (assembled ob)) = missing_paths (assembled ob)"
  by (simp add: assembled_def missing_paths_def missing_fixed_def load_of_def memory_of_def
      raspberryPi_of_def paths_firmware paths_network_issues)

lemma issues_of_ok: "i \<in> set (issues_of v ps) \<Longrightarrow> issue_ok i"
  by (auto simp: issues_of_def split: if_split_asm)

lemma interface_issues_ok: "i \<in> set (interface_issues k ns) \<Longrightarrow> issue_ok i"
  by (induction ns arbitrary: k) (auto dest: issues_of_ok)

lemma network_issues_ok: "i \<in> set (network_issues v) \<Longrightarrow> issue_ok i"
  by (auto simp: network_issues_def dest: interface_issues_ok issues_of_ok split: if_split_asm)

lemma assembled_issues_ok: "i \<in> set (Issues (assembled ob)) \<Longrightarrow> issue_ok i"
  by (auto simp: assembled_def dest: issues_of_ok network_issues_ok)

lemma in_path_unless [simp]: "q \<in> set (path_unless b p) \<longleftrightarrow> \<not> b \<and> q = p"
  by (simp add: path_unless_def)

text \<open>Paths are distinct, so an issue with a firmware path is one of the firmware flags'.\<close>

lemma unique_path:
  "distinct (map Path is) \<Longrightarrow> i \<in> set is \<Longrightarrow> j \<in> set is \<Longrightarrow> Path i = Path j \<Longrightarrow> i = j"
  by (auto simp: distinct_map inj_on_def)

lemma assembled_firmware:
  assumes "i \<in> set (Issues (assembled ob))" "Path i \<in> set firmware_paths"
  shows "i = reason_issue (Path i) (o_reason (rpi_firmware (cy_raspberryPi ob)))"
proof -
  let ?v = "rpi_firmware (cy_raspberryPi ob)"
  have d: "distinct (map Path (Issues (assembled ob)))"
    unfolding assembled_paths by (rule distinct_missing_paths)
  have "\<not> is_present ?v"
  proof
    assume p: "is_present ?v"
    have "Path i \<in> set (missing_paths (assembled ob))"
      using assms(1) unfolding assembled_paths [symmetric] by simp
    then have "Path i \<in> {''/uptime_seconds'', ''/cpu/logical_cpu_count'', ''/load'', ''/memory'',
         ''/root_filesystem'', ''/raspberry_pi/soc_temperature_celsius'',
         ''/cpu/utilization_percent''} \<union> set (missing_network (SnapNetwork (assembled ob)))"
      using p by (auto simp: missing_paths_def missing_fixed_def assembled_def raspberryPi_of_def)
    moreover have "Path i \<notin> {''/uptime_seconds'', ''/cpu/logical_cpu_count'', ''/load'', ''/memory'',
         ''/root_filesystem'', ''/raspberry_pi/soc_temperature_celsius'', ''/cpu/utilization_percent''}"
      using assms(2) by (auto simp: firmware_paths_def)
    moreover have "Path i \<notin> set (missing_network (SnapNetwork (assembled ob)))"
      using assms(2) set_missing_network interface_prefix_not_fixed
      by (fastforce simp: firmware_paths_def fixed_paths_def)
    ultimately show False by blast
  qed
  then have "reason_issue (Path i) (o_reason ?v) \<in> set (issues_of ?v firmware_paths)"
    using assms(2) by (simp add: issues_of_def)
  then have "reason_issue (Path i) (o_reason ?v) \<in> set (Issues (assembled ob))"
    by (simp add: assembled_def)
  from unique_path [OF d assms(1) this] show ?thesis by simp
qed

lemma assembled_match: "issues_match (assembled ob\<lparr>ObservedAt := now\<rparr>)"
proof -
  have "firmware_coherent (Issues (assembled ob))"
    using assembled_firmware unfolding firmware_coherent_def reason_issue_def
    by (smt (verit, ccfv_threshold) Issue.select_convs)
  then show ?thesis
    using assembled_paths [of ob] assembled_issues_ok [of _ ob]
    by (simp add: issues_match_def missing_paths_def missing_fixed_def)
qed

definition time_ok :: "gotime \<Rightarrow> bool" where
  "time_ok now \<longleftrightarrow> \<not> time_is_zero now \<and> parse_rfc3339_ok (format_rfc3339 now)"

lemma load_value_in: "load_value_ok x \<Longrightarrow> finite_float x \<and> \<not> f_less x (Fin 0) \<and> \<not> f_less PosInf x"
  by (cases x) (auto simp: load_value_ok_def finite_float_def)

lemma percentage_in: "percentage x \<Longrightarrow> finite_float x \<and> \<not> f_less x (Fin 0) \<and> \<not> f_less (Fin 100) x"
  by (simp add: percentage_iff finite_float_def)

lemma memory_of_ok: "memory_outcome_ok v \<Longrightarrow> memory_ok (memory_of v)"
  by (cases "is_present v")
    (auto simp: memory_outcome_ok_def memory_ok_def memory_of_def value_of_def bytes_ok_def)

lemma network_of_ok:
  assumes "network_observation_ok v"
  shows "network_ok (network_of v)"
proof -
  have "interface_ok (observed_interface n)" if "interface_observation_ok n" for n
  proof -
    have "valid_utf8 ''up''" "valid_utf8 ''down''" "valid_utf8 ''unknown''"
      by (simp_all add: valid_utf8_ascii)
    with that show ?thesis
      by (auto simp: interface_observation_ok_def interface_ok_def observed_interface_def)
  qed
  moreover have "Name \<circ> observed_interface = ifo_name"
    by (simp add: observed_interface_def fun_eq_iff)
  ultimately show ?thesis
    using assms
    by (auto simp: network_observation_ok_def network_ok_def network_of_def maximumInterfaces_def
        maximumSnapshotInterfaces_def)
qed

lemma assembled_wf:
  assumes "cycle_ok ob" "is_present (host_hostname (cy_host ob))" "time_ok now"
  shows "snapshot_wf (assembled ob\<lparr>ObservedAt := now\<rparr>)"
proof -
  have host: "o_value (host_hostname (cy_host ob)) \<noteq> []" "valid_utf8 (o_value (host_hostname (cy_host ob)))"
    using assms(1,2) by (simp_all add: cycle_ok_def host_ok_def)
  have util: "float_in (value_of (cy_cpuUtilization ob)) (Fin 0) (Fin 100)"
    using assms(1) percentage_in by (auto simp: cycle_ok_def float_in_def)
  have count: "value_of (cl_logicalCPUCount (cy_cpuLoad ob)) \<noteq> Some 0"
    using assms(1) by (auto simp: cycle_ok_def cpuLoad_ok_def split: if_splits)
  let ?l = "load_of (cl_load (cy_cpuLoad ob))"
  have load: "float_in (OneMinute ?l) (Fin 0) PosInf" "float_in (FiveMinutes ?l) (Fin 0) PosInf"
    "float_in (FifteenMinutes ?l) (Fin 0) PosInf"
    using assms(1) load_value_in
    by (auto simp: cycle_ok_def cpuLoad_ok_def load_of_def float_in_def load_ok_def)
  have temp: "finite_float x" if "value_of (rpi_temperature (cy_raspberryPi ob)) = Some x" for x
    using assms(1) that
    by (auto simp: cycle_ok_def raspberryPi_ok_def temperature_ok_def temperature_value_ok_def
        finite_float_def)
  have "same_presence [OneMinute ?l \<noteq> None, FiveMinutes ?l \<noteq> None, FifteenMinutes ?l \<noteq> None]"
    by (simp add: same_presence_def load_of_def)
  with host util count load temp assms show ?thesis
    by (simp add: snapshot_wf_def assembled_def time_ok_def raspberryPi_of_def same_presence_def
        cycle_ok_def memory_of_ok network_of_ok)
qed

section \<open>Reporting and finalizing\<close>

definition cycle_events :: "cycleObservations \<Rightarrow> degradationEvent list" where
  "cycle_events ob =
     (if is_present (host_hostname (cy_host ob)) then []
      else [\<lparr>ev_metric = ''/host/hostname'',
             ev_reason = Code (reason_issue [] (o_reason (host_hostname (cy_host ob))))\<rparr>])
     @ map (\<lambda>i. \<lparr>ev_metric = Path i, ev_reason = Code i\<rparr>) (Issues (assembled ob))"

lemma degradationCode_valid:
  "known_reason r \<Longrightarrow> degradationCode r = Return (Code (reason_issue p r))"
  by (auto simp: degradationCode_def reason_issue_def known_reason_def)

lemma degradationEvents_valid:
  assumes "cycle_ok ob"
  shows "degradationEvents (cy_host ob) (Issues (assembled ob)) = Return (cycle_events ob)"
proof -
  have "valid_outcome (host_hostname (cy_host ob))"
    using assms by (simp add: cycle_ok_def host_ok_def)
  then show ?thesis
    by (simp add: degradationEvents_def cycle_events_def Let_def present_state outcome_reason
        degradationCode_valid [where p = "[]"])
qed

lemma metric_not_missing: "''/host/hostname'' \<notin> set (missing_paths s)"
proof -
  have "''/host/hostname'' \<notin> set (missing_network nw)" for nw
  proof
    assume "''/host/hostname'' \<in> set (missing_network nw)"
    from set_missing_network [OF this] obtain k a where "''/host/hostname'' = interface_prefix k @ a"
      by auto
    then show False using interface_prefix_neq(3) [of k a] by simp
  qed
  then show ?thesis by (auto simp: missing_paths_def missing_fixed_def)
qed

lemma path_not_empty: "p \<in> set (missing_paths s) \<Longrightarrow> p \<noteq> []"
proof -
  have "p \<in> set (missing_network nw) \<Longrightarrow> p \<noteq> []" for nw
    using set_missing_network [of p nw] by (auto simp: interface_prefix_def)
  then show "p \<in> set (missing_paths s) \<Longrightarrow> p \<noteq> []"
    by (auto simp: missing_paths_def missing_fixed_def)
qed

lemma cycle_events_ok:
  assumes "cycle_ok ob"
  shows "report_ok (cycle_events ob)"
proof -
  let ?is = "Issues (assembled ob)"
  have paths: "Path i \<in> set (missing_paths (assembled ob))" if "i \<in> set ?is" for i
    using that unfolding assembled_paths [symmetric] by simp
  have "network_ok (SnapNetwork (assembled ob))"
    using assms by (simp add: cycle_ok_def assembled_def network_of_ok)
  then have "length (missing_paths (assembled ob)) \<le> 203" by (rule length_missing_paths)
  then have len: "length (cycle_events ob) \<le> 204"
    by (simp add: cycle_events_def assembled_paths [symmetric])
  have "distinct (map Path ?is)" unfolding assembled_paths by (rule distinct_missing_paths)
  then have metrics: "distinct (map ev_metric (cycle_events ob))"
    using paths metric_not_missing [of "assembled ob"] by (auto simp: cycle_events_def comp_def)
  have "map ev_metric (cycle_events ob) = map fst (map event_key (cycle_events ob))"
    by (simp add: event_key_def)
  with metrics have "distinct (map event_key (cycle_events ob))"
    by (auto simp: distinct_map intro: inj_on_imageI2)
  moreover have "event_ok e" if "e \<in> set (cycle_events ob)" for e
  proof -
    have code: "issue_ok i \<Longrightarrow> validIssueCode (Code i)" for i
      by (simp add: issue_ok_def validIssueCode_def validIssueCodeText_def)
    show ?thesis
      using that paths path_not_empty assembled_issues_ok code [OF issue_ok_reason_issue] code
      by (fastforce simp: cycle_events_def event_ok_def split: if_split_asm)
  qed
  ultimately show ?thesis using len by (simp add: report_ok_def maximumDegradationStates_def)
qed

text \<open>
  What a finalization answers: an encoded snapshot within the size limit, the error of a snapshot
  without a useful value, or an internal defect when the document does not fit.
\<close>

definition answer_ok :: "(Snapshot \<Rightarrow> bool) \<Rightarrow> gotime \<Rightarrow> Encoded go \<Rightarrow> bool" where
  "answer_ok fits now res \<longleftrightarrow>
     (\<exists>e. res = Inr e \<and> encoded_valid e \<and> encoded_len e \<le> MaximumSize)
     \<or> (\<exists>e. res = Inl e \<and> errors_is e ErrNoUsefulSnapshot)
     \<or> (\<exists>ob e. cycle_ok ob \<and> \<not> fits (assembled ob\<lparr>ObservedAt := now\<rparr>)
             \<and> res = Inl (internalDefect (Some (Wrapf ''finalize snapshot: %w'' [] e))))"

text \<open>
  A finalization over any reporter and encoder that keep their contracts: the encoder's answer,
  with the degradations of the cycle reported exactly once.
\<close>

locale cycle_services =
  degradation_sink report + snapshot_encoder enc fits
  for report :: "'r reportFunction"
    and enc :: "Snapshot \<Rightarrow> Encoded go"
    and fits :: "Snapshot \<Rightarrow> bool"
begin

lemma finalize_useful:
  assumes "cycle_ok ob" "is_present (host_hostname (cy_host ob))" "time_ok now"
    and "fits (assembled ob\<lparr>ObservedAt := now\<rparr>)"
  shows "\<exists>r' out. report r (cycle_events ob) = (r', out, None)
     \<and> finalize enc report now r ob = Return (r', out, enc (assembled ob\<lparr>ObservedAt := now\<rparr>))
     \<and> (enc (assembled ob\<lparr>ObservedAt := now\<rparr>) = Inl ErrNoUsefulSnapshot
        \<or> (\<exists>e. enc (assembled ob\<lparr>ObservedAt := now\<rparr>) = Inr e \<and> encoded_valid e
               \<and> encoded_len e \<le> MaximumSize))"
proof -
  obtain r' out where r: "report r (cycle_events ob) = (r', out, None)"
    using accepted_report [OF cycle_events_ok [OF assms(1)]] by blast
  note total = enc_total [OF assembled_wf [OF assms(1,2,3)] assembled_match assms(4)]
  then have "case enc (assembled ob\<lparr>ObservedAt := now\<rparr>) of
      Inr v \<Rightarrow> True | Inl e \<Rightarrow> errors_is e ErrNoUsefulSnapshot" by auto
  then have "finalize enc report now r ob = Return (r', out, enc (assembled ob\<lparr>ObservedAt := now\<rparr>))"
    using assms(1,2) r
    by (simp add: finalize_def fillDocument_valid degradationEvents_valid present_state Let_def)
  with r total show ?thesis by blast
qed

lemma finalize_no_hostname:
  assumes "cycle_ok ob" "\<not> is_present (host_hostname (cy_host ob))"
  shows "\<exists>r' out. report r (cycle_events ob) = (r', out, None)
     \<and> finalize enc report now r ob = Return (r', out, Inl ErrNoUsefulSnapshot)"
proof -
  obtain r' out where r: "report r (cycle_events ob) = (r', out, None)"
    using accepted_report [OF cycle_events_ok [OF assms(1)]] by blast
  then show ?thesis
    using assms
    by (simp add: finalize_def fillDocument_valid degradationEvents_valid present_state)
qed

lemma finalize_contract:
  assumes "cycle_ok ob" "time_ok now"
  shows "\<exists>r' out res. finalize enc report now r ob = Return (r', out, res) \<and> answer_ok fits now res"
proof (cases "is_present (host_hostname (cy_host ob))")
  case False
  then show ?thesis
    using finalize_no_hostname [OF assms(1) False, of r now] by (auto simp: answer_ok_def)
next
  case True
  let ?d = "assembled ob\<lparr>ObservedAt := now\<rparr>"
  obtain r' out where r: "report r (cycle_events ob) = (r', out, None)"
    using accepted_report [OF cycle_events_ok [OF assms(1)]] by blast
  note fin = finalize_def fillDocument_valid degradationEvents_valid present_state
  show ?thesis
  proof (cases "enc ?d")
    case (Inr e)
    then show ?thesis
      using True assms(1) r enc_bounded [OF Inr] by (simp add: fin Let_def answer_ok_def)
  next
    case (Inl e)
    show ?thesis
    proof (cases "errors_is e ErrNoUsefulSnapshot")
      case useless: True
      then show ?thesis using Inl True assms(1) r by (simp add: fin Let_def answer_ok_def)
    next
      case False
      have "\<not> fits ?d"
        using enc_total [OF assembled_wf [OF assms(1) True assms(2)] assembled_match] Inl False
        by auto
      then show ?thesis
        using Inl True False assms(1) by (auto simp: fin Let_def answer_ok_def)
    qed
  qed
qed

end

interpretation production: cycle_services "Report now" Encode encodes_within for now
  by unfold_locales

section \<open>Collecting\<close>

lemma unavailableCycle_ok: "cycle_ok (unavailableCycle (Some e))"
  by (simp add: cycle_ok_def unavailableCycle_def host_ok_def cpuLoad_ok_def memory_outcome_ok_def
      raspberryPi_ok_def temperature_ok_def unavailable_observation_ok)

text \<open>What the cycle relies on: each collector returns a value its validator accepts.\<close>

definition collectors_ok :: "cycleCollectors \<Rightarrow> bool" where
  "collectors_ok cc \<longleftrightarrow>
     (\<exists>v. CollectHost cc = Return v \<and> host_ok v)
     \<and> (\<exists>v. CollectCPULoad cc = Return v \<and> cpuLoad_ok v)
     \<and> (\<exists>v. CollectMemory cc = Return v \<and> memory_outcome_ok v)
     \<and> (\<exists>v. CollectRootFilesystem cc = Return v \<and> memory_outcome_ok v)
     \<and> (\<exists>v. CollectRaspberryPi cc = Return v \<and> raspberryPi_ok v)
     \<and> (\<exists>v. CollectNetwork cc = Return v \<and> network_observation_ok v)"

lemma productionCollectors_ok:
  assumes "raspberryPi_ok rpi"
  shows "collectors_ok (productionCollectors ctxErr src links rpi)"
proof -
  obtain v where "collectNetwork (ctxErr 5) links = Some (Return v)" "network_observation_ok v"
    using collectNetwork_ok .
  then show ?thesis
    using assms
    by (simp add: collectors_ok_def productionCollectors_def collectHost_ok collectCPULoad_ok
        collectMemory_ok collectRootFilesystem_ok)
qed

lemma copyCPU_ok:
  assumes "cpu_answer_ok latest"
  shows "valid_outcome (copyCPU latest topology)
     \<and> (is_present (copyCPU latest topology) \<longrightarrow>
          percentage (o_value (copyCPU latest topology))
          \<and> is_float64 (o_value (copyCPU latest topology)))"
proof -
  obtain p now where l: "latest = (p, now)" by (cases latest)
  have p: "valid_outcome p" using assms by (simp add: l cpu_answer_ok_def publication_ok_def)
  then have none: "validateOutcome p = None" by (simp add: validateOutcome_None_iff)
  show ?thesis
  proof (cases "is_present p")
    case False
    then have "copyCPU latest topology =
        \<lparr>o_state = o_state p, o_value = 0, o_reason = o_reason p, o_cause = o_cause p\<rparr>"
      using none by (simp add: copyCPU_def l present_state)
    then show ?thesis using p False by (simp add: valid_outcome_def is_present_def)
  next
    case True
    then have c: "percentage (pub_utilizationPercent (o_value p))"
      "is_float64 (pub_utilizationPercent (o_value p))"
      "topology_count (pub_topology (o_value p)) \<noteq> 0" "topology_signature (pub_topology (o_value p)) \<noteq> []"
      "\<not> now - pub_sampledAt (o_value p) < 0"
      using assms by (simp_all add: l cpu_answer_ok_def publication_ok_def is_present_def)
    then show ?thesis
      using True none by (simp add: copyCPU_def l present_state Let_def percentage_iff)
  qed
qed

text \<open>
  A stage of the cycle that ends it with the error of the lifecycle, or leaves observations
  that satisfy a predicate.
\<close>

definition stage :: "cycleContexts \<Rightarrow> (cycleObservations \<Rightarrow> bool) \<Rightarrow> (cycleObservations go) call \<Rightarrow> bool" where
  "stage c P m \<longleftrightarrow>
     (\<exists>e i. m = Return (Inl e) \<and> ctx_lifecycle c i = Some e) \<or> (\<exists>ob. m = Return (Inr ob) \<and> P ob)"

lemma stage_bind: "stage c P m \<Longrightarrow> (\<And>ob. P ob \<Longrightarrow> stage c Q (f ob)) \<Longrightarrow> stage c Q (io_bind m f)"
  unfolding stage_def by (elim disjE exE conjE) auto

lemma stage_domain:
  assumes "collector = Return v" "validate v = None" "P ob" "P (store v ob)"
  shows "stage c P (collectDomain c i collector validate store ob)"
proof (cases "ctx_lifecycle c i")
  case None
  then show ?thesis using assms by (simp add: stage_def collectDomain_def runDomain_def)
qed (auto simp: stage_def collectDomain_def)

lemma stage_host:
  assumes "collector = Return v" "validateHost v = None" "P ob" "P (ob\<lparr>cy_host := v\<rparr>)"
  shows "stage c P (collectHostDomain c collector ob)"
  using stage_domain [OF assms(1), of validateHost P ob "\<lambda>v ob. ob\<lparr>cy_host := v\<rparr>"
      "c\<lparr>ctx_cycle := (ctx_cycle c)(0 := None)\<rparr>" 0] assms(2-)
  by (simp add: collectHostDomain_def stage_def)

lemma stage_publication:
  assumes "P ob" "cpu_answer_ok latest"
    and "P (ob\<lparr>cy_cpuUtilization := copyCPU latest (cy_cpuLoad ob)\<rparr>)"
  shows "stage c P
     (case ctx_lifecycle c i of
        Some e \<Rightarrow> Return (Inl e)
      | None \<Rightarrow>
          (let util = copyCPU latest (cy_cpuLoad ob)
           in case validateOutcome util of
                Some e \<Rightarrow> Return (Inl (internalDefect
                            (Some (Wrapf ''CPU utilization publication: %w'' [] e))))
              | None \<Rightarrow> Return (Inr (ob\<lparr>cy_cpuUtilization := util\<rparr>))))"
proof (cases "ctx_lifecycle c i")
  case None
  have "validateOutcome (copyCPU latest (cy_cpuLoad ob)) = None"
    using copyCPU_ok [OF assms(2)] by (simp add: validateOutcome_None_iff)
  then show ?thesis using None assms(3) by (simp add: stage_def)
qed (auto simp: stage_def)

text \<open>
  Over collectors that keep their contracts, any predicate that holds of the expired observations
  and that storing each collector's value keeps holds of the cycle's observations.
\<close>

definition stores_keep :: "(cycleObservations \<Rightarrow> bool) \<Rightarrow> cycleCollectors \<Rightarrow> bool" where
  "stores_keep P cc \<longleftrightarrow>
     (\<forall>v ob. CollectHost cc = Return v \<longrightarrow> P ob \<longrightarrow> P (ob\<lparr>cy_host := v\<rparr>))
     \<and> (\<forall>v ob. CollectCPULoad cc = Return v \<longrightarrow> P ob \<longrightarrow> P (ob\<lparr>cy_cpuLoad := v\<rparr>))
     \<and> (\<forall>v ob. CollectMemory cc = Return v \<longrightarrow> P ob \<longrightarrow> P (ob\<lparr>cy_memory := v\<rparr>))
     \<and> (\<forall>v ob. CollectRootFilesystem cc = Return v \<longrightarrow> P ob \<longrightarrow> P (ob\<lparr>cy_root := v\<rparr>))
     \<and> (\<forall>v ob. CollectRaspberryPi cc = Return v \<longrightarrow> P ob \<longrightarrow> P (ob\<lparr>cy_raspberryPi := v\<rparr>))
     \<and> (\<forall>v ob. CollectNetwork cc = Return v \<longrightarrow> P ob \<longrightarrow> P (ob\<lparr>cy_network := v\<rparr>))"

lemma collectObservations_keep:
  assumes "collectors_ok cc" "cpu_answer_ok latest" "stores_keep P cc"
    and "P (unavailableCycle (Some errCollectionDeadline))"
    and "\<And>ob. P ob \<Longrightarrow> P (ob\<lparr>cy_cpuUtilization := copyCPU latest (cy_cpuLoad ob)\<rparr>)"
  shows "stage c P (collectObservations c cc latest)"
proof -
  obtain vh vl vm vr vp vn where v:
    "CollectHost cc = Return vh" "validateHost vh = None"
    "CollectCPULoad cc = Return vl" "validateCPULoad vl = None"
    "CollectMemory cc = Return vm" "validateMemoryOutcome vm = None"
    "CollectRootFilesystem cc = Return vr" "validateFilesystemOutcome vr = None"
    "CollectRaspberryPi cc = Return vp" "validateRaspberryPi vp = None"
    "CollectNetwork cc = Return vn" "validateNetwork vn = None"
    using assms(1) unfolding collectors_ok_def validateHost_None_iff validateCPULoad_None_iff
      validateMemoryOutcome_None_iff validateFilesystemOutcome_None_iff validateRaspberryPi_None_iff
      validateNetwork_None_iff by blast
  note keep = assms(3) [unfolded stores_keep_def]
  have load: "stage c P (collectDomain c 1 (CollectCPULoad cc) validateCPULoad
      (\<lambda>v ob. ob\<lparr>cy_cpuLoad := v\<rparr>) ob)" if "P ob" for ob
    by (rule stage_domain [where P = P and validate = validateCPULoad, OF v(3) v(4) that]) (use that v(3) keep in blast)
  have memory: "stage c P (collectDomain c 2 (CollectMemory cc) validateMemoryOutcome
      (\<lambda>v ob. ob\<lparr>cy_memory := v\<rparr>) ob)" if "P ob" for ob
    by (rule stage_domain [where P = P and validate = validateMemoryOutcome, OF v(5) v(6) that]) (use that v(5) keep in blast)
  have root: "stage c P (collectDomain c 3 (CollectRootFilesystem cc) validateFilesystemOutcome
      (\<lambda>v ob. ob\<lparr>cy_root := v\<rparr>) ob)" if "P ob" for ob
    by (rule stage_domain [where P = P and validate = validateFilesystemOutcome, OF v(7) v(8) that]) (use that v(7) keep in blast)
  have pi: "stage c P (collectDomain c 4 (CollectRaspberryPi cc) validateRaspberryPi
      (\<lambda>v ob. ob\<lparr>cy_raspberryPi := v\<rparr>) ob)" if "P ob" for ob
    by (rule stage_domain [where P = P and validate = validateRaspberryPi, OF v(9) v(10) that]) (use that v(9) keep in blast)
  have network: "stage c P (collectDomain c 5 (CollectNetwork cc) validateNetwork
      (\<lambda>v ob. ob\<lparr>cy_network := v\<rparr>) ob)" if "P ob" for ob
    by (rule stage_domain [where P = P and validate = validateNetwork, OF v(11) v(12) that]) (use that v(11) keep in blast)
  have host: "stage c P (collectHostDomain c (CollectHost cc)
      (unavailableCycle (Some errCollectionDeadline)))"
    by (rule stage_host [where P = P, OF v(1,2) assms(4)]) (use v(1) assms(4) keep in blast)
  show ?thesis
    unfolding collectObservations_def
    by (rule stage_bind [OF host] stage_bind [OF load] stage_bind [OF memory] stage_bind [OF root]
        stage_bind [OF pi] stage_bind [OF network] stage_publication [OF _ assms(2)]
        | assumption | rule assms(5))+
qed

lemma stores_keep_ok: "collectors_ok cc \<Longrightarrow> stores_keep cycle_ok cc"
  by (auto simp: collectors_ok_def stores_keep_def cycle_ok_def)

lemma collectObservations_stage:
  assumes "collectors_ok cc" "cpu_answer_ok latest"
  shows "stage c cycle_ok (collectObservations c cc latest)"
proof (rule collectObservations_keep [OF assms stores_keep_ok [OF assms(1)] unavailableCycle_ok])
  fix ob
  assume "cycle_ok ob"
  then show "cycle_ok (ob\<lparr>cy_cpuUtilization := copyCPU latest (cy_cpuLoad ob)\<rparr>)"
    using copyCPU_ok [OF assms(2), of "cy_cpuLoad ob"] by (simp add: cycle_ok_def)
qed

context cycle_services
begin

lemma collect_contract:
  assumes "collectors_ok cc" "cpu_answer_ok latest" "time_ok now"
  shows "\<exists>r' out res. collect enc report now c cc latest r = Return (r', out, res)
     \<and> ((\<exists>e i. res = Inl e \<and> ctx_lifecycle c i = Some e) \<or> answer_ok fits now res)"
  using collectObservations_stage [OF assms(1,2), of c] unfolding stage_def
proof (elim disjE exE conjE)
  fix e i
  assume "collectObservations c cc latest = Return (Inl e)" "ctx_lifecycle c i = Some e"
  then show ?thesis by (auto simp: collect_def)
next
  fix ob
  assume "collectObservations c cc latest = Return (Inr ob)" "cycle_ok ob"
  then show ?thesis
    using finalize_contract [of ob now r] assms(3) by (auto simp: collect_def)
qed

text \<open>When every document the cycle can assemble fits, only the three ordinary answers remain.\<close>

lemma collect_within:
  assumes "collectors_ok cc" "cpu_answer_ok latest" "time_ok now"
    and "\<And>ob. collectObservations c cc latest = Return (Inr ob) \<Longrightarrow> cycle_ok ob \<Longrightarrow>
      is_present (host_hostname (cy_host ob)) \<Longrightarrow> fits (assembled ob\<lparr>ObservedAt := now\<rparr>)"
    and "collect enc report now c cc latest r = Return (r', out, res)"
  shows "(\<exists>e i. res = Inl e \<and> ctx_lifecycle c i = Some e) \<or> res = Inl ErrNoUsefulSnapshot
     \<or> (\<exists>e. res = Inr e \<and> encoded_valid e \<and> encoded_len e \<le> MaximumSize)"
  using collectObservations_stage [OF assms(1,2), of c] unfolding stage_def
proof (elim disjE exE conjE)
  fix e i
  assume "collectObservations c cc latest = Return (Inl e)" "ctx_lifecycle c i = Some e"
  then show ?thesis using assms(5) by (auto simp: collect_def)
next
  fix ob
  assume ob: "collectObservations c cc latest = Return (Inr ob)" "cycle_ok ob"
  then have fin: "finalize enc report now r ob = Return (r', out, res)"
    using assms(5) by (simp add: collect_def)
  show ?thesis
  proof (cases "is_present (host_hostname (cy_host ob))")
    case True
    with finalize_useful [OF ob(2) True assms(3) assms(4) [OF ob True], of r] fin
    show ?thesis by auto
  next
    case False
    with finalize_no_hostname [OF ob(2) False, of r now] fin show ?thesis by auto
  qed
qed

text \<open>An encoded answer is the encoder's answer for the observations of the cycle.\<close>

lemma collect_encodes:
  assumes "collectors_ok cc" "cpu_answer_ok latest" "time_ok now"
    and "\<And>ob. collectObservations c cc latest = Return (Inr ob) \<Longrightarrow> cycle_ok ob \<Longrightarrow>
      is_present (host_hostname (cy_host ob)) \<Longrightarrow> fits (assembled ob\<lparr>ObservedAt := now\<rparr>)"
    and "collect enc report now c cc latest r = Return (r', out, Inr e)"
  shows "\<exists>ob. collectObservations c cc latest = Return (Inr ob) \<and> cycle_ok ob
     \<and> enc (assembled ob\<lparr>ObservedAt := now\<rparr>) = Inr e"
  using collectObservations_stage [OF assms(1,2), of c] unfolding stage_def
proof (elim disjE exE conjE)
  fix e' i
  assume "collectObservations c cc latest = Return (Inl e')" "ctx_lifecycle c i = Some e'"
  then show ?thesis using assms(5) by (auto simp: collect_def)
next
  fix ob
  assume ob: "collectObservations c cc latest = Return (Inr ob)" "cycle_ok ob"
  then have fin: "finalize enc report now r ob = Return (r', out, Inr e)"
    using assms(5) by (simp add: collect_def)
  show ?thesis
  proof (cases "is_present (host_hostname (cy_host ob))")
    case True
    with finalize_useful [OF ob(2) True assms(3) assms(4) [OF ob True], of r] fin ob
    show ?thesis by auto
  next
    case False
    with finalize_no_hostname [OF ob(2) False, of r now] fin show ?thesis by auto
  qed
qed

end

section \<open>Properties\<close>

text \<open>
  C3 (document_assembled): from validated observations the assembly never panics; the snapshot
  carries exactly the present values, its issues are exactly its missing metrics in document
  order, and with a hostname and a usable clock it is well formed for the encoder.
\<close>

theorem document_assembled:
  assumes "cycle_ok ob"
  shows "fillDocument ob = Return (assembled ob)
    \<and> map Path (Issues (assembled ob)) = missing_paths (assembled ob)
    \<and> issues_match (assembled ob\<lparr>ObservedAt := now\<rparr>)
    \<and> (is_present (host_hostname (cy_host ob)) \<and> time_ok now \<longrightarrow>
         snapshot_wf (assembled ob\<lparr>ObservedAt := now\<rparr>))"
  using fillDocument_valid [OF assms] assembled_paths assembled_match assembled_wf [OF assms] by blast

theorem document_assembled_witness:
  "fillDocument (unavailableCycle (Some errCollectionDeadline)) =
     Return (assembled (unavailableCycle (Some errCollectionDeadline)))"
  using document_assembled [OF unavailableCycle_ok] by blast

text \<open>
  C27 (degradations_reported_once): a finalized cycle with a hostname and an encodable document
  publishes the encoder's answer for its document and hands the reporter exactly its missing
  metrics, once; without a hostname the hostname is reported with them and nothing is published.
\<close>

theorem degradations_reported_once:
  assumes "cycle_ok ob" "time_ok now" "encodes_within (assembled ob\<lparr>ObservedAt := now\<rparr>)"
  shows "\<exists>r' out. Report now r (cycle_events ob) = (r', out, None)
    \<and> finalize Encode (Report now) now r ob =
        Return (r', out,
          if is_present (host_hostname (cy_host ob)) then Encode (assembled ob\<lparr>ObservedAt := now\<rparr>)
          else Inl ErrNoUsefulSnapshot)"
proof (cases "is_present (host_hostname (cy_host ob))")
  case True
  obtain r' out where "Report now r (cycle_events ob) = (r', out, None)"
    "finalize Encode (Report now) now r ob = Return (r', out, Encode (assembled ob\<lparr>ObservedAt := now\<rparr>))"
    using production.finalize_useful [OF assms(1) True assms(2,3)] by blast
  with True show ?thesis by simp
next
  case False
  obtain r' out where "Report now r (cycle_events ob) = (r', out, None)"
    "finalize Encode (Report now) now r ob = Return (r', out, Inl ErrNoUsefulSnapshot)"
    using production.finalize_no_hostname [OF assms(1) False] by blast
  with False show ?thesis by simp
qed

lemma example_cycle:
  "cycle_ok (unavailableCycle (Some errCollectionDeadline))"
  "\<not> is_present (host_hostname (cy_host (unavailableCycle (Some errCollectionDeadline))))"
  by (simp_all add: unavailableCycle_ok) (simp add: unavailableCycle_def)

text \<open>A cycle with a hostname and an uptime only.\<close>

definition example_observations :: cycleObservations where
  "example_observations =
     (unavailableCycle (Some errCollectionDeadline))
       \<lparr>cy_host := \<lparr>host_hostname = present ''pi'', host_uptime = present 12\<rparr>\<rparr>"

lemma example_observations_ok: "cycle_ok example_observations"
  "is_present (host_hostname (cy_host example_observations))"
  using unavailableCycle_ok [of errCollectionDeadline]
  by (simp_all add: example_observations_def cycle_ok_def host_ok_def valid_utf8_ascii)

definition example_time :: gotime where
  "example_time = 63900000000000000123"

lemma example_time_ok: "time_ok example_time"
proof -
  have "0 \<le> example_time" "example_time < 3652059 * nanos_per_day" "example_time \<noteq> 0"
    by (simp_all add: example_time_def nanos_per_day_def nanos_per_second_def)
  then show ?thesis using format_rfc3339_parses by (simp add: time_ok_def time_is_zero_def)
qed

lemma collectDomain_keeps:
  assumes "collectDomain c i collector validate store ob = Return (Inr ob')"
  shows "ob' = ob \<or> (ctx_cycle c i = None \<and> ctx_domain c i = None \<and> (\<exists>v. ob' = store v ob))"
  using assms
  by (cases collector) (auto simp: collectDomain_def runDomain_def split: option.splits if_splits)

lemma example_observations_fit: "encodes_within (assembled example_observations\<lparr>ObservedAt := example_time\<rparr>)"
proof (rule kernel_sized_fits)
  show "snapshot_wf (assembled example_observations\<lparr>ObservedAt := example_time\<rparr>)"
    using example_observations_ok example_time_ok by (rule assembled_wf)
  show "issues_match (assembled example_observations\<lparr>ObservedAt := example_time\<rparr>)"
    by (rule assembled_match)
  show "kernel_sized (assembled example_observations\<lparr>ObservedAt := example_time\<rparr>)"
    by (simp add: kernel_sized_def assembled_def example_observations_def unavailableCycle_def
        value_of_def issues_of_def reason_issue_def load_of_def raspberryPi_of_def
        network_of_def network_issues_def firmware_paths_def HOST_NAME_MAX_def plain_char_def)
qed

theorem degradations_reported_once_witness:
  "\<exists>r' out. Report example_time newDegradationReporter (cycle_events example_observations) = (r', out, None)
     \<and> finalize Encode (Report example_time) example_time newDegradationReporter example_observations
         = Return (r', out, Encode (assembled example_observations\<lparr>ObservedAt := example_time\<rparr>))"
  using degradations_reported_once [OF example_observations_ok(1) example_time_ok
      example_observations_fit, of newDegradationReporter] example_observations_ok(2)
  by simp

text \<open>
  C14 (expired_domains_discarded): an observation whose own deadline or whose cycle's deadline has
  passed never reaches the snapshot: its domain keeps the values of an expired deadline.
\<close>

theorem expired_domains_discarded:
  assumes "collectObservations c cc latest = Return (Inr ob)"
    and "u = unavailableCycle (Some errCollectionDeadline)"
  shows "(ctx_domain c 0 \<noteq> None \<longrightarrow> cy_host ob = cy_host u)
    \<and> (ctx_domain c 1 \<noteq> None \<or> ctx_cycle c 1 \<noteq> None \<longrightarrow> cy_cpuLoad ob = cy_cpuLoad u)
    \<and> (ctx_domain c 2 \<noteq> None \<or> ctx_cycle c 2 \<noteq> None \<longrightarrow> cy_memory ob = cy_memory u)
    \<and> (ctx_domain c 3 \<noteq> None \<or> ctx_cycle c 3 \<noteq> None \<longrightarrow> cy_root ob = cy_root u)
    \<and> (ctx_domain c 4 \<noteq> None \<or> ctx_cycle c 4 \<noteq> None \<longrightarrow> cy_raspberryPi ob = cy_raspberryPi u)
    \<and> (ctx_domain c 5 \<noteq> None \<or> ctx_cycle c 5 \<noteq> None \<longrightarrow> cy_network ob = cy_network u)"
proof -
  obtain o0 o1 o2 o3 o4 o5 where steps:
    "collectHostDomain c (CollectHost cc) u = Return (Inr o0)"
    "collectDomain c 1 (CollectCPULoad cc) validateCPULoad (\<lambda>v o'. o'\<lparr>cy_cpuLoad := v\<rparr>) o0 = Return (Inr o1)"
    "collectDomain c 2 (CollectMemory cc) validateMemoryOutcome (\<lambda>v o'. o'\<lparr>cy_memory := v\<rparr>) o1 = Return (Inr o2)"
    "collectDomain c 3 (CollectRootFilesystem cc) validateFilesystemOutcome (\<lambda>v o'. o'\<lparr>cy_root := v\<rparr>) o2 = Return (Inr o3)"
    "collectDomain c 4 (CollectRaspberryPi cc) validateRaspberryPi (\<lambda>v o'. o'\<lparr>cy_raspberryPi := v\<rparr>) o3 = Return (Inr o4)"
    "collectDomain c 5 (CollectNetwork cc) validateNetwork (\<lambda>v o'. o'\<lparr>cy_network := v\<rparr>) o4 = Return (Inr o5)"
    and ob: "ob = o5\<lparr>cy_cpuUtilization := copyCPU latest (cy_cpuLoad o5)\<rparr>"
    using assms(1) unfolding collectObservations_def io_bind_Inr_iff assms(2) [symmetric]
    by (auto simp: Let_def split: option.splits)
  note kept = collectDomain_keeps [OF steps(1) [unfolded collectHostDomain_def]]
    collectDomain_keeps [OF steps(2)] collectDomain_keeps [OF steps(3)]
    collectDomain_keeps [OF steps(4)] collectDomain_keeps [OF steps(5)]
    collectDomain_keeps [OF steps(6)]
  have "cy_host o0 = cy_host u \<or> ctx_domain c 0 = None" "cy_cpuLoad o0 = cy_cpuLoad u"
    "cy_memory o0 = cy_memory u" "cy_root o0 = cy_root u" "cy_raspberryPi o0 = cy_raspberryPi u"
    "cy_network o0 = cy_network u"
    using kept(1) by auto
  moreover have "cy_host o5 = cy_host o0" "cy_cpuLoad o5 = cy_cpuLoad o1" "cy_memory o5 = cy_memory o2"
    "cy_root o5 = cy_root o3" "cy_raspberryPi o5 = cy_raspberryPi o4" "cy_memory o1 = cy_memory o0"
    "cy_root o2 = cy_root o0" "cy_raspberryPi o3 = cy_raspberryPi o0" "cy_network o4 = cy_network o0"
    using kept(2-6) by auto
  moreover have "cy_cpuLoad o1 = cy_cpuLoad o0 \<or> ctx_domain c 1 = None \<and> ctx_cycle c 1 = None"
    "cy_memory o2 = cy_memory o1 \<or> ctx_domain c 2 = None \<and> ctx_cycle c 2 = None"
    "cy_root o3 = cy_root o2 \<or> ctx_domain c 3 = None \<and> ctx_cycle c 3 = None"
    "cy_raspberryPi o4 = cy_raspberryPi o3 \<or> ctx_domain c 4 = None \<and> ctx_cycle c 4 = None"
    "cy_network o5 = cy_network o4 \<or> ctx_domain c 5 = None \<and> ctx_cycle c 5 = None"
    using kept(2-6) by blast+
  moreover have "cy_host ob = cy_host o5" "cy_cpuLoad ob = cy_cpuLoad o5" "cy_memory ob = cy_memory o5"
    "cy_root ob = cy_root o5" "cy_raspberryPi ob = cy_raspberryPi o5" "cy_network ob = cy_network o5"
    using ob by auto
  ultimately show ?thesis by metis
qed

definition example_contexts :: cycleContexts where
  "example_contexts =
     \<lparr>ctx_lifecycle = \<lambda>i. None, ctx_cycle = \<lambda>i. Some ContextDeadlineExceeded,
      ctx_domain = \<lambda>i. None\<rparr>"

definition example_collectors :: cycleCollectors where
  "example_collectors =
     \<lparr>CollectHost = Return \<lparr>host_hostname = present ''pi'', host_uptime = present 12\<rparr>,
      CollectCPULoad = Panic (New ''not called''), CollectMemory = Panic (New ''not called''),
      CollectRootFilesystem = Panic (New ''not called''),
      CollectRaspberryPi = Panic (New ''not called''), CollectNetwork = Panic (New ''not called'')\<rparr>"

theorem expired_domains_discarded_witness:
  "\<exists>ob. collectObservations example_contexts example_collectors unavailableCPULatest = Return (Inr ob)
     \<and> cy_memory ob = cy_memory (unavailableCycle (Some errCollectionDeadline))"
proof -
  have "validateHost \<lparr>host_hostname = present ''pi'', host_uptime = present 12\<rparr> = None"
    by (simp add: validateHost_None_iff host_ok_def valid_utf8_ascii)
  moreover have "cpu_answer_ok unavailableCPULatest"
    by (simp add: cpu_answer_ok_def unavailableCPULatest_def)
  then have "validateOutcome (copyCPU unavailableCPULatest t) = None" for t
    using copyCPU_ok by (simp add: validateOutcome_None_iff)
  ultimately obtain ob where
    ob: "collectObservations example_contexts example_collectors unavailableCPULatest = Return (Inr ob)"
    by (simp add: collectObservations_def collectHostDomain_def collectDomain_def runDomain_def
        example_contexts_def example_collectors_def Let_def)
  from expired_domains_discarded [OF ob refl] show ?thesis
    using ob by (simp add: example_contexts_def)
qed

text \<open>
  C33 (cpu_copied_when_fresh): the utilization in a snapshot is present exactly when the observer's
  latest publication is, was sampled at most 1.25 seconds ago and describes the CPU topology that
  the cycle itself observed; it is then the published percentage.
\<close>

theorem cpu_copied_when_fresh:
  assumes "cpu_answer_ok (p, now)"
  shows "copyCPU (p, now) topology = present u \<longleftrightarrow>
      p = present (o_value p) \<and> now - pub_sampledAt (o_value p) \<le> 1250 * 1000000
      \<and> is_present (cl_logicalCPUCount topology)
      \<and> o_value (cl_logicalCPUCount topology) = topology_count (pub_topology (o_value p))
      \<and> cl_topologySignature topology = topology_signature (pub_topology (o_value p))
      \<and> u = pub_utilizationPercent (o_value p)"
proof -
  have p: "valid_outcome p" using assms by (simp add: cpu_answer_ok_def publication_ok_def)
  then have none: "validateOutcome p = None" by (simp add: validateOutcome_None_iff)
  have pres: "p = present (o_value p) \<longleftrightarrow> is_present p"
    using p by (cases p) (auto simp: present_def is_present_def valid_outcome_def)
  show ?thesis
  proof (cases "is_present p")
    case False
    then have "o_state (copyCPU (p, now) topology) \<noteq> statePresent"
      using none by (simp add: copyCPU_def present_state)
    then show ?thesis using False pres by (metis present_simps(1))
  next
    case True
    then have c: "percentage (pub_utilizationPercent (o_value p))"
      "topology_count (pub_topology (o_value p)) \<noteq> 0" "topology_signature (pub_topology (o_value p)) \<noteq> []"
      "\<not> now - pub_sampledAt (o_value p) < 0"
      using assms by (simp_all add: cpu_answer_ok_def publication_ok_def is_present_def)
    have differs: "unavailable reasonTemporarilyUnavailable (Some e) \<noteq> present u" for e
      by (metis is_present_simps(1,3) known_reason_simps(3))
    have "present v = present u \<longleftrightarrow> u = v" for v :: float64
      by (auto simp: present_def)
    then show ?thesis
      using True pres none c differs
      by (auto simp: copyCPU_def present_state Let_def percentage_iff maximumPublicationAge_def)
  qed
qed

theorem cpu_copied_when_fresh_witness:
  "copyCPU (present \<lparr>pub_utilizationPercent = Fin 50, pub_sampledAt = 10,
                    pub_topology = \<lparr>topology_count = 4, topology_signature = ''0-3''\<rparr>\<rparr>, 20)
     \<lparr>cl_logicalCPUCount = present 4, cl_topologySignature = ''0-3'',
      cl_load = unavailable reasonUnsupported (Some ErrNotExist)\<rparr> = present (Fin 50)"
proof -
  have "is_float64 (Fin 50)" using is_float64_of_nat [of 50] by simp
  then show ?thesis
    by (subst cpu_copied_when_fresh)
      (simp_all add: cpu_answer_ok_def publication_ok_def percentage_def)
qed

end
