(* ===== verification/CycleSize.thy ===== *)
theory CycleSize
  imports Coordinator DocumentReader
begin

text \<open>
  The size of a cycle's document: the values that \<open>observe/generic.go\<close>, \<open>network.go\<close>,
  \<open>raspberrypi.go\<close> and \<open>cpu.go\<close> can present keep the document of \<open>coordinator.go\<close> within the bound
  of the encoder, as long as the kernel keeps its limits on names.
\<close>

section \<open>Observations within the limits\<close>

definition load_floats :: "loadObservation \<Rightarrow> bool" where
  "load_floats l \<longleftrightarrow>
     is_float64 (load_oneMinute l) \<and> is_float64 (load_fiveMinutes l) \<and> is_float64 (load_fifteenMinutes l)"

definition when_present :: "('a \<Rightarrow> bool) \<Rightarrow> 'a outcome \<Rightarrow> bool" where
  "when_present P v \<longleftrightarrow> (is_present v \<longrightarrow> P (o_value v))"

definition names_within :: "networkObservation \<Rightarrow> bool" where
  "names_within n \<longleftrightarrow> (\<forall>i\<in>set (obs_interfaces n). length (ifo_name i) < IFNAMSIZ)"

definition cycle_sized :: "cycleObservations \<Rightarrow> bool" where
  "cycle_sized ob \<longleftrightarrow>
     when_present (\<lambda>h. length h \<le> HOST_NAME_MAX) (host_hostname (cy_host ob))
     \<and> when_present load_floats (cl_load (cy_cpuLoad ob))
     \<and> when_present is_float64 (rpi_temperature (cy_raspberryPi ob))
     \<and> when_present names_within (cy_network ob)
     \<and> when_present is_float64 (cy_cpuUtilization ob)"

lemma when_present_simps [simp]:
  "when_present P (present x) \<longleftrightarrow> P x"
  "known_reason r \<Longrightarrow> when_present P (unavailable r (Some e))"
  "known_reason r \<Longrightarrow> when_present P (acquisitionFailure (Some e) r)"
  by (simp_all add: when_present_def)

lemma reason_issue_message:
  "plain_text (Message (reason_issue p r)) \<and> length (Message (reason_issue p r)) \<le> 64"
  by (simp add: reason_issue_def plain_char_def)

lemma issues_of_reason: "i \<in> set (issues_of v ps) \<Longrightarrow> \<exists>p r. i = reason_issue p r"
  by (auto simp: issues_of_def split: if_splits)

lemma interface_issues_reason: "i \<in> set (interface_issues k ns) \<Longrightarrow> \<exists>p r. i = reason_issue p r"
  by (induction ns arbitrary: k) (auto dest: issues_of_reason)

lemma assembled_reason: "i \<in> set (Issues (assembled ob)) \<Longrightarrow> \<exists>p r. i = reason_issue p r"
  by (auto simp: assembled_def network_issues_def dest: issues_of_reason interface_issues_reason
      split: if_splits)

lemma state_length:
  "interface_observation_ok n \<Longrightarrow> is_present (ifo_state n) \<Longrightarrow> length (o_value (ifo_state n)) \<le> 7"
  by (auto simp: interface_observation_ok_def)

lemma assembled_sized:
  assumes "cycle_ok ob" "cycle_sized ob"
  shows "kernel_sized (assembled ob\<lparr>ObservedAt := now\<rparr>)"
proof -
  have messages: "\<forall>i\<in>set (Issues (assembled ob)). plain_text (Message i) \<and> length (Message i) \<le> 64"
    using assembled_reason reason_issue_message by blast
  have network: "length (Name i) < IFNAMSIZ \<and> (\<forall>t. State i = Some t \<longrightarrow> length t \<le> 7)"
    if n: "SnapNetwork (assembled ob) = Some n" "i \<in> set (Interfaces n)" for n i
  proof -
    have p: "is_present (cy_network ob)"
      "n = \<lparr>Interfaces = map observed_interface (obs_interfaces (o_value (cy_network ob)))\<rparr>"
      using n(1) by (auto simp: assembled_def network_of_def)
    then obtain k where k: "k \<in> set (obs_interfaces (o_value (cy_network ob)))" "i = observed_interface k"
      using n(2) by auto
    have "interface_observation_ok k" "length (ifo_name k) < IFNAMSIZ"
      using assms p(1) k(1)
      by (simp_all add: cycle_ok_def network_observation_ok_def cycle_sized_def when_present_def
          names_within_def)
    then show ?thesis using k(2) state_length by (auto simp: observed_interface_def)
  qed
  show ?thesis
    using assms(2) messages network
    by (auto simp: kernel_sized_def cycle_sized_def when_present_def load_floats_def assembled_def
        load_of_def raspberryPi_of_def)
qed

lemma cycle_fits:
  assumes "cycle_ok ob" "cycle_sized ob" "is_present (host_hostname (cy_host ob))" "time_ok now"
  shows "encodes_within (assembled ob\<lparr>ObservedAt := now\<rparr>)"
  using assembled_wf [OF assms(1,3,4)] assembled_match assembled_sized [OF assms(1,2)]
  by (rule kernel_sized_fits)

section \<open>The collectors stay within the limits\<close>

lemma collectHost_sized:
  "(\<And>h. src_hostname source = Inr h \<Longrightarrow> length h \<le> HOST_NAME_MAX) \<Longrightarrow>
   when_present (\<lambda>h. length h \<le> HOST_NAME_MAX) (host_hostname (collectHost c source))"
  by (auto simp: collectHost_def Let_def split: option.split sum.split)

lemma parseLoad_floats: "parseLoad data = Inr l \<Longrightarrow> load_floats l"
  by (auto simp: parseLoad_def parseLoadValue_def Let_def go_bind_Inr_iff load_floats_def
      split: if_splits sum.splits dest: parse_float_is_float64)

lemma collectCPULoad_sized: "when_present load_floats (cl_load (collectCPULoad c source))"
  using parseLoad_floats
  by (auto simp: collectCPULoad_def Let_def split: option.split sum.split)

lemma parseTemperature_sized: "when_present is_float64 (parseTemperature data)"
  by (auto simp: parseTemperature_def temperatureOf_def Let_def split: sum.split)

lemma findThermalZone_absent:
  "findThermalZone ctx source i names match = Inl v \<Longrightarrow> \<not> is_present v"
  by (induction ctx source i names match rule: findThermalZone.induct)
    (auto simp: split: option.splits sum.splits if_splits)

lemma collectSoCTemperature_sized: "when_present is_float64 (collectSoCTemperature ctx (Some source))"
  using findThermalZone_absent parseTemperature_sized
  by (auto simp: collectSoCTemperature_def when_present_def split: sum.split)

lemma collectNetwork_sized:
  assumes "collectNetwork c r = Some (Return v)"
    and "\<And>links l. r = Inr links \<Longrightarrow> l \<in> set links \<Longrightarrow> length (LinkName l) < IFNAMSIZ"
  shows "when_present names_within v"
  using collectNetwork_present [OF assms(1)] assms(2)
  by (auto simp: when_present_def names_within_def observeLink_def)

section \<open>Every cycle fits\<close>

text \<open>What the collectors of a cycle must present for its document to fit.\<close>

definition collectors_sized :: "cycleCollectors \<Rightarrow> bool" where
  "collectors_sized cc \<longleftrightarrow>
     (\<forall>v. CollectHost cc = Return v \<longrightarrow> when_present (\<lambda>h. length h \<le> HOST_NAME_MAX) (host_hostname v))
     \<and> (\<forall>v. CollectCPULoad cc = Return v \<longrightarrow> when_present load_floats (cl_load v))
     \<and> (\<forall>v. CollectRaspberryPi cc = Return v \<longrightarrow> when_present is_float64 (rpi_temperature v))
     \<and> (\<forall>v. CollectNetwork cc = Return v \<longrightarrow> when_present names_within v)"

lemma stores_keep_sized: "collectors_sized cc \<Longrightarrow> stores_keep cycle_sized cc"
  by (auto simp: collectors_sized_def stores_keep_def cycle_sized_def)

lemma unavailableCycle_sized: "cycle_sized (unavailableCycle (Some e))"
  by (simp add: cycle_sized_def unavailableCycle_def)

lemma collectObservations_sized:
  assumes "collectors_ok cc" "cpu_answer_ok latest" "collectors_sized cc"
    and "collectObservations c cc latest = Return (Inr ob)"
  shows "cycle_sized ob"
proof -
  have "stage c cycle_sized (collectObservations c cc latest)"
  proof (rule collectObservations_keep [OF assms(1,2) stores_keep_sized [OF assms(3)]
        unavailableCycle_sized])
    fix ob
    assume "cycle_sized ob"
    then show "cycle_sized (ob\<lparr>cy_cpuUtilization := copyCPU latest (cy_cpuLoad ob)\<rparr>)"
      using copyCPU_ok [OF assms(2), of "cy_cpuLoad ob"] by (simp add: cycle_sized_def when_present_def)
  qed
  then show ?thesis using assms(4) by (auto simp: stage_def)
qed

lemma productionCollectors_sized:
  assumes "\<And>h. src_hostname src = Inr h \<Longrightarrow> length h \<le> HOST_NAME_MAX"
    and "\<And>ls l. links = Inr ls \<Longrightarrow> l \<in> set ls \<Longrightarrow> length (LinkName l) < IFNAMSIZ"
    and "when_present is_float64 (rpi_temperature rpi)"
  shows "collectors_sized (productionCollectors ctxErr src links rpi)"
proof -
  obtain v where v: "collectNetwork (ctxErr 5) links = Some (Return v)" using collectNetwork_ok .
  then have "when_present names_within v" using assms(2) by (rule collectNetwork_sized)
  with v show ?thesis
    using assms(3) collectHost_sized [of src, OF assms(1)] collectCPULoad_sized
    by (simp add: collectors_sized_def productionCollectors_def)
qed

lemma collect_fits:
  assumes "collectors_ok cc" "collectors_sized cc" "cpu_answer_ok latest" "time_ok now"
    and "collect Encode (Report now) now c cc latest r = Return (r', out, res)"
  shows "(\<exists>e i. res = Inl e \<and> ctx_lifecycle c i = Some e) \<or> res = Inl ErrNoUsefulSnapshot
     \<or> (\<exists>e. res = Inr e \<and> encoded_valid e \<and> encoded_len e \<le> MaximumSize)"
  using assms(1,3,4) _ assms(5)
proof (rule production.collect_within)
  fix ob
  assume ob: "collectObservations c cc latest = Return (Inr ob)" "cycle_ok ob"
    "is_present (host_hostname (cy_host ob))"
  show "encodes_within (assembled ob\<lparr>ObservedAt := now\<rparr>)"
    using ob(2) collectObservations_sized [OF assms(1,3,2) ob(1)] ob(3) assms(4) by (rule cycle_fits)
qed

text \<open>And what it answers with is a JSON text of the documented schema.\<close>

lemma collect_schema:
  assumes "collectors_ok cc" "collectors_sized cc" "cpu_answer_ok latest" "time_ok now"
    and "collect Encode (Report now) now c cc latest r = Return (r', out, Inr e)"
  shows "\<exists>j. read_json (encoded_body e) = Some j \<and> conforms documentSchema j"
proof -
  have fits: "encodes_within (assembled ob\<lparr>ObservedAt := now\<rparr>)"
    if "collectObservations c cc latest = Return (Inr ob)" "cycle_ok ob"
      "is_present (host_hostname (cy_host ob))" for ob
    using that(2) collectObservations_sized [OF assms(1,3,2) that(1)] that(3) assms(4)
    by (rule cycle_fits)
  obtain ob where ob: "collectObservations c cc latest = Return (Inr ob)" "cycle_ok ob"
    "Encode (assembled ob\<lparr>ObservedAt := now\<rparr>) = Inr e"
    using production.collect_encodes [OF assms(1,3,4) fits assms(5)] by blast
  have "kernel_sized (assembled ob\<lparr>ObservedAt := now\<rparr>)"
    using ob(2) collectObservations_sized [OF assms(1,3,2) ob(1)] by (rule assembled_sized)
  then have "snapshot_floats (assembled ob\<lparr>ObservedAt := now\<rparr>)"
    by (simp add: kernel_sized_def snapshot_floats_def)
  with ob(3) show ?thesis by (rule encode_reads_json)
qed

section \<open>Properties\<close>

text \<open>
  C6 (document_fits): whatever a cycle observes, the document it assembles fits the encoder's bound
  as long as the host name and the interface names keep the kernel's limits: with a hostname and a
  usable value, the encoder accepts it; without a usable value it answers with the error for that.
\<close>

theorem document_fits:
  assumes "cycle_ok ob" "cycle_sized ob" "is_present (host_hostname (cy_host ob))" "time_ok now"
    and "d = assembled ob\<lparr>ObservedAt := now\<rparr>"
  shows "\<exists>body. marshal (wire_of d\<lparr>wireIssues := Issues d\<rparr>) = Inr body \<and> length body \<le> MaximumSize
    \<and> Encode d = (if usable_values d = 0 then Inl ErrNoUsefulSnapshot else Inr (Encoded body))"
proof -
  note wf = assembled_wf [OF assms(1,3,4), folded assms(5)]
  note match = assembled_match [of now ob, folded assms(5)]
  obtain body where body: "marshal (wire_of d\<lparr>wireIssues := Issues d\<rparr>) = Inr body"
    using marshal_wf [OF wf] .
  then have "length body \<le> MaximumSize"
    using cycle_fits [OF assms(1-4)] by (simp add: encodes_within_def assms(5))
  then show ?thesis
    using body Encode_useful [OF wf match] Encode_empty [OF wf match] by simp
qed

theorem document_fits_witness:
  "\<exists>e. Encode (assembled example_observations\<lparr>ObservedAt := example_time\<rparr>) = Inr e"
proof -
  let ?d = "assembled example_observations\<lparr>ObservedAt := example_time\<rparr>"
  have "cycle_sized example_observations"
    by (simp add: cycle_sized_def example_observations_def unavailableCycle_def HOST_NAME_MAX_def)
  from document_fits [OF example_observations_ok(1) this example_observations_ok(2) example_time_ok refl]
  obtain body where "Encode ?d =
      (if usable_values ?d = 0 then Inl ErrNoUsefulSnapshot else Inr (Encoded body))" by blast
  moreover have "usable_values ?d \<noteq> 0"
    by (simp add: usable_values_def present_values_def memory_present_def assembled_def example_observations_def
        unavailableCycle_def network_of_def value_of_def load_of_def memory_of_def raspberryPi_of_def)
  ultimately show ?thesis by simp
qed

end
