(* ===== verification/SingleFlight.thy ===== *)
theory SingleFlight
  imports Outcome Snapshot
begin

text \<open>
  The concurrent part of \<open>internal/observe/coordinator.go\<close>: \<open>Snapshot\<close>, \<open>run\<close> and
  \<open>fail\<close> as atomic sections of a shared state, interleaved by a step relation. A cycle is a
  number; its result comes from the collection (\<open>Coordinator.thy\<close>), here any result that
  \<open>produces\<close> admits.
\<close>

section \<open>State\<close>

text \<open>
  A cycle is being collected, then has its result recorded under the mutex, then has its
  \<open>done\<close> channel closed.
\<close>

datatype cyclePhase = Collecting | Recorded "Encoded go" | Finished "Encoded go"

text \<open>
  \<open>co_fatal\<close> lists the calls of the fatal notifier, which \<open>fatalOnce\<close> guards; \<open>co_failing\<close>
  lists the errors that callers inside \<open>fail\<close> have read under the mutex and not yet notified.
\<close>

record Coordinator =
  co_active :: "nat option"
  co_failed :: "goerror option"
  co_fatal :: "goerror list"
  co_cycles :: "nat \<rightharpoonup> cyclePhase"
  co_next :: nat
  co_failing :: "goerror list"

definition newCoordinator :: Coordinator where
  "newCoordinator =
     \<lparr>co_active = None, co_failed = None, co_fatal = [], co_cycles = Map.empty, co_next = 0,
      co_failing = []\<rparr>"

definition fatalOnce :: "goerror \<Rightarrow> Coordinator \<Rightarrow> Coordinator" where
  "fatalOnce e co = (if co_fatal co = [] then co\<lparr>co_fatal := [e]\<rparr> else co)"

section \<open>Operations\<close>

text \<open>The section of \<open>Snapshot\<close> under the mutex: a refusal, or the cycle to wait for.\<close>

datatype snapshotEntry = Refused goerror | Joined nat

definition joinCycle :: "goerror option \<Rightarrow> Coordinator \<Rightarrow> Coordinator \<times> snapshotEntry" where
  "joinCycle requestErr co =
     (case requestErr of
        Some e \<Rightarrow> (co, Refused e)
      | None \<Rightarrow>
          (case co_failed co of
             Some e \<Rightarrow> (co, Refused e)
           | None \<Rightarrow>
               (case co_active co of
                  Some i \<Rightarrow> (co, Joined i)
                | None \<Rightarrow>
                    (let i = co_next co
                     in (co\<lparr>co_active := Some i, co_cycles := (co_cycles co)(i \<mapsto> Collecting),
                            co_next := Suc i\<rparr>, Joined i)))))"

text \<open>The wait of \<open>Snapshot\<close>: \<open>None\<close> while neither channel is ready.\<close>

definition awaitCycle :: "goerror option \<Rightarrow> nat \<Rightarrow> Coordinator \<Rightarrow> (Encoded go) option" where
  "awaitCycle requestErr i co =
     (case requestErr of
        Some e \<Rightarrow> Some (Inl e)
      | None \<Rightarrow> (case co_cycles co i of Some (Finished r) \<Rightarrow> Some r | _ \<Rightarrow> None))"

text \<open>\<open>fail\<close>: the section under the mutex, then the notification.\<close>

definition enterFail :: "goerror \<Rightarrow> Coordinator \<Rightarrow> Coordinator" where
  "enterFail err co =
     (let failed = (case co_failed co of None \<Rightarrow> err | Some e \<Rightarrow> e)
      in co\<lparr>co_failed := Some failed, co_failing := failed # co_failing co\<rparr>)"

definition leaveFail :: "goerror \<Rightarrow> Coordinator \<Rightarrow> Coordinator" where
  "leaveFail e co = fatalOnce e (co\<lparr>co_failing := remove1 e (co_failing co)\<rparr>)"

text \<open>A nil request context.\<close>

definition nilRequest :: "Coordinator \<Rightarrow> Coordinator" where
  "nilRequest co = enterFail (internalDefect (Some (New ''request context is nil''))) co"

definition defect_result :: "Encoded go \<Rightarrow> bool" where
  "defect_result r \<longleftrightarrow> (case r of Inl e \<Rightarrow> isInternalDefect e | Inr v \<Rightarrow> False)"

text \<open>The deferred end of \<open>run\<close>: the section under the mutex, then notification and close.\<close>

definition recordCycle :: "nat \<Rightarrow> Encoded go \<Rightarrow> Coordinator \<Rightarrow> Coordinator" where
  "recordCycle i r co =
     co\<lparr>co_failed := (case r of
                       Inl e \<Rightarrow> if isInternalDefect e \<and> co_failed co = None then Some e else co_failed co
                     | Inr v \<Rightarrow> co_failed co),
        co_cycles := (co_cycles co)(i \<mapsto> Recorded r),
        co_active := (if co_active co = Some i then None else co_active co)\<rparr>"

definition finishCycle :: "nat \<Rightarrow> Encoded go \<Rightarrow> Coordinator \<Rightarrow> Coordinator" where
  "finishCycle i r co =
     (let co' = (case r of Inl e \<Rightarrow> if isInternalDefect e then fatalOnce e co else co | Inr v \<Rightarrow> co)
      in co'\<lparr>co_cycles := (co_cycles co')(i \<mapsto> Finished r)\<rparr>)"

section \<open>Interleaving\<close>

inductive coordinator_step :: "(Encoded go \<Rightarrow> bool) \<Rightarrow> Coordinator \<Rightarrow> Coordinator \<Rightarrow> bool"
  for produces where
  join: "coordinator_step produces co (fst (joinCycle requestErr co))"
| nil_request: "coordinator_step produces co (nilRequest co)"
| leave_fail: "e \<in> set (co_failing co) \<Longrightarrow> coordinator_step produces co (leaveFail e co)"
| recorded:
    "co_cycles co i = Some Collecting \<Longrightarrow> produces r \<Longrightarrow>
     coordinator_step produces co (recordCycle i r co)"
| finished:
    "co_cycles co i = Some (Recorded r) \<Longrightarrow> coordinator_step produces co (finishCycle i r co)"

inductive coordinator_reachable :: "(Encoded go \<Rightarrow> bool) \<Rightarrow> Coordinator \<Rightarrow> bool" for produces where
  initial: "coordinator_reachable produces newCoordinator"
| step: "coordinator_reachable produces co \<Longrightarrow> coordinator_step produces co co' \<Longrightarrow>
    coordinator_reachable produces co'"

section \<open>Invariants\<close>

definition flight_inv :: "Coordinator \<Rightarrow> bool" where
  "flight_inv co \<longleftrightarrow>
     (\<forall>i. co_cycles co i = Some Collecting \<longleftrightarrow> co_active co = Some i)
     \<and> (\<forall>i. co_next co \<le> i \<longrightarrow> co_cycles co i = None)
     \<and> (\<forall>i < co_next co. co_cycles co i \<noteq> None)"

fun defective :: "cyclePhase option \<Rightarrow> bool" where
  "defective (Some (Recorded r)) = defect_result r"
| "defective _ = False"

text \<open>Some caller, or the goroutine of some cycle, is about to notify.\<close>

definition failing :: "Coordinator \<Rightarrow> bool" where
  "failing co \<longleftrightarrow> co_failing co \<noteq> [] \<or> (\<exists>i. defective (co_cycles co i))"

definition failure_inv :: "Coordinator \<Rightarrow> bool" where
  "failure_inv co \<longleftrightarrow>
     (co_failed co \<noteq> None \<longleftrightarrow> co_fatal co \<noteq> [] \<or> failing co)
     \<and> length (co_fatal co) \<le> 1 \<and> (\<forall>e\<in>set (co_fatal co). isInternalDefect e)
     \<and> (\<forall>e. co_failed co = Some e \<longrightarrow> isInternalDefect e)
     \<and> (\<forall>e\<in>set (co_failing co). co_failed co = Some e)
     \<and> (\<forall>i r. co_cycles co i = Some (Finished r) \<and> defect_result r \<longrightarrow> co_fatal co \<noteq> [])"

lemma newCoordinator_inv: "flight_inv newCoordinator" "failure_inv newCoordinator"
  by (simp_all add: newCoordinator_def flight_inv_def failure_inv_def failing_def)

lemma fatalOnce_simps [simp]:
  "co_active (fatalOnce e co) = co_active co" "co_cycles (fatalOnce e co) = co_cycles co"
  "co_next (fatalOnce e co) = co_next co" "co_failed (fatalOnce e co) = co_failed co"
  "co_failing (fatalOnce e co) = co_failing co" "co_fatal (fatalOnce e co) \<noteq> []"
  by (simp_all add: fatalOnce_def)

lemma fatalOnce_inv:
  "length (co_fatal co) \<le> 1 \<Longrightarrow> length (co_fatal (fatalOnce e co)) \<le> 1"
  "\<forall>x\<in>set (co_fatal co). isInternalDefect x \<Longrightarrow> isInternalDefect e \<Longrightarrow>
   \<forall>x\<in>set (co_fatal (fatalOnce e co)). isInternalDefect x"
  by (auto simp: fatalOnce_def)

lemma flight_step:
  assumes "coordinator_step produces co co'" "flight_inv co"
  shows "flight_inv co'"
  using assms(1)
proof (cases rule: coordinator_step.cases)
  case (join requestErr)
  then show ?thesis
    using assms(2)
    by (auto simp: joinCycle_def flight_inv_def Let_def less_Suc_eq split: option.splits)
next
  case nil_request
  then show ?thesis using assms(2) by (simp add: nilRequest_def enterFail_def Let_def flight_inv_def)
next
  case (leave_fail e)
  then show ?thesis using assms(2) by (simp add: leaveFail_def flight_inv_def)
next
  case (recorded i r)
  then have "i < co_next co" using assms(2) by (metis flight_inv_def not_less option.distinct(1))
  then show ?thesis using recorded assms(2) by (auto simp: recordCycle_def flight_inv_def)
next
  case (finished i r)
  then have "co_cycles co' = (co_cycles co)(i \<mapsto> Finished r)" "co_active co' = co_active co"
    "co_next co' = co_next co"
    by (simp_all add: finishCycle_def Let_def split: sum.splits)
  moreover have "co_active co \<noteq> Some i"
    using assms(2) finished by (metis cyclePhase.distinct(1) flight_inv_def option.inject)
  ultimately show ?thesis using assms(2) finished by (auto simp: flight_inv_def)
qed

lemma failing_update:
  assumes "co_cycles co' = (co_cycles co)(i \<mapsto> p)" "co_failing co' = co_failing co"
    and "\<not> defective (co_cycles co i)" "\<not> defective (Some p)"
  shows "failing co' = failing co"
  unfolding failing_def assms(1,2) using assms(3,4) by (metis fun_upd_apply)

lemma finishCycle_simps:
  "co_failed (finishCycle i r co) = co_failed co"
  "co_failing (finishCycle i r co) = co_failing co"
  "co_cycles (finishCycle i r co) = (co_cycles co)(i \<mapsto> Finished r)"
  "co_next (finishCycle i r co) = co_next co" "co_active (finishCycle i r co) = co_active co"
  "co_fatal (finishCycle i r co) =
     (case r of Inl e \<Rightarrow> if isInternalDefect e then co_fatal (fatalOnce e co) else co_fatal co
      | Inr v \<Rightarrow> co_fatal co)"
  by (simp_all add: finishCycle_def Let_def split: sum.splits)

lemma failure_step:
  assumes "coordinator_step produces co co'" "flight_inv co" "failure_inv co"
  shows "failure_inv co'"
  using assms(1)
proof (cases rule: coordinator_step.cases)
  case (join requestErr)
  have "co_cycles co (co_next co) = None" using assms(2) by (simp add: flight_inv_def)
  then have fresh: "\<not> defective (co_cycles co (co_next co))" "\<not> defective (Some Collecting)"
    by simp_all
  have f: "failing (co\<lparr>co_active := a, co_cycles := (co_cycles co)(co_next co \<mapsto> Collecting),
      co_next := n\<rparr>) = failing co" for a n
    by (rule failing_update [OF _ _ fresh]) simp_all
  show ?thesis
    using join assms(3) f
    by (auto simp: joinCycle_def failure_inv_def Let_def split: option.splits if_splits)
next
  case nil_request
  then show ?thesis
    using assms(3)
    by (auto simp: nilRequest_def enterFail_def Let_def failure_inv_def failing_def split: option.splits)
next
  case (leave_fail e)
  let ?c = "co\<lparr>co_failing := remove1 e (co_failing co)\<rparr>"
  have failed: "co_failed co = Some e" "isInternalDefect e"
    using leave_fail assms(3) by (auto simp: failure_inv_def)
  have fatal: "length (co_fatal (fatalOnce e ?c)) \<le> 1"
    "\<forall>x\<in>set (co_fatal (fatalOnce e ?c)). isInternalDefect x"
    using fatalOnce_inv [of ?c e] failed(2) assms(3) by (simp_all add: failure_inv_def)
  have "\<forall>x\<in>set (remove1 e (co_failing co)). co_failed co = Some x"
    using assms(3) set_remove1_subset [of e "co_failing co"] by (auto simp: failure_inv_def)
  with fatal failed show ?thesis
    unfolding leave_fail leaveFail_def failure_inv_def fatalOnce_simps by simp
next
  case (recorded i r)
  show ?thesis
  proof (cases "defect_result r")
    case True
    then obtain e where "r = Inl e" "isInternalDefect e" by (auto simp: defect_result_def split: sum.splits)
    moreover have "failing (recordCycle i r co)"
      unfolding failing_def using True by (intro disjI2 exI [of _ i]) (simp add: recordCycle_def)
    ultimately show ?thesis
      using recorded assms(3) by (auto simp: recordCycle_def failure_inv_def split: if_splits)
  next
    case False
    then have "failing (recordCycle i r co) = failing co"
      using recorded False
      by (intro failing_update [where i = i and p = "Recorded r"]) (simp_all add: recordCycle_def)
    moreover have "co_failed (recordCycle i r co) = co_failed co"
      using False by (auto simp: recordCycle_def defect_result_def split: sum.splits)
    ultimately have "failing (recordCycle i r co) = failing co"
      "co_failed (recordCycle i r co) = co_failed co" by blast+
    then show ?thesis
      using recorded assms(3) by (auto simp: recordCycle_def failure_inv_def split: if_splits)
  qed
next
  case (finished i r)
  show ?thesis
  proof (cases "defect_result r")
    case True
    then obtain e where e: "r = Inl e" "isInternalDefect e"
      by (auto simp: defect_result_def split: sum.splits)
    have "failing co"
      unfolding failing_def using finished True by (intro disjI2 exI [of _ i]) simp
    then have "co_failed co \<noteq> None" using assms(3) by (simp add: failure_inv_def)
    then show ?thesis
      using finished assms(3) e fatalOnce_inv [of co e]
      by (auto simp: failure_inv_def finishCycle_simps)
  next
    case False
    then have fatal: "co_fatal (finishCycle i r co) = co_fatal co"
      by (auto simp: finishCycle_simps defect_result_def split: sum.splits)
    have "failing (finishCycle i r co) = failing co"
      using finished False
      by (intro failing_update [where i = i and p = "Finished r"]) (simp_all add: finishCycle_simps)
    then show ?thesis
      using finished assms(3) fatal False
      by (auto simp: failure_inv_def finishCycle_simps split: if_splits)
  qed
qed

lemma coordinator_invariants:
  "coordinator_reachable produces co \<Longrightarrow> flight_inv co \<and> failure_inv co"
  by (induction rule: coordinator_reachable.induct)
    (auto intro: newCoordinator_inv flight_step failure_step)

section \<open>Causes of a failure\<close>

definition nilRequestDefect :: goerror where
  "nilRequestDefect = internalDefect (Some (New ''request context is nil''))"

text \<open>Errors and results come from the collections, or from a nil request.\<close>

definition cause_inv :: "(Encoded go \<Rightarrow> bool) \<Rightarrow> Coordinator \<Rightarrow> bool" where
  "cause_inv produces co \<longleftrightarrow>
     (\<forall>e. co_failed co = Some e \<or> e \<in> set (co_fatal co) \<longrightarrow> e = nilRequestDefect \<or> produces (Inl e))
     \<and> (\<forall>i r. co_cycles co i = Some (Recorded r) \<or> co_cycles co i = Some (Finished r) \<longrightarrow> produces r)"

lemma fatalOnce_set: "x \<in> set (co_fatal (fatalOnce e co)) \<Longrightarrow> x \<in> set (co_fatal co) \<or> x = e"
  by (simp add: fatalOnce_def split: if_splits)

lemma cause_step:
  assumes "coordinator_step produces co co'" "failure_inv co" "cause_inv produces co"
  shows "cause_inv produces co'"
  using assms(1)
proof (cases rule: coordinator_step.cases)
  case (join requestErr)
  then show ?thesis
    using assms(3) by (auto simp: joinCycle_def cause_inv_def Let_def split: option.splits if_splits)
next
  case nil_request
  then show ?thesis
    using assms(3)
    by (auto simp: nilRequest_def enterFail_def cause_inv_def nilRequestDefect_def Let_def
        split: option.splits)
next
  case (leave_fail e)
  then have "co_failed co = Some e" using assms(2) by (simp add: failure_inv_def)
  then show ?thesis
    using leave_fail assms(3) by (auto simp: leaveFail_def cause_inv_def dest!: fatalOnce_set)
next
  case (recorded i r)
  then show ?thesis
    using assms(3) by (auto simp: recordCycle_def cause_inv_def split: sum.splits if_splits)
next
  case (finished i r)
  then show ?thesis
    using assms(3)
    by (auto simp: finishCycle_simps cause_inv_def dest!: fatalOnce_set split: sum.splits if_splits)
qed

lemma coordinator_causes: "coordinator_reachable produces co \<Longrightarrow> cause_inv produces co"
proof (induction rule: coordinator_reachable.induct)
  case initial
  then show ?case by (simp add: cause_inv_def newCoordinator_def)
next
  case (step co co')
  then show ?case using cause_step coordinator_invariants by blast
qed

section \<open>Progress of a cycle\<close>

fun phaseRank :: "cyclePhase option \<Rightarrow> nat" where
  "phaseRank (Some Collecting) = 2"
| "phaseRank (Some (Recorded r)) = 1"
| "phaseRank _ = 0"

lemma step_phase:
  assumes "coordinator_step produces co co'" "flight_inv co" "co_cycles co i = Some p"
  shows "co_cycles co' i = Some p \<or> phaseRank (co_cycles co' i) < phaseRank (Some p)"
  using assms(1)
proof (cases rule: coordinator_step.cases)
  case (join requestErr)
  have "i \<noteq> co_next co" using assms(2,3) by (auto simp: flight_inv_def)
  then show ?thesis
    using join assms(3) by (simp add: joinCycle_def Let_def split: option.splits)
next
  case nil_request
  then show ?thesis using assms(3) by (simp add: nilRequest_def enterFail_def Let_def)
next
  case (leave_fail e)
  then show ?thesis using assms(3) by (simp add: leaveFail_def)
next
  case (recorded j r)
  then show ?thesis using assms(3) by (auto simp: recordCycle_def)
next
  case (finished j r)
  then show ?thesis using assms(3) by (auto simp: finishCycle_simps)
qed

section \<open>A coordinator for the witnesses\<close>

definition example_flight :: Coordinator where
  "example_flight = fst (joinCycle None newCoordinator)"

lemma example_flight: "coordinator_reachable produces example_flight"
  "co_cycles example_flight 0 = Some Collecting" "co_failed example_flight = None"
  unfolding example_flight_def
  by (rule coordinator_reachable.step [OF coordinator_reachable.initial coordinator_step.join])
    (simp_all add: joinCycle_def newCoordinator_def)

section \<open>Properties\<close>

text \<open>
  C8 (single_flight): at every moment at most one cycle is being collected, and a caller that
  joins while it is gets that cycle instead of a second one.
\<close>

theorem single_flight:
  assumes "coordinator_reachable produces co" "co_cycles co i = Some Collecting"
  shows "(\<forall>j. co_cycles co j = Some Collecting \<longrightarrow> j = i)
    \<and> (co_failed co = None \<longrightarrow> joinCycle None co = (co, Joined i))"
proof -
  have "flight_inv co" using coordinator_invariants [OF assms(1)] by blast
  then show ?thesis using assms(2) by (auto simp: flight_inv_def joinCycle_def)
qed

theorem single_flight_witness: "joinCycle None example_flight = (example_flight, Joined 0)"
  using single_flight [OF example_flight(1) [of "\<lambda>r. True"] example_flight(2)] example_flight(3) by blast

text \<open>
  C26 (fatal_once): the fatal notifier is called at most once and only with an internal defect; a
  coordinator has failed exactly when it was called or some caller is about to call it; and once
  failed it stays failed with the same error and starts no further cycle.
\<close>

theorem fatal_once:
  assumes "coordinator_reachable produces co"
  shows "length (co_fatal co) \<le> 1 \<and> (\<forall>e\<in>set (co_fatal co). isInternalDefect e)
    \<and> (co_failed co \<noteq> None \<longleftrightarrow> co_fatal co \<noteq> [] \<or> failing co)
    \<and> (\<forall>e co'. co_failed co = Some e \<and> coordinator_step produces co co' \<longrightarrow>
          co_failed co' = Some e \<and> co_next co' = co_next co)"
proof -
  have inv: "failure_inv co" using coordinator_invariants [OF assms] by blast
  have "co_failed co' = Some e \<and> co_next co' = co_next co"
    if "coordinator_step produces co co'" "co_failed co = Some e" for e co'
    using that(1)
  proof (cases rule: coordinator_step.cases)
    case (join requestErr)
    then show ?thesis using that(2) by (simp add: joinCycle_def split: option.splits)
  next
    case nil_request
    then show ?thesis using that(2) by (simp add: nilRequest_def enterFail_def)
  next
    case (leave_fail x)
    then show ?thesis using that(2) by (simp add: leaveFail_def)
  next
    case (recorded i r)
    then show ?thesis using that(2) by (simp add: recordCycle_def split: sum.splits)
  next
    case (finished i r)
    then show ?thesis using that(2) by (simp add: finishCycle_simps)
  qed
  with inv show ?thesis by (auto simp: failure_inv_def)
qed

theorem fatal_once_witness: "length (co_fatal (nilRequest example_flight)) \<le> 1"
  using fatal_once [OF coordinator_reachable.step
      [OF example_flight(1) [of "\<lambda>r. True"] coordinator_step.nil_request]] by blast

text \<open>
  Whatever a caller is answered after waiting is the result of a
  collection that finished, or the error of its own request; and a coordinator only ever fails
  with the internal defect of a collection or of a nil request.
\<close>

theorem answers_come_from_cycles:
  assumes "coordinator_reachable produces co"
  shows "(\<forall>i r. awaitCycle None i co = Some r \<longrightarrow> produces r \<and> co_cycles co i = Some (Finished r))
    \<and> (\<forall>e. co_failed co = Some e \<or> e \<in> set (co_fatal co) \<longrightarrow> e = nilRequestDefect \<or> produces (Inl e))"
  using coordinator_causes [OF assms]
  by (auto simp: awaitCycle_def cause_inv_def split: option.splits cyclePhase.splits)

theorem answers_come_from_cycles_witness:
  "co_failed (nilRequest example_flight) = Some nilRequestDefect"
proof -
  have "co_failed (nilRequest example_flight) \<noteq> None" by (simp add: nilRequest_def enterFail_def Let_def)
  then show ?thesis
    using answers_come_from_cycles [OF coordinator_reachable.step
        [OF example_flight(1) [of "\<lambda>r. False"] coordinator_step.nil_request]] by auto
qed

text \<open>
  A cycle that was joined is never lost: until it is finished its
  goroutine can move, each of its moves brings it closer to its end, nobody else's step touches
  it, and a finished result never changes.
\<close>

theorem joined_caller_answered:
  assumes "coordinator_reachable produces co" "co_cycles co i = Some p" "produces r"
  shows "((\<exists>r'. p = Finished r')
       \<or> (\<exists>co'. coordinator_step produces co co' \<and> phaseRank (co_cycles co' i) < phaseRank (Some p)
               \<and> co_cycles co' i \<noteq> None))
    \<and> (\<forall>co'. coordinator_step produces co co' \<longrightarrow>
       co_cycles co' i = Some p \<or> phaseRank (co_cycles co' i) < phaseRank (Some p))"
proof
  show "(\<exists>r'. p = Finished r')
       \<or> (\<exists>co'. coordinator_step produces co co' \<and> phaseRank (co_cycles co' i) < phaseRank (Some p)
               \<and> co_cycles co' i \<noteq> None)"
  proof (cases p)
    case Collecting
    then have "coordinator_step produces co (recordCycle i r co)"
      using assms(2,3) by (intro coordinator_step.recorded) simp_all
    then show ?thesis using Collecting by (intro disjI2 exI [of _ "recordCycle i r co"]) (simp add: recordCycle_def)
  next
    case (Recorded r')
    then have "coordinator_step produces co (finishCycle i r' co)"
      using assms(2) by (intro coordinator_step.finished) simp
    then show ?thesis
      using Recorded by (intro disjI2 exI [of _ "finishCycle i r' co"]) (simp add: finishCycle_simps)
  qed simp
  show "\<forall>co'. coordinator_step produces co co' \<longrightarrow>
       co_cycles co' i = Some p \<or> phaseRank (co_cycles co' i) < phaseRank (Some p)"
    using step_phase [OF _ _ assms(2)] coordinator_invariants [OF assms(1)] by blast
qed

theorem joined_caller_answered_witness:
  "\<exists>co'. coordinator_step (\<lambda>r. r = Inl ErrNoUsefulSnapshot) example_flight co'
     \<and> phaseRank (co_cycles co' 0) < 2"
  using joined_caller_answered [OF example_flight(1) [of "\<lambda>r. r = Inl ErrNoUsefulSnapshot"]
      example_flight(2) refl] by auto

end
