(* ===== verification/Providers.thy ===== *)
theory Providers
  imports CycleSize SingleFlight
begin

text \<open>
  The constructors of \<open>observe/coordinator.go\<close>: which collectors, which CPU publication, which
  degradation reporter and which encoder a coordinator works with. An interface value is what its
  methods answer in one cycle, and \<open>None\<close> is nil.
\<close>

section \<open>Dependencies\<close>

record 'r coordinatorDependencies =
  dep_collectors :: "cycleCollectors option"
  dep_cpu :: "(cpuPublication outcome \<times> int) option"
  dep_degradation :: "'r reportFunction option"
  dep_now :: "gotime option"
  dep_withTimeout :: "cycleContexts option"
  dep_encode :: "(Snapshot \<Rightarrow> Encoded go) option"

text \<open>A coordinator: its dependencies, all of them present, and the state \<open>SingleFlight\<close> guards.\<close>

record 'r coordinatorService =
  sv_collectors :: cycleCollectors
  sv_cpu :: "cpuPublication outcome \<times> int"
  sv_degradation :: "'r reportFunction"
  sv_now :: gotime
  sv_withTimeout :: cycleContexts
  sv_encode :: "Snapshot \<Rightarrow> Encoded go"
  sv_shared :: Coordinator

section \<open>Constructors\<close>

definition coordinatorFrom ::
    "bool \<Rightarrow> bool \<Rightarrow> 'r coordinatorDependencies \<Rightarrow> 'r coordinatorService go" where
  "coordinatorFrom lifecycleNil fatalNil d =
     (if lifecycleNil then Inl (New ''lifecycle context is required'')
      else if fatalNil then Inl (New ''fatal notifier is required'')
      else (case dep_collectors d of
         None \<Rightarrow> Inl (New ''collectors are required'')
       | Some collectors \<Rightarrow>
      (case dep_cpu d of
         None \<Rightarrow> Inl (New ''CPU publication provider is required'')
       | Some cpu \<Rightarrow>
      (case dep_now d of
         None \<Rightarrow> Inl (New ''wall clock is required'')
       | Some now \<Rightarrow>
      (case dep_withTimeout d of
         None \<Rightarrow> Inl (New ''timeout factory is required'')
       | Some contexts \<Rightarrow>
      (case dep_encode d of
         None \<Rightarrow> Inl (New ''snapshot encoder is required'')
       | Some encode \<Rightarrow>
           Inr \<lparr>sv_collectors = collectors, sv_cpu = cpu,
                sv_degradation = (case dep_degradation d of None \<Rightarrow> noopReport | Some r \<Rightarrow> r),
                sv_now = now, sv_withTimeout = contexts, sv_encode = encode,
                sv_shared = newCoordinator\<rparr>))))))"

text \<open>
  What the platform answers in the cycle: the generic source with its links and context errors, and
  the thermal source. \<open>now\<close> and \<open>contexts\<close> are the answers of \<open>time.Now\<close> and \<open>context.WithTimeout\<close>.
\<close>

record platformAnswers =
  pa_ctxErr :: "nat \<Rightarrow> goerror option"
  pa_source :: genericSource
  pa_links :: "Link list go"
  pa_zoneCtx :: "nat \<Rightarrow> goerror option"

definition sourceCollectors :: "platformAnswers \<Rightarrow> raspberryPiObservation \<Rightarrow> cycleCollectors" where
  "sourceCollectors p raspberryPi = productionCollectors (pa_ctxErr p) (pa_source p) (pa_links p) raspberryPi"

definition NewCoordinator ::
    "bool \<Rightarrow> platformAnswers option \<Rightarrow> bool \<Rightarrow> gotime \<Rightarrow> cycleContexts \<Rightarrow> 'r coordinatorService go" where
  "NewCoordinator lifecycleNil source fatalNil now contexts =
     (case source of
        None \<Rightarrow> Inl (New ''platform source is required'')
      | Some p \<Rightarrow>
          coordinatorFrom lifecycleNil fatalNil
            \<lparr>dep_collectors = Some (sourceCollectors p unavailableRaspberryPiCollect),
             dep_cpu = Some unavailableCPULatest, dep_degradation = None, dep_now = Some now,
             dep_withTimeout = Some contexts, dep_encode = Some Encode\<rparr>)"

definition NewCoordinatorWithCPU ::
    "bool \<Rightarrow> platformAnswers option \<Rightarrow> (cpuPublication outcome \<times> int) option \<Rightarrow> bool \<Rightarrow> gotime
     \<Rightarrow> cycleContexts \<Rightarrow> 'r coordinatorService go" where
  "NewCoordinatorWithCPU lifecycleNil source cpu fatalNil now contexts =
     (case (source, cpu) of
        (Some p, Some c) \<Rightarrow>
          coordinatorFrom lifecycleNil fatalNil
            \<lparr>dep_collectors = Some (sourceCollectors p unavailableRaspberryPiCollect),
             dep_cpu = Some c, dep_degradation = None, dep_now = Some now,
             dep_withTimeout = Some contexts, dep_encode = Some Encode\<rparr>
      | _ \<Rightarrow> Inl (New ''platform source and CPU observer are required''))"

definition CoordinatorWithRaspberryPi ::
    "bool \<Rightarrow> platformAnswers option \<Rightarrow> (cpuPublication outcome \<times> int) option \<Rightarrow> thermalSource option
     \<Rightarrow> firmwareHealth outcome option \<Rightarrow> 'r reportFunction option \<Rightarrow> bool \<Rightarrow> gotime \<Rightarrow> cycleContexts
     \<Rightarrow> 'r coordinatorService go" where
  "CoordinatorWithRaspberryPi lifecycleNil source cpu thermal firmware degradation fatalNil now contexts =
     (case (source, cpu, thermal, firmware, degradation) of
        (Some p, Some c, Some th, Some fw, Some report) \<Rightarrow>
          coordinatorFrom lifecycleNil fatalNil
            \<lparr>dep_collectors = Some (sourceCollectors p
                 (productionRaspberryPiCollect (pa_zoneCtx p) (Some th) fw)),
             dep_cpu = Some c, dep_degradation = Some report, dep_now = Some now,
             dep_withTimeout = Some contexts, dep_encode = Some Encode\<rparr>
      | _ \<Rightarrow> Inl (New ''platform sources and observers are required''))"

text \<open>One cycle of a coordinator.\<close>

definition serviceCycle :: "'r coordinatorService \<Rightarrow> 'r \<Rightarrow> 'r cycleResult" where
  "serviceCycle sv r =
     collect (sv_encode sv) (sv_degradation sv) (sv_now sv) (sv_withTimeout sv) (sv_collectors sv)
       (sv_cpu sv) r"

section \<open>What a constructor accepts\<close>

lemma coordinatorFrom_Inr_iff:
  "coordinatorFrom lifecycleNil fatalNil d = Inr sv \<longleftrightarrow>
     \<not> lifecycleNil \<and> \<not> fatalNil \<and> dep_collectors d = Some (sv_collectors sv)
     \<and> dep_cpu d = Some (sv_cpu sv) \<and> dep_now d = Some (sv_now sv)
     \<and> dep_withTimeout d = Some (sv_withTimeout sv) \<and> dep_encode d = Some (sv_encode sv)
     \<and> sv_degradation sv = (case dep_degradation d of None \<Rightarrow> noopReport | Some r \<Rightarrow> r)
     \<and> sv_shared sv = newCoordinator"
  by (cases sv) (auto simp: coordinatorFrom_def split: option.splits)

section \<open>The coordinator without observers\<close>

interpretation silent: cycle_services noopReport Encode encodes_within
  by unfold_locales

lemma sourceCollectors_ok: "raspberryPi_ok rpi \<Longrightarrow> collectors_ok (sourceCollectors p rpi)"
  unfolding sourceCollectors_def by (rule productionCollectors_ok)

lemma unavailableRaspberryPi_ok: "raspberryPi_ok unavailableRaspberryPiCollect"
  by (simp add: unavailableRaspberryPiCollect_def raspberryPi_ok_def temperature_ok_def Let_def)

lemma unavailableCPU_answer: "cpu_answer_ok unavailableCPULatest"
  by (simp add: cpu_answer_ok_def unavailableCPULatest_def)

lemma copyCPU_absent:
  assumes "cpu_answer_ok latest" "\<not> is_present (fst latest)"
  shows "\<not> is_present (copyCPU latest topology)"
proof -
  obtain p now where l: "latest = (p, now)" by (rule prod.exhaust)
  have "validateOutcome p = None"
    using assms(1) by (simp add: l cpu_answer_ok_def publication_ok_def validateOutcome_None_iff)
  then show ?thesis using assms(2) by (simp add: l copyCPU_def present_state) (simp add: is_present_def)
qed

text \<open>Observations without a Raspberry Pi and without a CPU observer.\<close>

definition bare :: "cycleObservations \<Rightarrow> bool" where
  "bare ob \<longleftrightarrow>
     \<not> is_present (rpi_temperature (cy_raspberryPi ob)) \<and> \<not> is_present (rpi_firmware (cy_raspberryPi ob))
     \<and> \<not> is_present (cy_cpuUtilization ob)"

lemma stores_keep_bare: "stores_keep bare (sourceCollectors p unavailableRaspberryPiCollect)"
  by (auto simp: stores_keep_def bare_def sourceCollectors_def productionCollectors_def
      unavailableRaspberryPiCollect_def Let_def)

lemma bare_observations:
  assumes "collectObservations c (sourceCollectors p unavailableRaspberryPiCollect) unavailableCPULatest
    = Return (Inr ob)"
  shows "bare ob"
proof -
  have "stage c bare (collectObservations c (sourceCollectors p unavailableRaspberryPiCollect)
      unavailableCPULatest)"
  proof (rule collectObservations_keep [OF sourceCollectors_ok [OF unavailableRaspberryPi_ok]
        unavailableCPU_answer stores_keep_bare])
    show "bare (unavailableCycle (Some errCollectionDeadline))"
      by (simp add: bare_def unavailableCycle_def)
    fix ob
    assume "bare ob"
    moreover have "\<not> is_present (fst unavailableCPULatest)" by (simp add: unavailableCPULatest_def)
    ultimately show "bare (ob\<lparr>cy_cpuUtilization := copyCPU unavailableCPULatest (cy_cpuLoad ob)\<rparr>)"
      using copyCPU_absent [OF unavailableCPU_answer] by (simp add: bare_def)
  qed
  then show ?thesis using assms by (auto simp: stage_def)
qed

text \<open>The kernel's limits on what the platform names.\<close>

definition answers_sized :: "platformAnswers \<Rightarrow> bool" where
  "answers_sized p \<longleftrightarrow>
     (case src_hostname (pa_source p) of Inl e \<Rightarrow> True | Inr h \<Rightarrow> length h \<le> HOST_NAME_MAX)
     \<and> (case pa_links p of Inl e \<Rightarrow> True | Inr ls \<Rightarrow> (\<forall>l\<in>set ls. length (LinkName l) < IFNAMSIZ))"

lemma sourceCollectors_sized:
  assumes "answers_sized p" "when_present is_float64 (rpi_temperature rpi)"
  shows "collectors_sized (sourceCollectors p rpi)"
  unfolding sourceCollectors_def
  by (rule productionCollectors_sized) (use assms in \<open>auto simp: answers_sized_def\<close>)

text \<open>A reporter that does nothing leaves nothing behind.\<close>

lemma silent_finalize:
  "finalize enc noopReport now r ob = Return (r', out, res) \<Longrightarrow> r' = r \<and> out = []"
  by (auto simp: finalize_def noopReport_def Let_def call_bind_Return_iff
      split: if_split_asm sum.split_asm)

lemma silent_cycle:
  assumes "collect enc noopReport now c cc latest r = Return (r', out, res)"
  shows "r' = r \<and> out = []"
proof -
  obtain result where "collectObservations c cc latest = Return result"
    "(case result of Inl e \<Rightarrow> Return (r, [], Inl e) | Inr ob \<Rightarrow> finalize enc noopReport now r ob)
      = Return (r', out, res)"
    using assms by (auto simp: collect_def call_bind_Return_iff)
  then show ?thesis by (cases result) (auto dest: silent_finalize)
qed

text \<open>A snapshot that carries neither a utilization nor a value of the Raspberry Pi.\<close>

definition bare_snapshot :: "Snapshot \<Rightarrow> bool" where
  "bare_snapshot d \<longleftrightarrow>
     UtilizationPercent (SnapCPU d) = None
     \<and> SnapRaspberryPi d =
         \<lparr>SoCTemperatureCelsius = None, ThermalThrottlingActive = None,
          ThermalThrottlingOccurredSinceBoot = None, UndervoltageActive = None,
          UndervoltageOccurredSinceBoot = None\<rparr>"

lemma bare_assembled: "bare ob \<Longrightarrow> bare_snapshot (assembled ob\<lparr>ObservedAt := now\<rparr>)"
  by (simp add: bare_def bare_snapshot_def assembled_def raspberryPi_of_def value_of_def)

lemma NewCoordinator_parts:
  assumes "NewCoordinator lifecycleNil source fatalNil now contexts = Inr sv"
  obtains p where "source = Some p" "\<not> lifecycleNil" "\<not> fatalNil"
    "sv_collectors sv = sourceCollectors p unavailableRaspberryPiCollect"
    "sv_cpu sv = unavailableCPULatest" "sv_degradation sv = noopReport" "sv_now sv = now"
    "sv_withTimeout sv = contexts" "sv_encode sv = Encode" "sv_shared sv = newCoordinator"
  using assms by (auto simp: NewCoordinator_def coordinatorFrom_Inr_iff split: option.splits)

section \<open>Properties\<close>

text \<open>
  C37 (bare_coordinator): take a clock whose time is not zero and prints as RFC 3339 (\<open>time_ok\<close>), and a
  host name and interface names within the kernel's limits of 64 and 15 bytes
  (\<open>answers_sized\<close>). In every such cycle a coordinator built by \<open>NewCoordinator\<close> answers without a
  panic and without a record of degradation: with the error of an ended lifecycle, with the error
  for no useful snapshot, or with a valid bounded document that never carries a CPU utilization or
  a value of the Raspberry Pi. Beyond these limits nothing is claimed here.
\<close>

theorem bare_coordinator:
  assumes "NewCoordinator lifecycleNil (Some p) fatalNil now contexts = Inr sv"
    and "time_ok now" "answers_sized p"
  shows "\<exists>res. serviceCycle sv r = Return (r, [], res)
    \<and> ((\<exists>e i. res = Inl e \<and> ctx_lifecycle contexts i = Some e) \<or> res = Inl ErrNoUsefulSnapshot
       \<or> (\<exists>e d. res = Inr e \<and> Encode d = Inr e \<and> encoded_len e \<le> MaximumSize \<and> bare_snapshot d))"
proof -
  let ?cc = "sourceCollectors p unavailableRaspberryPiCollect"
  note ok = sourceCollectors_ok [OF unavailableRaspberryPi_ok, of p]
  note cpu = unavailableCPU_answer
  have sized: "collectors_sized ?cc"
    using assms(3) by (rule sourceCollectors_sized) (simp add: unavailableRaspberryPiCollect_def Let_def)
  have fits: "encodes_within (assembled ob\<lparr>ObservedAt := now\<rparr>)"
    if "collectObservations contexts ?cc unavailableCPULatest = Return (Inr ob)" "cycle_ok ob"
      "is_present (host_hostname (cy_host ob))" for ob
    using that(2) collectObservations_sized [OF ok cpu sized that(1)] that(3) assms(2) by (rule cycle_fits)
  have cycle: "serviceCycle sv r = collect Encode noopReport now contexts ?cc unavailableCPULatest r"
    using assms(1) by (auto simp: serviceCycle_def elim: NewCoordinator_parts)
  then obtain r' out res where res: "serviceCycle sv r = Return (r', out, res)"
    using silent.collect_contract [OF ok cpu assms(2), of contexts r] by auto
  note run = res [unfolded cycle]
  have document: "\<exists>d. Encode d = Inr e \<and> bare_snapshot d" if "res = Inr e" for e
  proof -
    have inr: "collect Encode noopReport now contexts ?cc unavailableCPULatest r = Return (r', out, Inr e)"
      using run that by simp
    obtain ob where "collectObservations contexts ?cc unavailableCPULatest = Return (Inr ob)"
      "Encode (assembled ob\<lparr>ObservedAt := now\<rparr>) = Inr e"
      using silent.collect_encodes [OF ok cpu assms(2) fits inr] by blast
    then show ?thesis using bare_assembled [OF bare_observations] by blast
  qed
  have "r' = r" "out = []" using silent_cycle [OF run] by auto
  moreover have "(\<exists>e i. res = Inl e \<and> ctx_lifecycle contexts i = Some e) \<or> res = Inl ErrNoUsefulSnapshot
     \<or> (\<exists>e. res = Inr e \<and> encoded_valid e \<and> encoded_len e \<le> MaximumSize)"
    by (rule silent.collect_within [OF ok cpu assms(2) _ run]) (rule fits)
  then have "(\<exists>e i. res = Inl e \<and> ctx_lifecycle contexts i = Some e) \<or> res = Inl ErrNoUsefulSnapshot
     \<or> (\<exists>e d. res = Inr e \<and> Encode d = Inr e \<and> encoded_len e \<le> MaximumSize \<and> bare_snapshot d)"
    using document by metis
  ultimately show ?thesis using res by auto
qed

theorem bare_coordinator_witness:
  "\<exists>sv res. NewCoordinator False (Some \<lparr>pa_ctxErr = \<lambda>i. None, pa_source = example_source,
        pa_links = Inl (Errno 2), pa_zoneCtx = \<lambda>i. None\<rparr>) False example_time example_contexts = Inr sv
     \<and> serviceCycle sv () = Return ((), [], res)"
proof -
  let ?p = "\<lparr>pa_ctxErr = \<lambda>i. None, pa_source = example_source, pa_links = Inl (Errno 2),
    pa_zoneCtx = \<lambda>i. None\<rparr>"
  obtain sv :: "unit coordinatorService"
    where sv: "NewCoordinator False (Some ?p) False example_time example_contexts = Inr sv"
    by (simp add: NewCoordinator_def coordinatorFrom_def)
  have "answers_sized ?p" by (simp add: answers_sized_def example_source_def HOST_NAME_MAX_def)
  from bare_coordinator [OF sv example_time_ok this, of "()"] sv show ?thesis by blast
qed

end
