(* ===== verification/HttpApi.thy ===== *)
theory HttpApi
  imports Snapshot
begin

text \<open>
  \<open>internal/httpapi\<close>: the handler of \<open>/v1/snapshot\<close> with its tracked response writer,
  admission slots and single fatal notification (\<open>handler.go\<close>), and the listener that limits
  connections (\<open>server.go\<close>). The underlying writer of \<open>net/http\<close> is a parameter: it records
  its calls and panics at the calls a function names. Contexts, the provider's answer and the
  accepted connections are arguments.
\<close>

section \<open>Writers\<close>

record responseWriter =
  rw_headers :: "string \<rightharpoonup> string"
  rw_statuses :: "nat list"
  rw_bodies :: "string list"
  rw_calls :: nat

record trackedResponseWriter =
  tw_writer :: responseWriter
  tw_committed :: bool

text \<open>
  A call on a writer gives the writer afterwards and the value of a panic, if any. The panics of
  the underlying writer are a function of the number of calls made on it before.
\<close>

type_synonym 'w writing = "'w \<Rightarrow> 'w \<times> goerror option"

definition andThen :: "'w writing \<Rightarrow> 'w writing \<Rightarrow> 'w writing" where
  "andThen f g w = (case f w of (w', Some e) \<Rightarrow> (w', Some e) | (w', None) \<Rightarrow> g w')"

type_synonym writerPanics = "nat \<Rightarrow> goerror option"

definition underlyingWriteHeader :: "writerPanics \<Rightarrow> nat \<Rightarrow> responseWriter writing" where
  "underlyingWriteHeader panics status w =
     (w\<lparr>rw_statuses := rw_statuses w @ [status], rw_calls := Suc (rw_calls w)\<rparr>, panics (rw_calls w))"

definition underlyingWrite :: "writerPanics \<Rightarrow> string \<Rightarrow> responseWriter writing" where
  "underlyingWrite panics body w =
     (w\<lparr>rw_bodies := rw_bodies w @ [body], rw_calls := Suc (rw_calls w)\<rparr>, panics (rw_calls w))"

definition onWriter :: "responseWriter writing \<Rightarrow> trackedResponseWriter writing" where
  "onWriter f w = (case f (tw_writer w) of (u, p) \<Rightarrow> (w\<lparr>tw_writer := u\<rparr>, p))"

definition trackedWriteHeader :: "writerPanics \<Rightarrow> nat \<Rightarrow> trackedResponseWriter writing" where
  "trackedWriteHeader panics status w =
     onWriter (underlyingWriteHeader panics status) (w\<lparr>tw_committed := True\<rparr>)"

definition StatusOK :: nat where "StatusOK = 200"
definition StatusBadRequest :: nat where "StatusBadRequest = 400"
definition StatusNotFound :: nat where "StatusNotFound = 404"
definition StatusMethodNotAllowed :: nat where "StatusMethodNotAllowed = 405"
definition StatusInternalServerError :: nat where "StatusInternalServerError = 500"
definition StatusServiceUnavailable :: nat where "StatusServiceUnavailable = 503"

lemmas status_defs =
  StatusOK_def StatusBadRequest_def StatusNotFound_def StatusMethodNotAllowed_def
  StatusInternalServerError_def StatusServiceUnavailable_def

definition trackedWrite :: "writerPanics \<Rightarrow> string \<Rightarrow> trackedResponseWriter writing" where
  "trackedWrite panics body w =
     (if \<not> tw_committed w
      then andThen (trackedWriteHeader panics StatusOK) (onWriter (underlyingWrite panics body)) w
      else onWriter (underlyingWrite panics body) w)"

definition setHeader :: "string \<Rightarrow> string \<Rightarrow> trackedResponseWriter \<Rightarrow> trackedResponseWriter" where
  "setHeader k v w =
     w\<lparr>tw_writer := (tw_writer w)\<lparr>rw_headers := (rw_headers (tw_writer w))(k \<mapsto> v)\<rparr>\<rparr>"

definition setResponseHeaders :: "trackedResponseWriter \<Rightarrow> trackedResponseWriter" where
  "setResponseHeaders w =
     setHeader ''Cache-Control'' ''no-store'' (setHeader ''Content-Type'' ''application/json'' w)"

section \<open>The handler\<close>

definition snapshotPath :: string where "snapshotPath = ''/v1/snapshot''"
definition maximumAdmittedRequests :: nat where "maximumAdmittedRequests = 8"
definition maximumErrorSize :: nat where "maximumErrorSize = 2 * 1024"

definition errorDocument :: "string \<Rightarrow> string \<Rightarrow> json" where
  "errorDocument code message =
     JObj [(''error'', JObj [(''code'', JStr code), (''message'', JStr message)])]"

text \<open>The three error codes and their messages, and the encoded documents of the handler.\<close>

definition errorMessages :: "(string \<times> string) list" where
  "errorMessages =
     [(''invalid_request'', ''The request is invalid.''),
      (''temporarily_unavailable'', ''No useful snapshot is currently available.''),
      (''internal_error'', ''The service encountered an internal error.'')]"

record requestHandler =
  hd_admitted :: nat
  hd_failed :: bool
  hd_fatal :: "goerror list"
  hd_errors :: "string \<rightharpoonup> string"

fun encodeErrors :: "(string \<times> string) list \<Rightarrow> (string \<rightharpoonup> string) \<Rightarrow> (string \<rightharpoonup> string) go" where
  "encodeErrors [] errors = Inr errors"
| "encodeErrors ((code, message) # rest) errors =
     (let body = render (errorDocument code message)
      in if length body > maximumErrorSize
         then Inl (Errorf ''encoded %s response exceeds %d bytes''
                     [FStr code, FInt (int maximumErrorSize)])
         else encodeErrors rest (errors(code \<mapsto> body)))"

definition newRequestHandler :: "bool \<Rightarrow> bool \<Rightarrow> int \<Rightarrow> requestHandler go" where
  "newRequestHandler providerNil fatalNil deadline =
     (if providerNil then Inl (New ''snapshot provider is required'')
      else if fatalNil then Inl (New ''fatal notifier is required'')
      else if deadline \<le> 0 then Inl (New ''request deadline must be positive'')
      else go_bind (encodeErrors errorMessages Map.empty) (\<lambda>errors.
             Inr \<lparr>hd_admitted = 0, hd_failed = False, hd_fatal = [], hd_errors = errors\<rparr>))"

definition writeError ::
    "requestHandler \<Rightarrow> writerPanics \<Rightarrow> nat \<Rightarrow> string \<Rightarrow> trackedResponseWriter writing" where
  "writeError h panics status code w =
     andThen (trackedWriteHeader panics status)
       (trackedWrite panics (case hd_errors h code of Some b \<Rightarrow> b | None \<Rightarrow> []))
       (setResponseHeaders w)"

text \<open>\<open>fatalOnce\<close>: the first notification only.\<close>

definition notifyHandlerFatal :: "goerror \<Rightarrow> requestHandler \<Rightarrow> requestHandler" where
  "notifyHandlerFatal e h = (if hd_fatal h = [] then h\<lparr>hd_fatal := [e]\<rparr> else h)"

record httpRequest =
  req_path :: string
  req_method :: string
  req_rawQuery :: string
  req_transferEncoding :: "string list"
  req_contentLength :: int

text \<open>
  The refusals before admission: the status, the code and the extra headers of the response.
  A refusal for a body also closes the connection.
\<close>

definition refusal :: "httpRequest \<Rightarrow> (nat \<times> (string \<times> string) list) option" where
  "refusal request =
     (if req_path request \<noteq> snapshotPath then Some (StatusNotFound, [])
      else if req_method request \<noteq> ''GET'' then Some (StatusMethodNotAllowed, [(''Allow'', ''GET'')])
      else if req_rawQuery request \<noteq> [] then Some (StatusBadRequest, [])
      else if length (req_transferEncoding request) \<noteq> 0 \<or> req_contentLength request \<noteq> 0
      then Some (StatusBadRequest, [(''Connection'', ''close'')])
      else None)"

definition setHeaders :: "(string \<times> string) list \<Rightarrow> trackedResponseWriter \<Rightarrow> trackedResponseWriter" where
  "setHeaders hs w = foldl (\<lambda>w (k, v). setHeader k v w) w hs"

text \<open>
  \<open>serveHTTP\<close> until the provider is called: either the response is written (with the panic of
  the writer, if any), or a slot is taken.
\<close>

datatype 'a entry = Answered 'a | Admitted

definition enterRequest ::
    "writerPanics \<Rightarrow> httpRequest \<Rightarrow> requestHandler \<Rightarrow> trackedResponseWriter
     \<Rightarrow> requestHandler \<times> (trackedResponseWriter \<times> goerror option) entry" where
  "enterRequest panics request h w =
     (case refusal request of
        Some (status, headers) \<Rightarrow>
          (h, Answered (writeError h panics status ''invalid_request'' (setHeaders headers w)))
      | None \<Rightarrow>
          if hd_failed h
          then (h, Answered (writeError h panics StatusServiceUnavailable ''temporarily_unavailable'' w))
          else if hd_admitted h < maximumAdmittedRequests
          then (h\<lparr>hd_admitted := Suc (hd_admitted h)\<rparr>, Admitted)
          else (h, Answered (writeError h panics StatusServiceUnavailable ''temporarily_unavailable'' w)))"

text \<open>\<open>callProvider\<close>: a panic of the provider is an error.\<close>

definition callProvider :: "Encoded go call \<Rightarrow> Encoded go" where
  "callProvider answer =
     (case answer of
        Panic e \<Rightarrow> Inl (Formatv ''snapshot provider panic: %v'' e)
      | Return r \<Rightarrow> r)"

definition writeInternalError ::
    "requestHandler \<Rightarrow> writerPanics \<Rightarrow> goerror \<Rightarrow> trackedResponseWriter
     \<Rightarrow> requestHandler \<times> trackedResponseWriter \<times> goerror option" where
  "writeInternalError h panics err w =
     (let h1 = h\<lparr>hd_failed := True\<rparr>;
          (w', p) = writeError h1 panics StatusInternalServerError ''internal_error'' w
      in (if p = None then notifyHandlerFatal err h1 else h1, w', p))"

text \<open>
  The rest of \<open>serveHTTP\<close>, with the errors of the request's context and of the derived context
  after the provider returned.
\<close>

definition answerRequest ::
    "writerPanics \<Rightarrow> goerror option \<Rightarrow> goerror option \<Rightarrow> Encoded go \<Rightarrow> requestHandler
     \<Rightarrow> trackedResponseWriter \<Rightarrow> requestHandler \<times> trackedResponseWriter \<times> goerror option" where
  "answerRequest panics requestErr ctxErr result h w =
     (if requestErr \<noteq> None then (h, w, None)
      else if hd_failed h
      then (h, writeError h panics StatusInternalServerError ''internal_error'' w)
      else (case result of
              Inl err \<Rightarrow>
                if errors_is err ErrNoUsefulSnapshot \<or> errors_is err ContextDeadlineExceeded
                   \<or> errors_is err ContextCanceled
                then (h, writeError h panics StatusServiceUnavailable ''temporarily_unavailable'' w)
                else writeInternalError h panics err w
            | Inr encoded \<Rightarrow>
                if ctxErr \<noteq> None
                then (h, writeError h panics StatusServiceUnavailable ''temporarily_unavailable'' w)
                else if \<not> encoded_valid encoded \<or> encoded_len encoded > MaximumSize
                then writeInternalError h panics
                       (New ''provider returned an invalid encoded snapshot'') w
                else (h, andThen (trackedWriteHeader panics StatusOK)
                           (trackedWrite panics (encoded_body encoded)) (setResponseHeaders w))))"

text \<open>The deferred release of the slot.\<close>

definition releaseAdmission :: "requestHandler \<Rightarrow> requestHandler" where
  "releaseAdmission h = h\<lparr>hd_admitted := hd_admitted h - 1\<rparr>"

text \<open>The deferred recovery of \<open>ServeHTTP\<close>; a panic inside it propagates.\<close>

definition recoverHandler ::
    "writerPanics \<Rightarrow> requestHandler \<Rightarrow> trackedResponseWriter \<Rightarrow> goerror option
     \<Rightarrow> requestHandler \<times> trackedResponseWriter \<times> goerror option" where
  "recoverHandler panics h w recovered =
     (case recovered of
        None \<Rightarrow> (h, w, None)
      | Some e \<Rightarrow>
          (let h1 = h\<lparr>hd_failed := True\<rparr>;
               (w', p) = (if \<not> tw_committed w
                          then writeError h1 panics StatusInternalServerError ''internal_error'' w
                          else (w, None))
           in (if p = None then notifyHandlerFatal (Formatv ''HTTP handler panic: %v'' e) h1 else h1,
               w', p)))"

text \<open>One request served alone.\<close>

definition ServeHTTP ::
    "writerPanics \<Rightarrow> httpRequest \<Rightarrow> goerror option \<Rightarrow> goerror option \<Rightarrow> Encoded go call
     \<Rightarrow> requestHandler \<Rightarrow> responseWriter \<Rightarrow> requestHandler \<times> trackedResponseWriter \<times> goerror option" where
  "ServeHTTP panics request requestErr ctxErr provider h response =
     (let tracked = \<lparr>tw_writer = response, tw_committed = False\<rparr>
      in case enterRequest panics request h tracked of
           (h1, Answered (w, p)) \<Rightarrow> recoverHandler panics h1 w p
         | (h1, Admitted) \<Rightarrow>
             (let (h2, w, p) = answerRequest panics requestErr ctxErr (callProvider provider) h1 tracked
              in recoverHandler panics (releaseAdmission h2) w p))"

section \<open>Requests served concurrently\<close>

text \<open>
  The sections of the requests of one handler interleave: a request is refused or admitted,
  the provider answers it, its slot is released, and the recovery ends it. The handler
  is shared; each request has its own writer.
\<close>

datatype exchange =
    Calling trackedResponseWriter
  | Leaving trackedResponseWriter "goerror option" bool
  | Served trackedResponseWriter "goerror option"

record exchanges =
  ex_handler :: requestHandler
  ex_requests :: "exchange list"

definition tracked_fresh :: "responseWriter \<Rightarrow> trackedResponseWriter" where
  "tracked_fresh response = \<lparr>tw_writer = response, tw_committed = False\<rparr>"

definition fresh_response :: "responseWriter \<Rightarrow> bool" where
  "fresh_response response \<longleftrightarrow> rw_statuses response = [] \<and> rw_bodies response = []"

inductive http_step :: "exchanges \<Rightarrow> exchanges \<Rightarrow> bool" where
  arrived: "fresh_response response \<Longrightarrow>
    enterRequest panics request (ex_handler s) (tracked_fresh response) = (h, Answered (w, p)) \<Longrightarrow>
    http_step s \<lparr>ex_handler = h, ex_requests = ex_requests s @ [Leaving w p False]\<rparr>"
| admitted: "fresh_response response \<Longrightarrow>
    enterRequest panics request (ex_handler s) (tracked_fresh response) = (h, Admitted) \<Longrightarrow>
    http_step s \<lparr>ex_handler = h, ex_requests = ex_requests s @ [Calling (tracked_fresh response)]\<rparr>"
| provided: "i < length (ex_requests s) \<Longrightarrow> ex_requests s ! i = Calling w \<Longrightarrow>
    answerRequest panics requestErr ctxErr (callProvider provider) (ex_handler s) w = (h, w', p) \<Longrightarrow>
    http_step s \<lparr>ex_handler = h, ex_requests = (ex_requests s)[i := Leaving w' p True]\<rparr>"
| released: "i < length (ex_requests s) \<Longrightarrow> ex_requests s ! i = Leaving w p True \<Longrightarrow>
    http_step s \<lparr>ex_handler = releaseAdmission (ex_handler s),
                 ex_requests = (ex_requests s)[i := Leaving w p False]\<rparr>"
| recovered: "i < length (ex_requests s) \<Longrightarrow> ex_requests s ! i = Leaving w p False \<Longrightarrow>
    recoverHandler panics (ex_handler s) w p = (h, w', p') \<Longrightarrow>
    http_step s \<lparr>ex_handler = h, ex_requests = (ex_requests s)[i := Served w' p']\<rparr>"

inductive http_reachable :: "exchanges \<Rightarrow> bool" where
  served_none: "newRequestHandler False False deadline = Inr h \<Longrightarrow>
    http_reachable \<lparr>ex_handler = h, ex_requests = []\<rparr>"
| served_step: "http_reachable s \<Longrightarrow> http_step s t \<Longrightarrow> http_reachable t"

inductive_cases http_stepE: "http_step s t"

section \<open>Writers and responses\<close>

lemma andThen_quiet:
  "snd (f w) = None \<Longrightarrow> andThen f g w = g (fst (f w))"
  by (cases "f w") (simp add: andThen_def)

lemmas writer_defs =
  writeError_def andThen_def trackedWriteHeader_def trackedWrite_def onWriter_def
  underlyingWriteHeader_def underlyingWrite_def setResponseHeaders_def setHeader_def

text \<open>The status lines and bodies an exchange has put on the underlying writer.\<close>

abbreviation statuses :: "trackedResponseWriter \<Rightarrow> nat list" where
  "statuses w \<equiv> rw_statuses (tw_writer w)"

abbreviation bodies :: "trackedResponseWriter \<Rightarrow> string list" where
  "bodies w \<equiv> rw_bodies (tw_writer w)"

text \<open>
  A response is coherent when the writer is committed as soon as a status line was sent, and a body
  is sent after it only.
\<close>

definition coherent :: "trackedResponseWriter \<Rightarrow> bool" where
  "coherent w \<longleftrightarrow>
     (if tw_committed w then length (statuses w) = 1 \<and> length (bodies w) \<le> 1
      else statuses w = [] \<and> bodies w = [])"

lemma coherent_fresh [simp]: "fresh_response r \<Longrightarrow> coherent (tracked_fresh r)"
  by (simp add: coherent_def tracked_fresh_def fresh_response_def)

lemma tracked_fresh_committed [simp]: "\<not> tw_committed (tracked_fresh r)"
  by (simp add: tracked_fresh_def)

lemma setHeader_simps [simp]:
  "statuses (setHeader k v w) = statuses w" "bodies (setHeader k v w) = bodies w"
  "tw_committed (setHeader k v w) = tw_committed w"
  by (simp_all add: setHeader_def)

lemma setHeaders_simps [simp]:
  "statuses (setHeaders hs w) = statuses w" "bodies (setHeaders hs w) = bodies w"
  "tw_committed (setHeaders hs w) = tw_committed w"
  unfolding setHeaders_def by (induction hs arbitrary: w) auto

lemma setResponseHeaders_simps [simp]:
  "statuses (setResponseHeaders w) = statuses w" "bodies (setResponseHeaders w) = bodies w"
  "tw_committed (setResponseHeaders w) = tw_committed w"
  by (simp_all add: setResponseHeaders_def)

text \<open>A response written on an uncommitted writer is coherent wherever the writer panics.\<close>

lemma respond_shape:
  assumes "\<not> tw_committed w" "coherent w"
    and "andThen (trackedWriteHeader panics status) (trackedWrite panics body)
           (setResponseHeaders w) = (w', p)"
  shows "coherent w' \<and> tw_committed w' \<and> statuses w' = [status]
         \<and> (p = None \<longrightarrow> bodies w' = [body])"
proof -
  have "statuses (setResponseHeaders w) = []" "bodies (setResponseHeaders w) = []"
    using assms by (simp_all add: coherent_def)
  then show ?thesis using assms(3)
    by (auto simp: andThen_def trackedWriteHeader_def trackedWrite_def onWriter_def
        underlyingWriteHeader_def underlyingWrite_def coherent_def split: option.splits)
qed

lemma respond_quiet:
  assumes "\<not> tw_committed w" "coherent w"
  obtains w' where "andThen (trackedWriteHeader (\<lambda>_. None) status) (trackedWrite (\<lambda>_. None) body)
      (setResponseHeaders w) = (w', None)" "statuses w' = [status]" "bodies w' = [body]"
proof -
  have "snd (andThen (trackedWriteHeader (\<lambda>_. None) status) (trackedWrite (\<lambda>_. None) body)
      (setResponseHeaders w)) = None"
    by (simp add: andThen_def trackedWriteHeader_def trackedWrite_def onWriter_def
        underlyingWriteHeader_def underlyingWrite_def)
  then obtain w' where *: "andThen (trackedWriteHeader (\<lambda>_. None) status)
      (trackedWrite (\<lambda>_. None) body) (setResponseHeaders w) = (w', None)"
    by (metis prod.collapse)
  show thesis using respond_shape [OF assms *] by (intro that [OF *]) auto
qed

lemma writeError_shape:
  assumes "\<not> tw_committed w" "coherent w" "writeError h panics status code w = (w', p)"
  shows "coherent w' \<and> tw_committed w' \<and> statuses w' = [status]
         \<and> (p = None \<longrightarrow> bodies w' = [case hd_errors h code of Some b \<Rightarrow> b | None \<Rightarrow> []])"
  using respond_shape [OF assms(1,2) assms(3) [unfolded writeError_def]] .

lemma coherent_uncommitted_headers:
  "coherent w \<Longrightarrow> coherent (setHeaders hs w)"
  by (auto simp: coherent_def)

text \<open>The documents of the error responses, as the constructor makes them.\<close>

definition error_bodies :: "string \<rightharpoonup> string" where
  "error_bodies = map_of (map (\<lambda>(c, m). (c, render (errorDocument c m))) errorMessages)"

definition handler_new :: requestHandler where
  "handler_new = \<lparr>hd_admitted = 0, hd_failed = False, hd_fatal = [], hd_errors = error_bodies\<rparr>"

lemma error_body_sizes:
  assumes "(c, m) \<in> set errorMessages"
  shows "length (render (errorDocument c m)) \<le> maximumErrorSize"
  using assms
  by (auto simp: errorMessages_def errorDocument_def maximumErrorSize_def json_eval wire_simps)

lemma map_of_keyed:
  "c \<in> fst ` set ms \<Longrightarrow>
     \<exists>m. (c, m) \<in> set ms \<and> map_of (map (\<lambda>(c, m). (c, f c m)) ms) c = Some (f c m)"
  by (induction ms) auto

lemma encodeErrors_all:
  assumes "\<And>c m. (c, m) \<in> set ms \<Longrightarrow> length (render (errorDocument c m)) \<le> maximumErrorSize"
  shows "encodeErrors ms errors =
    Inr (errors ++ map_of (rev (map (\<lambda>(c, m). (c, render (errorDocument c m))) ms)))"
  using assms
proof (induction ms arbitrary: errors)
  case (Cons x ms)
  obtain c m where x: "x = (c, m)" by (cases x)
  have "\<not> maximumErrorSize < length (render (errorDocument c m))"
    using Cons.prems [of c m] x by simp
  then show ?case
    using Cons.IH [OF Cons.prems] x
    by (auto simp: Let_def map_add_def fun_eq_iff split: option.splits)
qed simp

lemma newRequestHandler_new:
  "newRequestHandler False False deadline = Inr h \<longleftrightarrow> 0 < deadline \<and> h = handler_new"
proof -
  have "map_of (rev (map (\<lambda>(c, m). (c, render (errorDocument c m))) errorMessages)) = error_bodies"
    by (auto simp: error_bodies_def errorMessages_def fun_eq_iff)
  then show ?thesis
    by (auto simp: newRequestHandler_def encodeErrors_all [OF error_body_sizes] handler_new_def)
qed

section \<open>The sections of a request\<close>

lemma enterRequest_admitted:
  assumes "enterRequest panics request h w = (h', Admitted)"
  shows "refusal request = None \<and> \<not> hd_failed h \<and> hd_admitted h < maximumAdmittedRequests
         \<and> h' = h\<lparr>hd_admitted := Suc (hd_admitted h)\<rparr>"
  using assms by (auto simp: enterRequest_def split: option.splits if_splits)

text \<open>An error response carries one of the three documents.\<close>

definition error_code :: "string \<Rightarrow> bool" where
  "error_code code \<longleftrightarrow> code \<in> fst ` set errorMessages"

definition error_response :: "requestHandler \<Rightarrow> trackedResponseWriter \<Rightarrow> bool" where
  "error_response h w \<longleftrightarrow>
     (\<exists>code. error_code code \<and>
        bodies w = [case hd_errors h code of Some b \<Rightarrow> b | None \<Rightarrow> []])"

lemma error_codes [simp]:
  "error_code ''invalid_request''"
  "error_code ''temporarily_unavailable''"
  "error_code ''internal_error''"
  by (simp_all add: error_code_def errorMessages_def)

lemma error_responseI:
  "error_code code \<Longrightarrow>
     bodies w = [case hd_errors h code of Some b \<Rightarrow> b | None \<Rightarrow> []] \<Longrightarrow> error_response h w"
  unfolding error_response_def by blast

lemma enterRequest_answered:
  assumes "enterRequest panics request h w = (h', Answered (w', p))"
    "\<not> tw_committed w" "coherent w"
  shows "h' = h \<and> coherent w' \<and> tw_committed w'
         \<and> statuses w' \<noteq> [StatusOK] \<and> statuses w' \<noteq> [StatusInternalServerError]
         \<and> (p = None \<longrightarrow> error_response h w')"
proof -
  obtain code status w1 where *: "h' = h" "\<not> tw_committed w1" "coherent w1"
    "writeError h panics status code w1 = (w', p)"
    "status \<noteq> StatusOK" "status \<noteq> StatusInternalServerError" "error_code code"
  proof (cases "refusal request")
    case None
    then show thesis using assms
      by (auto simp: enterRequest_def status_defs split: if_splits
          intro!: that [of w StatusServiceUnavailable "''temporarily_unavailable''"])
  next
    case (Some r)
    then obtain status headers where r: "refusal request = Some (status, headers)" by (cases r) simp
    then have "status \<noteq> StatusOK" "status \<noteq> StatusInternalServerError"
      by (auto simp: refusal_def status_defs split: if_splits)
    then show thesis using assms r
      by (intro that [of "setHeaders headers w" status "''invalid_request''"])
        (auto simp: enterRequest_def coherent_uncommitted_headers)
  qed
  show ?thesis using writeError_shape [OF *(2,3,4)] * by (auto intro: error_responseI)
qed

text \<open>
  What the shared handler can go through during a section: a failure is final, the fatal
  notification is unique and comes after the failure, and nothing else changes.
\<close>

definition handler_kept :: "requestHandler \<Rightarrow> requestHandler \<Rightarrow> bool" where
  "handler_kept h h' \<longleftrightarrow>
     hd_admitted h' = hd_admitted h \<and> hd_errors h' = hd_errors h
     \<and> (hd_failed h \<longrightarrow> hd_failed h')
     \<and> (hd_fatal h' = hd_fatal h
        \<or> (hd_fatal h = [] \<and> length (hd_fatal h') = 1 \<and> hd_failed h'))"

lemma handler_kept_refl [simp]: "handler_kept h h"
  by (simp add: handler_kept_def)

lemma writeInternalError_shape:
  assumes "\<not> tw_committed w" "coherent w" "writeInternalError h panics err w = (h', w', p)"
  shows "handler_kept h h' \<and> coherent w' \<and> tw_committed w'
         \<and> statuses w' = [StatusInternalServerError] \<and> hd_failed h' \<and> (p = None \<longrightarrow> hd_fatal h' \<noteq> [])
         \<and> (p = None \<longrightarrow> error_response h w')"
proof -
  obtain w1 p1 where e: "writeError (h\<lparr>hd_failed := True\<rparr>) panics StatusInternalServerError
      ''internal_error'' w = (w1, p1)"
    by (metis prod.collapse)
  have "w' = w1" "p = p1"
    and "h' = (if p1 = None then notifyHandlerFatal err (h\<lparr>hd_failed := True\<rparr>) else h\<lparr>hd_failed := True\<rparr>)"
    using assms(3) e by (auto simp: writeInternalError_def Let_def)
  then show ?thesis using writeError_shape [OF assms(1,2) e]
    by (auto simp: handler_kept_def notifyHandlerFatal_def
        intro: error_responseI [of "''internal_error''"])
qed

definition success :: "goerror option \<Rightarrow> goerror option \<Rightarrow> Encoded go \<Rightarrow> requestHandler \<Rightarrow> bool" where
  "success requestErr ctxErr result h \<longleftrightarrow>
     requestErr = None \<and> \<not> hd_failed h \<and> ctxErr = None
     \<and> (\<exists>e. result = Inr e \<and> encoded_valid e \<and> encoded_len e \<le> MaximumSize)"

lemma answerRequest_shape:
  assumes "\<not> tw_committed w" "coherent w"
    "answerRequest panics requestErr ctxErr result h w = (h', w', p)"
  shows "handler_kept h h' \<and> coherent w' \<and> (p \<noteq> None \<longrightarrow> tw_committed w')
    \<and> (hd_failed h' \<and> \<not> hd_failed h \<and> p = None \<longrightarrow> hd_fatal h' \<noteq> [])
    \<and> (statuses w' = [StatusInternalServerError] \<longrightarrow> hd_failed h')
    \<and> (statuses w' = [StatusOK] \<longleftrightarrow> success requestErr ctxErr result h)
    \<and> (statuses w' = [StatusOK] \<and> p = None \<longrightarrow> (\<exists>e. result = Inr e \<and> bodies w' = [encoded_body e]))
    \<and> (statuses w' = [] \<or> statuses w' = [StatusOK] \<or> p \<noteq> None \<or> error_response h w')"
proof (cases "requestErr = None")
  case False
  then show ?thesis using assms by (auto simp: answerRequest_def success_def coherent_def)
next
  case ok: True
  note [simp] = status_defs
  let ?err = "\<lambda>status code. \<not> success requestErr ctxErr result h \<and> h' = h
    \<and> writeError h panics status code w = (w', p)
    \<and> error_code code \<and> (status = StatusServiceUnavailable \<or> status = StatusInternalServerError \<and> hd_failed h)"
  let ?defect = "\<not> success requestErr ctxErr result h
    \<and> (\<exists>err. writeInternalError h panics err w = (h', w', p))"
  have "(\<exists>status code. ?err status code) \<or> ?defect \<or> (success requestErr ctxErr result h \<and> h' = h
    \<and> (\<exists>e. result = Inr e \<and> andThen (trackedWriteHeader panics StatusOK)
          (trackedWrite panics (encoded_body e)) (setResponseHeaders w) = (w', p)))"
  proof (cases "hd_failed h")
    case True
    then have "?err StatusInternalServerError ''internal_error''"
      using assms(3) ok by (auto simp: answerRequest_def success_def)
    then show ?thesis by blast
  next
    case False
    then show ?thesis using assms(3) ok exI [of "\<lambda>c. error_code c \<and> writeError h panics 503 c w = (w', p)"
        "''temporarily_unavailable''"]
      by (cases result) (auto simp: answerRequest_def success_def split: if_splits)
  qed
  then show ?thesis
  proof (elim disjE exE)
    fix status code assume e: "?err status code"
    then show ?thesis using writeError_shape [OF assms(1,2), of h panics status code w' p]
      by (auto intro: error_responseI)
  next
    assume e: ?defect
    then obtain err where d: "writeInternalError h panics err w = (h', w', p)" by blast
    show ?thesis using e writeInternalError_shape [OF assms(1,2) d] by auto
  next
    assume e: "success requestErr ctxErr result h \<and> h' = h
      \<and> (\<exists>e. result = Inr e \<and> andThen (trackedWriteHeader panics StatusOK)
            (trackedWrite panics (encoded_body e)) (setResponseHeaders w) = (w', p))"
    then obtain e where d: "result = Inr e" "andThen (trackedWriteHeader panics StatusOK)
            (trackedWrite panics (encoded_body e)) (setResponseHeaders w) = (w', p)" by blast
    show ?thesis using e d respond_shape [OF assms(1,2) d(2)] by auto
  qed
qed

lemma recoverHandler_shape:
  assumes "coherent w" "r \<noteq> None \<Longrightarrow> tw_committed w"
    "recoverHandler panics h w r = (h', w', p)"
  shows "p = None \<and> w' = w \<and> handler_kept h h'
         \<and> (if r = None then h' = h else hd_failed h' \<and> hd_fatal h' \<noteq> [])"
proof (cases r)
  case None
  then show ?thesis using assms by (simp add: recoverHandler_def)
next
  case (Some e)
  then have "tw_committed w" using assms(2) by simp
  then show ?thesis using Some assms(3)
    by (cases "hd_fatal h = []")
      (auto simp: recoverHandler_def Let_def handler_kept_def notifyHandlerFatal_def)
qed

lemma releaseAdmission_simps [simp]:
  "hd_admitted (releaseAdmission h) = hd_admitted h - 1" "hd_failed (releaseAdmission h) = hd_failed h"
  "hd_fatal (releaseAdmission h) = hd_fatal h" "hd_errors (releaseAdmission h) = hd_errors h"
  by (simp_all add: releaseAdmission_def)

section \<open>The invariant of the handler\<close>

fun holds_slot :: "exchange \<Rightarrow> bool" where
  "holds_slot (Calling w) = True"
| "holds_slot (Leaving w p b) = b"
| "holds_slot (Served w p) = False"

fun response_of :: "exchange \<Rightarrow> trackedResponseWriter" where
  "response_of (Calling w) = w"
| "response_of (Leaving w p b) = w"
| "response_of (Served w p) = w"

fun panicked :: "exchange \<Rightarrow> bool" where
  "panicked (Leaving w p b) = (p \<noteq> None)"
| "panicked x = False"

text \<open>
  Each exchange by itself: its response is coherent, a panic comes from a committed writer, and no
  panic leaves \<open>ServeHTTP\<close>. \<open>failed\<close> is the handler's flag.
\<close>

fun exchange_ok :: "bool \<Rightarrow> exchange \<Rightarrow> bool" where
  "exchange_ok failed (Calling w) = (coherent w \<and> \<not> tw_committed w)"
| "exchange_ok failed (Leaving w p b) =
     (coherent w \<and> (p \<noteq> None \<longrightarrow> tw_committed w)
      \<and> (statuses w = [StatusInternalServerError] \<longrightarrow> failed))"
| "exchange_ok failed (Served w p) =
     (coherent w \<and> p = None \<and> (statuses w = [StatusInternalServerError] \<longrightarrow> failed))"

definition slots_inv :: "exchanges \<Rightarrow> bool" where
  "slots_inv s \<longleftrightarrow>
     hd_admitted (ex_handler s) = length (filter holds_slot (ex_requests s))
     \<and> hd_admitted (ex_handler s) \<le> maximumAdmittedRequests"

definition fatal_inv :: "exchanges \<Rightarrow> bool" where
  "fatal_inv s \<longleftrightarrow>
     length (hd_fatal (ex_handler s)) \<le> 1
     \<and> (hd_fatal (ex_handler s) \<noteq> [] \<longrightarrow> hd_failed (ex_handler s))
     \<and> (hd_failed (ex_handler s) \<and> hd_fatal (ex_handler s) = []
        \<longrightarrow> (\<exists>x\<in>set (ex_requests s). panicked x))"

definition exchanges_inv :: "exchanges \<Rightarrow> bool" where
  "exchanges_inv s \<longleftrightarrow>
     hd_errors (ex_handler s) = error_bodies
     \<and> (\<forall>x\<in>set (ex_requests s). exchange_ok (hd_failed (ex_handler s)) x)"

lemma exchange_ok_mono: "exchange_ok f x \<Longrightarrow> (f \<Longrightarrow> f') \<Longrightarrow> exchange_ok f' x"
  by (cases x) auto

lemma filter_update_length:
  "i < length xs \<Longrightarrow>
     length (filter P (xs[i := x])) + of_bool (P (xs ! i)) = length (filter P xs) + of_bool (P x)"
proof (induction xs arbitrary: i)
  case (Cons y ys)
  then show ?case by (cases i) auto
qed simp

lemma slots_inv_step:
  assumes "slots_inv s" "exchanges_inv s" "http_step s t"
  shows "slots_inv t"
  using assms(3)
proof cases
  case (arrived response panics request h w p)
  then have "h = ex_handler s"
    using enterRequest_answered [OF arrived(3)] arrived(2) by simp
  then show ?thesis using assms(1) arrived(1) by (simp add: slots_inv_def)
next
  case (admitted response panics request h)
  then show ?thesis using assms(1) enterRequest_admitted [OF admitted(3)]
    by (simp add: slots_inv_def)
next
  case (provided i w panics requestErr ctxErr provider h w' p)
  have "exchange_ok (hd_failed (ex_handler s)) (Calling w)"
    using assms(2) provided(2,3) nth_mem by (fastforce simp: exchanges_inv_def)
  then have "handler_kept (ex_handler s) h" using answerRequest_shape [OF _ _ provided(4)] by simp
  then show ?thesis
    using assms(1) provided(1,2,3) filter_update_length [of i "ex_requests s" holds_slot "Leaving w' p True"]
    by (simp add: slots_inv_def handler_kept_def)
next
  case (released i w p)
  then show ?thesis
    using assms(1) filter_update_length [of i "ex_requests s" holds_slot "Leaving w p False"]
    by (auto simp: slots_inv_def)
next
  case (recovered i w p panics h w' p')
  have "exchange_ok (hd_failed (ex_handler s)) (Leaving w p False)"
    using assms(2) recovered(2,3) nth_mem by (fastforce simp: exchanges_inv_def)
  then have "handler_kept (ex_handler s) h" using recoverHandler_shape [OF _ _ recovered(4)]
    by (auto simp: handler_kept_def)
  then show ?thesis
    using assms(1) recovered(1,2,3) filter_update_length [of i "ex_requests s" holds_slot "Served w' p'"]
    by (simp add: slots_inv_def handler_kept_def)
qed

lemma handler_kept_failed: "handler_kept h h' \<Longrightarrow> hd_failed h \<Longrightarrow> hd_failed h'"
  by (simp add: handler_kept_def)

lemma exchanges_inv_update:
  assumes "exchanges_inv s" "handler_kept (ex_handler s) h" "exchange_ok (hd_failed h) x"
  shows "exchanges_inv \<lparr>ex_handler = h, ex_requests = (ex_requests s)[i := x]\<rparr>"
proof -
  have "exchange_ok (hd_failed h) y" if "y \<in> set ((ex_requests s)[i := x])" for y
    using that assms set_update_subset_insert [of "ex_requests s" i x]
    by (auto simp: exchanges_inv_def intro: exchange_ok_mono handler_kept_failed)
  then show ?thesis using assms by (simp add: exchanges_inv_def handler_kept_def)
qed

lemma exchange_okD:
  "exchanges_inv s \<Longrightarrow> i < length (ex_requests s) \<Longrightarrow> ex_requests s ! i = x
     \<Longrightarrow> exchange_ok (hd_failed (ex_handler s)) x"
  using nth_mem by (fastforce simp: exchanges_inv_def)

lemma exchanges_inv_step:
  assumes "exchanges_inv s" "http_step s t"
  shows "exchanges_inv t"
  using assms(2)
proof cases
  case (arrived response panics request h w p)
  then show ?thesis using assms(1) enterRequest_answered [OF arrived(3)]
    by (auto simp: exchanges_inv_def)
next
  case (admitted response panics request h)
  then show ?thesis using assms(1) enterRequest_admitted [OF admitted(3)]
    by (auto simp: exchanges_inv_def)
next
  case (provided i w panics requestErr ctxErr provider h w' p)
  note ok = exchange_okD [OF assms(1) provided(2,3)]
  have "exchange_ok (hd_failed h) (Leaving w' p True)" "handler_kept (ex_handler s) h"
    using ok answerRequest_shape [OF _ _ provided(4)] by auto
  then show ?thesis unfolding provided(1) by (rule exchanges_inv_update [OF assms(1), rotated])
next
  case (released i w p)
  note ok = exchange_okD [OF assms(1) released(2,3)]
  have "exchanges_inv \<lparr>ex_handler = ex_handler s, ex_requests = (ex_requests s)[i := Leaving w p False]\<rparr>"
    using ok by (intro exchanges_inv_update [OF assms(1)]) simp_all
  then show ?thesis unfolding released(1) by (simp add: exchanges_inv_def)
next
  case (recovered i w p panics h w' p')
  note ok = exchange_okD [OF assms(1) recovered(2,3)]
  have "exchange_ok (hd_failed h) (Served w' p')" "handler_kept (ex_handler s) h"
    using ok recoverHandler_shape [OF _ _ recovered(4)] by (auto simp: handler_kept_def)
  then show ?thesis unfolding recovered(1) by (rule exchanges_inv_update [OF assms(1), rotated])
qed

text \<open>An update keeps the panicked exchanges except the updated one.\<close>

lemma panicked_update:
  assumes "x \<in> set xs" "panicked x" "i < length xs" "panicked (xs ! i) \<Longrightarrow> panicked y"
  shows "\<exists>z\<in>set (xs[i := y]). panicked z"
proof -
  obtain j where j: "j < length xs" "xs ! j = x" using assms(1) by (auto simp: in_set_conv_nth)
  have "panicked (xs[i := y] ! j)" using j assms by (cases "j = i") auto
  then show ?thesis using j by (intro bexI [of _ "xs[i := y] ! j"]) auto
qed

lemma fatal_inv_kept:
  assumes "fatal_inv s" "handler_kept (ex_handler s) h" "i < length (ex_requests s)"
    and "panicked (ex_requests s ! i) \<Longrightarrow> panicked y \<or> hd_fatal h \<noteq> []"
    and "hd_failed h \<Longrightarrow> \<not> hd_failed (ex_handler s) \<Longrightarrow> panicked y \<or> hd_fatal h \<noteq> []"
  shows "fatal_inv \<lparr>ex_handler = h, ex_requests = (ex_requests s)[i := y]\<rparr>"
proof -
  have "\<exists>x\<in>set ((ex_requests s)[i := y]). panicked x" if h: "hd_failed h" "hd_fatal h = []"
  proof (cases "hd_failed (ex_handler s)")
    case True
    have "hd_fatal (ex_handler s) = []" using assms(2) h by (auto simp: handler_kept_def)
    then obtain x where "x \<in> set (ex_requests s)" "panicked x"
      using True assms(1) by (auto simp: fatal_inv_def)
    then show ?thesis using assms(3,4) h by (intro panicked_update) auto
  next
    case False
    then have "panicked y" using assms(5) h by blast
    then show ?thesis using assms(3) by (auto intro: set_update_memI)
  qed
  then show ?thesis using assms(1,2) by (auto simp: fatal_inv_def handler_kept_def)
qed

lemma fatal_inv_step:
  assumes "fatal_inv s" "exchanges_inv s" "http_step s t"
  shows "fatal_inv t"
  using assms(3)
proof cases
  case (arrived response panics request h w p)
  then show ?thesis using assms(1) enterRequest_answered [OF arrived(3)]
    by (auto simp: fatal_inv_def)
next
  case (admitted response panics request h)
  then show ?thesis using assms(1) enterRequest_admitted [OF admitted(3)]
    by (auto simp: fatal_inv_def)
next
  case (provided i w panics requestErr ctxErr provider h w' p)
  note ok = exchange_okD [OF assms(2) provided(2,3)]
  have shape: "handler_kept (ex_handler s) h"
      "hd_failed h \<and> \<not> hd_failed (ex_handler s) \<and> p = None \<longrightarrow> hd_fatal h \<noteq> []"
    using ok answerRequest_shape [OF _ _ provided(4)] by auto
  show ?thesis unfolding provided(1)
    using shape provided(3) by (intro fatal_inv_kept [OF assms(1) _ provided(2)]) auto
next
  case (released i w p)
  have "fatal_inv \<lparr>ex_handler = ex_handler s, ex_requests = (ex_requests s)[i := Leaving w p False]\<rparr>"
    using released(3) by (intro fatal_inv_kept [OF assms(1) _ released(2)]) simp_all
  then show ?thesis unfolding released(1) by (simp add: fatal_inv_def)
next
  case (recovered i w p panics h w' p')
  note ok = exchange_okD [OF assms(2) recovered(2,3)]
  have shape: "handler_kept (ex_handler s) h"
      "if p = None then h = ex_handler s else hd_failed h \<and> hd_fatal h \<noteq> []"
    using ok recoverHandler_shape [OF _ _ recovered(4)] by auto
  show ?thesis unfolding recovered(1)
    using shape recovered(3) by (intro fatal_inv_kept [OF assms(1) _ recovered(2)]) (auto split: if_splits)
qed

lemma http_invariant: "http_reachable s \<Longrightarrow> slots_inv s \<and> fatal_inv s \<and> exchanges_inv s"
proof (induction rule: http_reachable.induct)
  case (served_none deadline h)
  then show ?case
    by (auto simp: newRequestHandler_new handler_new_def slots_inv_def fatal_inv_def exchanges_inv_def)
next
  case (served_step s t)
  then show ?case using slots_inv_step fatal_inv_step exchanges_inv_step by blast
qed

section \<open>Properties of the handler\<close>

text \<open>The decision of \<open>ServeHTTP\<close> to present the provider's snapshot.\<close>

definition servable ::
    "httpRequest \<Rightarrow> goerror option \<Rightarrow> goerror option \<Rightarrow> Encoded go call \<Rightarrow> requestHandler \<Rightarrow> bool" where
  "servable request requestErr ctxErr provider h \<longleftrightarrow>
     req_path request = ''/v1/snapshot'' \<and> req_method request = ''GET'' \<and> req_rawQuery request = []
     \<and> req_transferEncoding request = [] \<and> req_contentLength request = 0
     \<and> hd_admitted h < 8 \<and> \<not> hd_failed h \<and> requestErr = None \<and> ctxErr = None
     \<and> (\<exists>e. provider = Return (Inr e) \<and> encoded_valid e \<and> encoded_len e \<le> 65536)"

lemma refusal_None_iff:
  "refusal request = None \<longleftrightarrow>
     req_path request = ''/v1/snapshot'' \<and> req_method request = ''GET'' \<and> req_rawQuery request = []
     \<and> req_transferEncoding request = [] \<and> req_contentLength request = 0"
  by (auto simp: refusal_def snapshotPath_def)

lemma callProvider_Inr: "callProvider m = Inr e \<longleftrightarrow> m = Return (Inr e)"
  by (cases m) (auto simp: callProvider_def)

lemma servable_success:
  "servable request requestErr ctxErr provider h \<longleftrightarrow>
     refusal request = None \<and> hd_admitted h < maximumAdmittedRequests
     \<and> success requestErr ctxErr (callProvider provider)
         (h\<lparr>hd_admitted := Suc (hd_admitted h)\<rparr>)"
  unfolding servable_def refusal_None_iff success_def callProvider_Inr
  by (auto simp: maximumAdmittedRequests_def MaximumSize_def)

lemma error_response_cong: "hd_errors h' = hd_errors h \<Longrightarrow> error_response h' w = error_response h w"
  by (simp add: error_response_def)

lemma writeError_quiet: "snd (writeError h (\<lambda>_. None) status code w) = None"
  by (simp add: writeError_def andThen_def trackedWriteHeader_def trackedWrite_def onWriter_def
      underlyingWriteHeader_def underlyingWrite_def)

lemma enterRequest_quiet:
  "enterRequest (\<lambda>_. None) request h w = (h', Answered (w', p)) \<Longrightarrow> p = None"
  using writeError_quiet by (auto simp: enterRequest_def split: option.splits if_splits) (metis snd_conv)+

lemma writeInternalError_quiet: "snd (snd (writeInternalError h (\<lambda>_. None) err w)) = None"
  using writeError_quiet by (simp add: writeInternalError_def Let_def split: prod.split) (metis snd_conv)

lemma answerRequest_quiet:
  "snd (snd (answerRequest (\<lambda>_. None) requestErr ctxErr result h w)) = None"
  by (cases result)
    (simp_all add: answerRequest_def writeError_quiet writeInternalError_quiet andThen_def
      trackedWriteHeader_def trackedWrite_def onWriter_def underlyingWriteHeader_def underlyingWrite_def)

lemma ServeHTTP_shape:
  assumes "fresh_response response"
    and "ServeHTTP panics request requestErr ctxErr provider h response = (h', w, p)"
  shows "p = None \<and> coherent w \<and> handler_kept h h'
    \<and> (statuses w = [StatusOK] \<longleftrightarrow> servable request requestErr ctxErr provider h)
    \<and> (statuses w = [StatusInternalServerError] \<longrightarrow> hd_failed h')
    \<and> (hd_failed h' \<and> \<not> hd_failed h \<longrightarrow> hd_fatal h' \<noteq> [])
    \<and> (panics = (\<lambda>_. None) \<longrightarrow>
         (statuses w = [StatusOK] \<longrightarrow> (\<exists>e. provider = Return (Inr e) \<and> bodies w = [encoded_body e]))
         \<and> (statuses w = [] \<or> statuses w = [StatusOK] \<or> error_response h w))"
proof (cases "enterRequest panics request h (tracked_fresh response)")
  case (Pair h1 e)
  note tracked = tracked_fresh_def [symmetric]
  show ?thesis
  proof (cases e)
    case (Answered a)
    obtain w1 p1 where a: "a = (w1, p1)" by (cases a)
    have e1: "enterRequest panics request h (tracked_fresh response) = (h1, Answered (w1, p1))"
      using Pair Answered a by simp
    note shape = enterRequest_answered [OF e1 tracked_fresh_committed coherent_fresh [OF assms(1)]]
    have r: "recoverHandler panics h w1 p1 = (h', w, p)"
      using assms(2) e1 shape by (simp add: ServeHTTP_def Let_def tracked)
    have "\<not> servable request requestErr ctxErr provider h"
      using e1 by (auto simp: servable_success success_def enterRequest_def split: option.splits if_splits)
    moreover have "panics = (\<lambda>_. None) \<longrightarrow> p1 = None" using e1 enterRequest_quiet by blast
    ultimately show ?thesis using shape recoverHandler_shape [OF _ _ r]
      by (auto split: if_splits)
  next
    case Admitted
    then have e1: "enterRequest panics request h (tracked_fresh response) = (h1, Admitted)"
      using Pair by simp
    note h1 = enterRequest_admitted [OF e1]
    obtain h2 w2 p2 where a: "answerRequest panics requestErr ctxErr (callProvider provider) h1
        (tracked_fresh response) = (h2, w2, p2)" by (metis prod.collapse)
    note shape = answerRequest_shape [OF tracked_fresh_committed coherent_fresh [OF assms(1)] a]
    have r: "recoverHandler panics (releaseAdmission h2) w2 p2 = (h', w, p)"
      using assms(2) e1 a by (simp add: ServeHTTP_def Let_def tracked)
    note r' = recoverHandler_shape [OF _ _ r]
    have "servable request requestErr ctxErr provider h
        \<longleftrightarrow> success requestErr ctxErr (callProvider provider) h1"
      using h1 by (simp add: servable_success)
    moreover have "panics = (\<lambda>_. None) \<longrightarrow> p2 = None"
      using a answerRequest_quiet by (metis snd_conv)
    moreover have "error_response h1 w = error_response h w" using h1 by (simp add: error_response_def)
    ultimately show ?thesis using shape r' h1
      by (cases p2) (auto simp: handler_kept_def callProvider_Inr)
  qed
qed


definition panic_between :: "writerPanics \<Rightarrow> nat \<Rightarrow> nat \<Rightarrow> bool" where
  "panic_between panics i j \<longleftrightarrow> (\<exists>k. i \<le> k \<and> k < j \<and> panics k \<noteq> None)"


lemma panic_between_same [simp]: "\<not> panic_between panics i i"
  by (simp add: panic_between_def)

lemma panic_between_Suc [simp]: "panic_between panics i (Suc i) \<longleftrightarrow> panics i \<noteq> None"
  by (auto simp: panic_between_def less_Suc_eq_le le_antisym)














text \<open>
  Answers of the provider that are no defect: a valid document, or an error that says that no
  snapshot is available now.
\<close>

definition expected_answer :: "Encoded go \<Rightarrow> bool" where
  "expected_answer r \<longleftrightarrow>
     (case r of
        Inl e \<Rightarrow> errors_is e ErrNoUsefulSnapshot \<or> errors_is e ContextDeadlineExceeded
                 \<or> errors_is e ContextCanceled
      | Inr encoded \<Rightarrow> encoded_valid encoded \<and> encoded_len encoded \<le> MaximumSize)"

lemma answerRequest_expected:
  "expected_answer result \<Longrightarrow> fst (answerRequest panics requestErr ctxErr result h w) = h"
  by (cases result) (auto simp: answerRequest_def expected_answer_def)

lemma ServeHTTP_expected:
  assumes "fresh_response response" "expected_answer (callProvider provider)"
    and "ServeHTTP (\<lambda>_. None) request requestErr ctxErr provider h response = (h', w, p)"
  shows "h' = h"
proof (cases "enterRequest (\<lambda>_. None) request h (tracked_fresh response)")
  case (Pair h1 e)
  note tracked = tracked_fresh_def [symmetric]
  show ?thesis
  proof (cases e)
    case (Answered a)
    obtain w1 p1 where a: "a = (w1, p1)" by (cases a)
    have e1: "enterRequest (\<lambda>_. None) request h (tracked_fresh response) = (h1, Answered (w1, p1))"
      using Pair Answered a by simp
    have "h1 = h" "p1 = None"
      using enterRequest_answered [OF e1 tracked_fresh_committed coherent_fresh [OF assms(1)]]
        enterRequest_quiet [OF e1] by simp_all
    then show ?thesis using assms(3) e1 by (simp add: ServeHTTP_def Let_def tracked recoverHandler_def)
  next
    case Admitted
    then have e1: "enterRequest (\<lambda>_. None) request h (tracked_fresh response) = (h1, Admitted)"
      using Pair by simp
    obtain h2 w2 p2 where r: "answerRequest (\<lambda>_. None) requestErr ctxErr (callProvider provider) h1
        (tracked_fresh response) = (h2, w2, p2)" by (metis prod.collapse)
    have "h2 = h1" "p2 = None"
      using answerRequest_expected [OF assms(2)] answerRequest_quiet r by (metis fst_conv, metis snd_conv)
    then show ?thesis using assms(3) e1 r enterRequest_admitted [OF e1]
      by (simp add: ServeHTTP_def Let_def tracked recoverHandler_def releaseAdmission_def)
  qed
qed

lemma http_reachable_new: "http_reachable \<lparr>ex_handler = handler_new, ex_requests = []\<rparr>"
  by (rule http_reachable.served_none [of 1]) (simp add: newRequestHandler_new)

definition example_request :: httpRequest where
  "example_request =
     \<lparr>req_path = ''/v1/snapshot'', req_method = ''GET'', req_rawQuery = [], req_transferEncoding = [],
      req_contentLength = 0\<rparr>"

definition example_writer :: responseWriter where
  "example_writer = \<lparr>rw_headers = Map.empty, rw_statuses = [], rw_bodies = [], rw_calls = 0\<rparr>"

lemma example_writer_fresh: "fresh_response example_writer"
  by (simp add: fresh_response_def example_writer_def)

text \<open>
  C7 (http_success_exact): on a handler in any state it can reach, with a writer that does not
  panic, a request is answered by status 200 exactly when it is \<open>GET /v1/snapshot\<close> without query
  and body, a slot is free, the handler has not failed, no context has ended and the provider
  returned a non-empty document of at most 64 KiB; the body is then that document, byte for byte.
  Any other response that was written carries one of the three prepared error documents, of at most
  2 KiB.
\<close>

theorem http_success_exact:
  assumes "http_reachable s" "fresh_response response"
    and "ServeHTTP (\<lambda>_. None) request requestErr ctxErr provider (ex_handler s) response = (h, w, p)"
  shows "(statuses w = [StatusOK] \<longleftrightarrow> servable request requestErr ctxErr provider (ex_handler s))
    \<and> (if statuses w = [StatusOK] then \<exists>e. provider = Return (Inr e) \<and> bodies w = [encoded_body e]
       else statuses w = []
         \<or> (\<exists>(c, m)\<in>set errorMessages. bodies w = [render (errorDocument c m)]
              \<and> length (render (errorDocument c m)) \<le> maximumErrorSize))"
proof -
  note shape = ServeHTTP_shape [OF assms(2,3)]
  have errors: "hd_errors (ex_handler s) = error_bodies"
    using http_invariant [OF assms(1)] by (simp add: exchanges_inv_def)
  have "\<exists>(c, m)\<in>set errorMessages. bodies w = [render (errorDocument c m)]
              \<and> length (render (errorDocument c m)) \<le> maximumErrorSize"
    if e: "error_response (ex_handler s) w"
  proof -
    obtain c where c: "error_code c" "bodies w = [case error_bodies c of Some b \<Rightarrow> b | None \<Rightarrow> []]"
      using e errors by (auto simp: error_response_def)
    obtain m where m: "(c, m) \<in> set errorMessages" "error_bodies c = Some (render (errorDocument c m))"
      using map_of_keyed [of c errorMessages "\<lambda>c m. render (errorDocument c m)"] c(1)
      by (auto simp: error_code_def error_bodies_def)
    show ?thesis using c(2) m error_body_sizes [OF m(1)] by (intro bexI [OF _ m(1)]) simp
  qed
  then show ?thesis using shape
    by (cases "statuses w = [StatusOK]") (simp_all only: if_True if_False simp_thms, blast+)
qed

theorem http_success_exact_witness:
  "\<exists>h w. ServeHTTP (\<lambda>_. None) example_request None None (Return (Inr (Encoded ''{}'')))
        handler_new example_writer = (h, w, None)
      \<and> statuses w = [StatusOK] \<and> bodies w = [''{}'']"
proof -
  let ?r = "ServeHTTP (\<lambda>_. None) example_request None None (Return (Inr (Encoded ''{}'')))
        handler_new example_writer"
  obtain h w p where r: "?r = (h, w, p)" by (metis prod.collapse)
  have "servable example_request None None (Return (Inr (Encoded ''{}''))) handler_new"
    by (simp add: servable_def example_request_def handler_new_def encoded_valid_def encoded_len_def)
  then have "statuses w = [StatusOK] \<and> bodies w = [''{}'']"
    using http_success_exact [OF http_reachable_new example_writer_fresh, simplified, OF r] by auto
  moreover have "p = None" using ServeHTTP_shape [OF example_writer_fresh r] by simp
  ultimately show ?thesis using r by auto
qed



text \<open>
  C13 (http_admission): in every interleaving of any number of requests, the slots taken are the
  requests that are calling the provider or returning from it, at most eight; the fatal notifier
  was called at most once, only after the handler failed, and when no request is under way a
  failure has been notified; every response has at most one status line, and no panic leaves a
  served request.
\<close>

theorem http_admission:
  assumes "http_reachable s"
  shows "hd_admitted (ex_handler s) = length (filter holds_slot (ex_requests s))
    \<and> hd_admitted (ex_handler s) \<le> 8
    \<and> length (hd_fatal (ex_handler s)) \<le> 1
    \<and> (hd_fatal (ex_handler s) \<noteq> [] \<longrightarrow> hd_failed (ex_handler s))
    \<and> ((\<forall>x\<in>set (ex_requests s). \<exists>w p. x = Served w p) \<longrightarrow>
         hd_admitted (ex_handler s) = 0
         \<and> (hd_failed (ex_handler s) \<longrightarrow> length (hd_fatal (ex_handler s)) = 1))
    \<and> (\<forall>x\<in>set (ex_requests s). length (statuses (response_of x)) \<le> 1
         \<and> (\<forall>w p. x = Served w p \<longrightarrow> p = None))"
proof -
  let ?h = "ex_handler s"
  note inv = http_invariant [OF assms]
  have each: "length (statuses (response_of x)) \<le> 1 \<and> (\<forall>w p. x = Served w p \<longrightarrow> p = None)"
    if "x \<in> set (ex_requests s)" for x
  proof -
    have "exchange_ok (hd_failed ?h) x" using inv that by (simp add: exchanges_inv_def)
    then show ?thesis by (cases x) (auto simp: coherent_def split: if_splits)
  qed
  have idle: "hd_admitted ?h = 0 \<and> (hd_failed ?h \<longrightarrow> length (hd_fatal ?h) = 1)"
    if served: "\<forall>x\<in>set (ex_requests s). \<exists>w p. x = Served w p"
  proof -
    have "filter holds_slot (ex_requests s) = []" "\<not> (\<exists>x\<in>set (ex_requests s). panicked x)"
      using served by (force simp: filter_empty_conv)+
    then show ?thesis using inv by (cases "hd_fatal ?h") (auto simp: slots_inv_def fatal_inv_def)
  qed
  show ?thesis using inv each idle
    by (auto simp: slots_inv_def fatal_inv_def maximumAdmittedRequests_def)
qed

theorem http_admission_witness:
  "hd_admitted (ex_handler \<lparr>ex_handler = handler_new, ex_requests = []\<rparr>) = 0
   \<and> http_reachable \<lparr>ex_handler = handler_new, ex_requests = []\<rparr>"
  using http_admission [OF http_reachable_new] http_reachable_new by simp

end
