(* ===== verification/Config.thy ===== *)
theory Config
  imports GoStrings
begin

text \<open>
  \<open>internal/config/config.go\<close>: the command line, the environment and the defaults are merged and
  the complete configuration is validated. A Go map from strings to strings is a HOL map; the
  part of \<open>net/netip\<close> that the file uses is modelled first.
\<close>

section \<open>IPv4 addresses of the standard library\<close>

text \<open>
  \<open>netip.ParseAddr\<close> tells IPv4 from IPv6 by the first of the characters \<open>.\<close>, \<open>:\<close> and
  \<open>%\<close>. The file rejects every address that is not IPv4, so other addresses carry no detail.
\<close>

datatype netip = Addr4 nat nat nat nat | AddrOther

definition octet_text :: "string \<Rightarrow> bool" where
  "octet_text f \<longleftrightarrow>
     f \<noteq> [] \<and> list_all is_digit f \<and> (hd f = CHR ''0'' \<longrightarrow> length f = 1) \<and> digits_value f < 256"

fun parse_ipv4 :: "string \<Rightarrow> netip go" where
  "parse_ipv4 s =
     (case split_on CHR ''.'' s of
        [a, b, c, d] \<Rightarrow>
          if list_all octet_text [a, b, c, d]
          then Inr (Addr4 (digits_value a) (digits_value b) (digits_value c) (digits_value d))
          else Inl (New ''ParseAddr'')
      | _ \<Rightarrow> Inl (New ''ParseAddr''))"

fun parse_addr_from :: "string \<Rightarrow> string \<Rightarrow> netip go" where
  "parse_addr_from s [] = Inl (New ''ParseAddr: unable to parse IP'')"
| "parse_addr_from s (c # cs) =
     (if c = CHR ''.'' then parse_ipv4 s
      else if c = CHR '':'' then Inr AddrOther
      else if c = CHR ''%'' then Inl (New ''ParseAddr: missing IPv6 address'')
      else parse_addr_from s cs)"

definition parse_addr :: "string \<Rightarrow> netip go" where
  "parse_addr s = parse_addr_from s s"

fun addr_string :: "netip \<Rightarrow> string" where
  "addr_string (Addr4 a b c d) = join CHR ''.'' [dec a, dec b, dec c, dec d]"
| "addr_string AddrOther = []"

fun addr_is4 :: "netip \<Rightarrow> bool" where
  "addr_is4 (Addr4 a b c d) = True"
| "addr_is4 AddrOther = False"

fun addr_is_loopback :: "netip \<Rightarrow> bool" where
  "addr_is_loopback (Addr4 a b c d) = (a = 127)"
| "addr_is_loopback AddrOther = False"

fun addr_is_multicast :: "netip \<Rightarrow> bool" where
  "addr_is_multicast (Addr4 a b c d) = (224 \<le> a \<and> a < 240)"
| "addr_is_multicast AddrOther = False"

section \<open>Options\<close>

definition optionListenAddress :: string where "optionListenAddress = ''listen-address''"
definition optionListenPort :: string where "optionListenPort = ''listen-port''"
definition optionAllowNonLoopback :: string where "optionAllowNonLoopback = ''allow-non-loopback''"
definition optionLogLevel :: string where "optionLogLevel = ''log-level''"
definition optionHelp :: string where "optionHelp = ''help''"

definition environmentPrefix :: string where "environmentPrefix = ''JOY_PI_HEALTH_''"
definition environmentListenAddress :: string where
  "environmentListenAddress = environmentPrefix @ ''LISTEN_ADDRESS''"
definition environmentListenPort :: string where
  "environmentListenPort = environmentPrefix @ ''LISTEN_PORT''"
definition environmentAllowNonLoopback :: string where
  "environmentAllowNonLoopback = environmentPrefix @ ''ALLOW_NON_LOOPBACK''"
definition environmentLogLevel :: string where
  "environmentLogLevel = environmentPrefix @ ''LOG_LEVEL''"

lemmas option_defs =
  optionListenAddress_def optionListenPort_def optionAllowNonLoopback_def optionLogLevel_def
  optionHelp_def

lemmas environment_defs =
  environmentPrefix_def environmentListenAddress_def environmentListenPort_def
  environmentAllowNonLoopback_def environmentLogLevel_def

definition defaultListenAddress :: string where "defaultListenAddress = ''127.0.0.1''"
definition defaultListenPort :: string where "defaultListenPort = ''8080''"
definition defaultAllowNonLoopback :: string where "defaultAllowNonLoopback = ''false''"
definition defaultLogLevel :: string where "defaultLogLevel = ''info''"

text \<open>A \<open>LogLevel\<close> is a string of the source; only four are accepted.\<close>

datatype LogLevel = LogLevelDebug | LogLevelInfo | LogLevelWarn | LogLevelError

fun log_level_text :: "LogLevel \<Rightarrow> string" where
  "log_level_text LogLevelDebug = ''debug''"
| "log_level_text LogLevelInfo = ''info''"
| "log_level_text LogLevelWarn = ''warn''"
| "log_level_text LogLevelError = ''error''"

record Config =
  listenAddress :: netip
  listenPort :: u16
  allowNonLoopback :: bool
  logLevel :: LogLevel

definition configurationError :: "string \<Rightarrow> goerror" where
  "configurationError message = New message"

definition isKnownOption :: "string \<Rightarrow> bool" where
  "isKnownOption name \<longleftrightarrow>
     name = optionListenAddress \<or> name = optionListenPort \<or> name = optionAllowNonLoopback
     \<or> name = optionLogLevel"

definition isKnownEnvironment :: "string \<Rightarrow> bool" where
  "isKnownEnvironment name \<longleftrightarrow>
     name = environmentListenAddress \<or> name = environmentListenPort
     \<or> name = environmentAllowNonLoopback \<or> name = environmentLogLevel"

section \<open>Parsing values\<close>

definition parseAddress :: "string \<Rightarrow> netip go" where
  "parseAddress v =
     (case parse_addr v of
        Inl e \<Rightarrow> Inl (configurationError ''listen address must be a canonical IPv4 literal'')
      | Inr address \<Rightarrow>
          if \<not> addr_is4 address \<or> addr_string address \<noteq> v
          then Inl (configurationError ''listen address must be a canonical IPv4 literal'')
          else if addr_is_multicast address
          then Inl (configurationError ''multicast listen addresses are not supported'')
          else if address = Addr4 255 255 255 255
          then Inl (configurationError ''broadcast listen addresses are not supported'')
          else Inr address)"

definition parsePort :: "string \<Rightarrow> u16 go" where
  "parsePort v =
     (if v = [] then Inl (configurationError ''listen port cannot be empty'')
      else if \<not> list_all (\<lambda>(r, w). 48 \<le> r \<and> r \<le> 57) (runes v)
      then Inl (configurationError ''listen port must be a decimal integer from 1 through 65535'')
      else (case parse_uint 10 16 v of
              Inl e \<Rightarrow> Inl (configurationError
                         ''listen port must be a decimal integer from 1 through 65535'')
            | Inr port \<Rightarrow>
                if port = 0
                then Inl (configurationError
                       ''listen port must be a decimal integer from 1 through 65535'')
                else Inr (of_nat port)))"

definition parseBoolean :: "string \<Rightarrow> bool go" where
  "parseBoolean v =
     (if v = ''true'' then Inr True else if v = ''false'' then Inr False
      else Inl (configurationError ''allow-non-loopback must be exactly true or false''))"

definition parseLogLevel :: "string \<Rightarrow> LogLevel go" where
  "parseLogLevel v =
     (if v = log_level_text LogLevelDebug then Inr LogLevelDebug
      else if v = log_level_text LogLevelInfo then Inr LogLevelInfo
      else if v = log_level_text LogLevelWarn then Inr LogLevelWarn
      else if v = log_level_text LogLevelError then Inr LogLevelError
      else Inl (configurationError ''log level must be debug, info, warn, or error''))"

section \<open>Command line and environment\<close>

fun parseCommandLineFrom :: "(string \<rightharpoonup> string) \<Rightarrow> string list \<Rightarrow> (string \<rightharpoonup> string) go" where
  "parseCommandLineFrom values [] = Inr values"
| "parseCommandLineFrom values (argument # rest) =
     (if \<not> has_prefix argument ''--''
      then Inl (configurationError ''positional and single-dash arguments are not supported'')
      else
        (let (name, v, hasEquals) = cut CHR ''='' (trim_prefix argument ''--'')
         in if name = optionHelp
            then Inl (configurationError ''--help must be used as the sole argument'')
            else if \<not> isKnownOption name
            then Inl (configurationError ''unknown command-line option'')
            else if values name \<noteq> None
            then Inl (configurationError (''command-line option --'' @ name @ '' was repeated''))
            else if hasEquals
            then (if v = []
                  then Inl (configurationError (''command-line option --'' @ name @ '' cannot be empty''))
                  else parseCommandLineFrom (values(name \<mapsto> v)) rest)
            else
              (case rest of
                 [] \<Rightarrow> Inl (configurationError
                         (''command-line option --'' @ name @ '' requires a value''))
               | next # rest' \<Rightarrow>
                   if has_prefix next ''--''
                   then Inl (configurationError
                          (''command-line option --'' @ name @ '' requires a value''))
                   else if next = []
                   then Inl (configurationError
                          (''command-line option --'' @ name @ '' cannot be empty''))
                   else parseCommandLineFrom (values(name \<mapsto> next)) rest')))"

definition parseCommandLine :: "string list \<Rightarrow> (string \<rightharpoonup> string) go" where
  "parseCommandLine args = parseCommandLineFrom Map.empty args"

fun parseEnvironmentFrom :: "(string \<rightharpoonup> string) \<Rightarrow> string list \<Rightarrow> (string \<rightharpoonup> string) go" where
  "parseEnvironmentFrom values [] = Inr values"
| "parseEnvironmentFrom values (entry # rest) =
     (let (name, v, found) = cut CHR ''='' entry;
          v = (if \<not> found then [] else v)
      in if has_prefix name environmentPrefix \<and> \<not> isKnownEnvironment name
         then Inl (configurationError ''unknown JOY_PI_HEALTH_ environment variable'')
         else parseEnvironmentFrom (if isKnownEnvironment name then values(name \<mapsto> v) else values) rest)"

definition parseEnvironment :: "string list \<Rightarrow> (string \<rightharpoonup> string) go" where
  "parseEnvironment entries = parseEnvironmentFrom Map.empty entries"

definition selectValue ::
    "(string \<rightharpoonup> string) \<Rightarrow> string \<Rightarrow> (string \<rightharpoonup> string) \<Rightarrow> string \<Rightarrow> string \<Rightarrow> string" where
  "selectValue commandLine option environment key fallback =
     (case commandLine option of
        Some v \<Rightarrow> v
      | None \<Rightarrow> (case environment key of Some v \<Rightarrow> v | None \<Rightarrow> fallback))"

definition Resolve :: "string list \<Rightarrow> string list \<Rightarrow> Config go" where
  "Resolve args environment =
     (if args = [''--'' @ optionHelp] then Inl ErrHelp
      else
        go_bind (parseCommandLine args) (\<lambda>commandLine.
        go_bind (parseEnvironment environment) (\<lambda>effective.
          let addressText = selectValue commandLine optionListenAddress effective
                              environmentListenAddress defaultListenAddress;
              portText = selectValue commandLine optionListenPort effective
                           environmentListenPort defaultListenPort;
              allowText = selectValue commandLine optionAllowNonLoopback effective
                            environmentAllowNonLoopback defaultAllowNonLoopback;
              levelText = selectValue commandLine optionLogLevel effective
                            environmentLogLevel defaultLogLevel
          in go_bind (parseAddress addressText) (\<lambda>address.
             go_bind (parsePort portText) (\<lambda>port.
             go_bind (parseBoolean allowText) (\<lambda>allow.
             go_bind (parseLogLevel levelText) (\<lambda>level.
               if \<not> addr_is_loopback address \<and> \<not> allow
               then Inl (configurationError
                      ''wildcard or non-loopback binding requires allow-non-loopback=true'')
               else Inr \<lparr>listenAddress = address, listenPort = port, allowNonLoopback = allow,
                         logLevel = level\<rparr>)))))))"

section \<open>Help\<close>

definition HelpText :: string where
  "HelpText =
     concat (map (\<lambda>l. l @ [CHR 0x0A])
      [''Usage: joy-pi-health [options]'',
       '''',
       ''Options:'',
       ''  --listen-address <IPv4>       Listener IPv4 address (default: 127.0.0.1)'',
       ''  --listen-port <port>          Listener TCP port (default: 8080)'',
       ''  --allow-non-loopback <bool>   Acknowledge wildcard or non-loopback exposure (default: false)'',
       ''  --log-level <level>           Log level: debug, info, warn, or error (default: info)'',
       ''  --help                        Show this help and exit'',
       '''',
       ''Values may also use --name=value syntax. Command-line values override'',
       ''JOY_PI_HEALTH_* environment values, which override built-in defaults.''])"

section \<open>What the value parsers accept\<close>

lemma octet_text_dec: "n < 256 \<Longrightarrow> octet_text (dec n)"
proof -
  assume n: "n < 256"
  have "length (dec 0) = 1" by (simp add: dec.simps [of 0])
  then show ?thesis using n hd_dec [of n] dec_digits by (auto simp: octet_text_def list_all_iff)
qed

lemma parse_addr_skip: "\<forall>c\<in>set ds. is_digit c \<Longrightarrow> parse_addr_from s (ds @ CHR ''.'' # t) = parse_ipv4 s"
  by (induction ds) (auto simp: is_digit_def)

lemma parse_addr_string:
  assumes "a < 256" "b < 256" "c < 256" "d < 256"
  shows "parse_addr (addr_string (Addr4 a b c d)) = Inr (Addr4 a b c d)"
proof -
  let ?s = "join CHR ''.'' [dec a, dec b, dec c, dec d]"
  have "\<forall>p\<in>set [dec a, dec b, dec c, dec d]. CHR ''.'' \<notin> set p"
    using dec_no_char [of "CHR ''.''"] by (simp add: is_digit_def)
  then have split: "split_on CHR ''.'' ?s = [dec a, dec b, dec c, dec d]"
    by (intro split_on_join) simp_all
  have "parse_addr ?s = parse_ipv4 ?s"
    unfolding parse_addr_def by (simp add: parse_addr_skip dec_digits)
  also have "\<dots> = Inr (Addr4 a b c d)"
    unfolding parse_ipv4.simps split using assms by (simp add: octet_text_dec)
  finally show ?thesis by simp
qed

lemma parse_addr_octets:
  assumes "parse_addr s = Inr (Addr4 a b c d)"
  shows "a < 256 \<and> b < 256 \<and> c < 256 \<and> d < 256"
proof -
  have "parse_addr_from s t = Inr (Addr4 a b c d) \<Longrightarrow> parse_ipv4 s = Inr (Addr4 a b c d)" for t
    by (induction t) (simp_all split: if_split_asm del: parse_ipv4.simps)
  with assms have "parse_ipv4 s = Inr (Addr4 a b c d)" by (simp add: parse_addr_def del: parse_ipv4.simps)
  then show ?thesis by (auto simp: octet_text_def split: list.splits if_splits)
qed

definition listenable :: "netip \<Rightarrow> bool" where
  "listenable address \<longleftrightarrow>
     (\<exists>a b c d. address = Addr4 a b c d \<and> a < 256 \<and> b < 256 \<and> c < 256 \<and> d < 256
        \<and> \<not> (224 \<le> a \<and> a < 240) \<and> address \<noteq> Addr4 255 255 255 255)"

lemma parseAddress_iff: "parseAddress v = Inr address \<longleftrightarrow> listenable address \<and> v = addr_string address"
proof
  assume "parseAddress v = Inr address"
  then have p: "parse_addr v = Inr address" "addr_is4 address" "addr_string address = v"
    "\<not> addr_is_multicast address" "address \<noteq> Addr4 255 255 255 255"
    by (auto simp: parseAddress_def split: sum.splits if_splits)
  from p(2) obtain a b c d where "address = Addr4 a b c d" by (cases address) auto
  with p parse_addr_octets show "listenable address \<and> v = addr_string address"
    by (auto simp: listenable_def)
next
  assume l: "listenable address \<and> v = addr_string address"
  then obtain a b c d where a: "address = Addr4 a b c d" "a < 256" "b < 256" "c < 256" "d < 256"
    "\<not> (224 \<le> a \<and> a < 240)" "address \<noteq> Addr4 255 255 255 255"
    by (auto simp: listenable_def)
  have "parse_addr v = Inr address" using l parse_addr_string [OF a(2-5)] a(1) by simp
  then show "parseAddress v = Inr address" using l a by (simp add: parseAddress_def)
qed

text \<open>A decimal text of a port: its digits, leading zeros included, have the port's value.\<close>

definition decimal_port :: "string \<Rightarrow> u16 \<Rightarrow> bool" where
  "decimal_port v p \<longleftrightarrow> v \<noteq> [] \<and> (\<forall>c\<in>set v. is_digit c) \<and> digits_value v = unat p \<and> p \<noteq> 0"

lemma digit_runes: "\<forall>c\<in>set v. is_digit c \<Longrightarrow> list_all (\<lambda>(r, w). 48 \<le> r \<and> r \<le> 57) (runes v)"
  by (subst runes_ascii) (auto simp: list_all_iff is_digit_def)

lemma parsePort_iff: "parsePort v = Inr p \<longleftrightarrow> decimal_port v p"
proof
  assume p: "parsePort v = Inr p"
  then obtain n where n: "parse_uint 10 16 v = Inr n" "n \<noteq> 0" "p = of_nat n"
    by (auto simp: parsePort_def split: sum.splits if_splits)
  have "n < 2 ^ 16" using parse_uint_bound [OF n(1)] .
  then have "unat p = n" using n(3) by (simp add: unat_of_nat take_bit_nat_eq_self)
  then show "decimal_port v p" using n by (auto simp: decimal_port_def parse_uint_iff)
next
  assume d: "decimal_port v p"
  then have "parse_uint 10 16 v = Inr (unat p)"
    using unsigned_less [of p, where ?'a = nat] by (simp add: decimal_port_def parse_uint_iff)
  then show "parsePort v = Inr p"
    using d digit_runes [of v] by (simp add: parsePort_def decimal_port_def unat_eq_0)
qed

lemma parsePort_value: "parsePort v = Inr p \<Longrightarrow> p \<noteq> 0"
  by (simp add: parsePort_iff decimal_port_def)

lemma parsePort_dec: "0 < n \<Longrightarrow> n < 2 ^ 16 \<Longrightarrow> parsePort (dec n) = Inr (of_nat n)"
proof -
  assume n: "0 < n" "n < 2 ^ 16"
  have "\<forall>c\<in>set (dec n). is_digit c" using dec_digits by blast
  then show ?thesis using n digit_runes [of "dec n"] by (simp add: parsePort_def)
qed

lemma parseBoolean_iff: "parseBoolean v = Inr b \<longleftrightarrow> v = (if b then ''true'' else ''false'')"
  by (auto simp: parseBoolean_def)

lemma parseLogLevel_iff: "parseLogLevel v = Inr l \<longleftrightarrow> v = log_level_text l"
  by (cases l) (auto simp: parseLogLevel_def)

section \<open>What the merging does\<close>

lemma known_no_equals: "isKnownOption n \<Longrightarrow> CHR ''='' \<notin> set n"
  by (auto simp: isKnownOption_def option_defs)

lemma known_not_help: "isKnownOption n \<Longrightarrow> n \<noteq> optionHelp"
  by (auto simp: isKnownOption_def option_defs)

text \<open>An option as it is written on a command line, in one argument or in two.\<close>

datatype optionSyntax = Joined | Separate

fun option_arguments :: "optionSyntax \<times> string \<times> string \<Rightarrow> string list" where
  "option_arguments (Joined, n, v) = [''--'' @ n @ ''='' @ v]"
| "option_arguments (Separate, n, v) = [''--'' @ n, v]"

lemma parse_option:
  assumes "isKnownOption n" "v \<noteq> []" "values n = None" "form = Separate \<longrightarrow> \<not> has_prefix v ''--''"
  shows "parseCommandLineFrom values (option_arguments (form, n, v) @ rest) =
    parseCommandLineFrom (values(n \<mapsto> v)) rest"
proof (cases form)
  case Joined
  have cut: "cut CHR ''='' (n @ CHR ''='' # v) = (n, v, True)"
    using known_no_equals [OF assms(1)] by (rule cut_append)
  have parts: "option_arguments (Joined, n, v) @ rest = (''--'' @ (n @ CHR ''='' # v)) # rest" by simp
  show ?thesis
    unfolding Joined parts parseCommandLineFrom.simps trim_prefix_append cut
    using assms known_not_help [OF assms(1)] by (simp add: has_prefix_def)
next
  case Separate
  have cut: "cut CHR ''='' n = (n, [], False)"
    using known_no_equals [OF assms(1)] by (simp add: cut_def)
  have parts: "option_arguments (Separate, n, v) @ rest = (''--'' @ n) # v # rest" by simp
  show ?thesis
    unfolding Separate parts parseCommandLineFrom.simps trim_prefix_append cut
    using assms known_not_help [OF assms(1)] Separate by (simp add: has_prefix_def)
qed

lemma parseCommandLine_options:
  assumes "distinct (map fst (map snd cl))"
    "\<forall>(form, n, v)\<in>set cl. isKnownOption n \<and> v \<noteq> [] \<and> (form = Separate \<longrightarrow> \<not> has_prefix v ''--'')
       \<and> values n = None"
  shows "parseCommandLineFrom values (concat (map option_arguments cl)) = Inr (values ++ map_of (map snd cl))"
  using assms
proof (induction cl arbitrary: "values")
  case Nil
  then show ?case by simp
next
  case (Cons a cl)
  obtain form n v where a: "a = (form, n, v)" by (cases a) auto
  with Cons.prems have n: "isKnownOption n" "v \<noteq> []" "values n = None"
    "form = Separate \<longrightarrow> \<not> has_prefix v ''--''" by auto
  have new: "n \<notin> set (map fst (map snd cl))" using Cons.prems(1) by (simp add: a)
  have IH: "parseCommandLineFrom (values(n \<mapsto> v)) (concat (map option_arguments cl)) =
      Inr (values(n \<mapsto> v) ++ map_of (map snd cl))"
  proof (rule Cons.IH)
    show "distinct (map fst (map snd cl))" using Cons.prems(1) by simp
    show "\<forall>(form', m, w)\<in>set cl. isKnownOption m \<and> w \<noteq> []
        \<and> (form' = Separate \<longrightarrow> \<not> has_prefix w ''--'') \<and> (values(n \<mapsto> v)) m = None"
    proof (intro ballI, clarify)
      fix form' m w assume "(form', m, w) \<in> set cl"
      moreover from this have "m \<noteq> n" using new by force
      ultimately show "isKnownOption m \<and> w \<noteq> [] \<and> (form' = Separate \<longrightarrow> \<not> has_prefix w ''--'')
          \<and> (values(n \<mapsto> v)) m = None"
        using Cons.prems(2) by fastforce
    qed
  qed
  have "parseCommandLineFrom values (concat (map option_arguments (a # cl))) =
      parseCommandLineFrom (values(n \<mapsto> v)) (concat (map option_arguments cl))"
    unfolding list.map concat.simps a using n by (intro parse_option)
  also have "\<dots> = Inr (values ++ map_of (map snd (a # cl)))"
  proof -
    have none: "map_of (map snd cl) n = None" using new unfolding map_of_eq_None_iff set_map .
    have "values(n \<mapsto> v) ++ map_of (map snd cl) = values ++ map_of (map snd (a # cl))"
      by (rule ext) (auto simp: a map_add_def none split: option.splits)
    then show ?thesis unfolding IH by simp
  qed
  finally show ?case .
qed

definition environment_entry :: "string \<times> string \<Rightarrow> string" where
  "environment_entry e = fst e @ ''='' @ snd e"

lemma parseEnvironment_entries:
  assumes "\<forall>(k, v)\<in>set en. CHR ''='' \<notin> set k \<and> (has_prefix k environmentPrefix \<longrightarrow> isKnownEnvironment k)"
  shows "\<exists>m. parseEnvironmentFrom values (map environment_entry en) = Inr m
     \<and> (\<forall>k. isKnownEnvironment k \<longrightarrow> m k = (values ++ map_of (rev en)) k)"
  using assms
proof (induction en arbitrary: "values")
  case Nil
  then show ?case by simp
next
  case (Cons a en)
  obtain k v where a: "a = (k, v)" by fastforce
  with Cons.prems have k: "CHR ''='' \<notin> set k" "has_prefix k environmentPrefix \<longrightarrow> isKnownEnvironment k"
    by auto
  let ?extended = "if isKnownEnvironment k then values(k \<mapsto> v) else values"
  have cut: "cut CHR ''='' (environment_entry a) = (k, v, True)"
    using cut_append [OF k(1), of v] by (simp add: a environment_entry_def)
  have step: "parseEnvironmentFrom values (map environment_entry (a # en)) =
      parseEnvironmentFrom ?extended (map environment_entry en)"
    unfolding list.map parseEnvironmentFrom.simps cut using k(2) by auto
  obtain m where "parseEnvironmentFrom ?extended (map environment_entry en) = Inr m"
    "\<forall>k'. isKnownEnvironment k' \<longrightarrow> m k' = (?extended ++ map_of (rev en)) k'"
    using Cons.IH [of ?extended] Cons.prems by auto
  moreover have "(?extended ++ map_of (rev en)) k' = (values ++ map_of (rev (a # en))) k'"
    if "isKnownEnvironment k'" for k'
    using that by (auto simp: a map_add_def split: option.splits)
  ultimately show ?case unfolding step by auto
qed

lemma Resolve_Inr_iff:
  "Resolve args environment = Inr c \<longleftrightarrow>
     args \<noteq> [''--'' @ optionHelp]
     \<and> (\<exists>cl en. parseCommandLine args = Inr cl \<and> parseEnvironment environment = Inr en
        \<and> parseAddress (selectValue cl optionListenAddress en environmentListenAddress defaultListenAddress)
            = Inr (listenAddress c)
        \<and> parsePort (selectValue cl optionListenPort en environmentListenPort defaultListenPort)
            = Inr (listenPort c)
        \<and> parseBoolean (selectValue cl optionAllowNonLoopback en environmentAllowNonLoopback
            defaultAllowNonLoopback) = Inr (allowNonLoopback c)
        \<and> parseLogLevel (selectValue cl optionLogLevel en environmentLogLevel defaultLogLevel)
            = Inr (logLevel c)
        \<and> (addr_is_loopback (listenAddress c) \<or> allowNonLoopback c))"
  (is "_ \<longleftrightarrow> ?R")
proof
  assume "Resolve args environment = Inr c"
  then show ?R
    by (auto simp: Resolve_def go_bind_Inr_iff Let_def split: if_splits)
next
  assume ?R
  then show "Resolve args environment = Inr c"
    by (auto simp: Resolve_def Let_def)
qed

lemma parseEnvironment_known:
  "parseEnvironmentFrom values entries = Inr m \<Longrightarrow>
   \<forall>e\<in>set entries. has_prefix (fst (cut CHR ''='' e)) environmentPrefix \<longrightarrow>
      isKnownEnvironment (fst (cut CHR ''='' e))"
  by (induction entries arbitrary: "values")
    (auto simp: Let_def split: prod.splits if_splits)

section \<open>Properties\<close>

text \<open>
  C30 (resolve_sound): an accepted configuration listens on a canonical IPv4 unicast address that is
  not the broadcast address, on a non-zero port; unless the address is a loopback address the
  exposure was acknowledged; and the environment holds no unknown variable of the service.
\<close>

theorem resolve_sound:
  assumes "Resolve args environment = Inr c"
  shows "listenable (listenAddress c) \<and> listenPort c \<noteq> 0
    \<and> (addr_is_loopback (listenAddress c) \<or> allowNonLoopback c)
    \<and> (\<forall>e\<in>set environment. has_prefix (fst (cut CHR ''='' e)) environmentPrefix \<longrightarrow>
          isKnownEnvironment (fst (cut CHR ''='' e)))"
proof -
  obtain cl en where r: "parseEnvironment environment = Inr en"
    "parseAddress (selectValue cl optionListenAddress en environmentListenAddress defaultListenAddress)
       = Inr (listenAddress c)"
    "parsePort (selectValue cl optionListenPort en environmentListenPort defaultListenPort)
       = Inr (listenPort c)"
    "addr_is_loopback (listenAddress c) \<or> allowNonLoopback c"
    using assms unfolding Resolve_Inr_iff by blast
  show ?thesis
    using parseEnvironment_known [OF r(1) [unfolded parseEnvironment_def]] r(4)
      parsePort_value [OF r(3)] r(2) [unfolded parseAddress_iff] by blast
qed

lemma default_values:
  "parseAddress defaultListenAddress = Inr (Addr4 127 0 0 1)"
  "parsePort defaultListenPort = Inr 8080"
  "parseBoolean defaultAllowNonLoopback = Inr False"
  "parseLogLevel defaultLogLevel = Inr LogLevelInfo"
proof -
  show "parseAddress defaultListenAddress = Inr (Addr4 127 0 0 1)"
    unfolding parseAddress_iff by (simp add: listenable_def defaultListenAddress_def wire_simps)
  have "dec 8080 = ''8080''" by (simp add: wire_simps)
  then show "parsePort defaultListenPort = Inr 8080"
    using parsePort_dec [of 8080] by (simp add: defaultListenPort_def)
  show "parseBoolean defaultAllowNonLoopback = Inr False"
    by (simp add: parseBoolean_iff defaultAllowNonLoopback_def)
  show "parseLogLevel defaultLogLevel = Inr LogLevelInfo"
    by (simp add: parseLogLevel_iff defaultLogLevel_def)
qed

definition default_config :: Config where
  "default_config =
     \<lparr>listenAddress = Addr4 127 0 0 1, listenPort = 8080, allowNonLoopback = False,
      logLevel = LogLevelInfo\<rparr>"

lemma default_resolves: "Resolve [] [] = Inr default_config"
  unfolding Resolve_Inr_iff
  by (simp add: parseCommandLine_def parseEnvironment_def selectValue_def default_values
      default_config_def)

theorem resolve_sound_witness: "listenable (listenAddress default_config)"
  using resolve_sound [OF default_resolves] by blast

definition chosen ::
    "(string \<times> string) list \<Rightarrow> (string \<times> string) list \<Rightarrow> string \<Rightarrow> string \<Rightarrow> string \<Rightarrow> string" where
  "chosen cl en option key fallback =
     (case map_of cl option of
        Some v \<Rightarrow> v
      | None \<Rightarrow> (case map_of (rev en) key of Some v \<Rightarrow> v | None \<Rightarrow> fallback))"

lemma selectValue_chosen:
  assumes "m key = (Map.empty ++ map_of (rev en)) key"
  shows "selectValue (Map.empty ++ map_of cl) option m key fallback = chosen cl en option key fallback"
  using assms by (cases "map_of cl option") (simp_all add: selectValue_def chosen_def)

lemma known_environment:
  "isKnownEnvironment environmentListenAddress" "isKnownEnvironment environmentListenPort"
  "isKnownEnvironment environmentAllowNonLoopback" "isKnownEnvironment environmentLogLevel"
  by (simp_all add: isKnownEnvironment_def)

lemma parse_not_help: "parseCommandLine args = Inr m \<Longrightarrow> args \<noteq> [''--'' @ optionHelp]"
  by (auto simp: parseCommandLine_def has_prefix_def trim_prefix_def cut_def optionHelp_def)

text \<open>
  C31 (resolve_precedence): with options given as \<open>--name=value\<close> or as \<open>--name value\<close> (mixed as one
  likes; in two arguments the value cannot begin with \<open>--\<close>) and environment entries
  \<open>NAME=value\<close>, a setting's text is the command line's value when there is one, else the last
  value of its environment variable, else its default; the configuration is accepted exactly when
  the four texts are texts of its values (the canonical dotted address, decimal digits of a port
  from 1 through 65535, exactly \<open>true\<close> or \<open>false\<close>, one of the four levels) and a non-loopback
  address is acknowledged.
\<close>

theorem resolve_precedence:
  assumes "distinct (map fst (map snd cl))"
    and "\<forall>(form, n, v)\<in>set cl.
           isKnownOption n \<and> v \<noteq> [] \<and> (form = Separate \<longrightarrow> \<not> has_prefix v ''--'')"
    and "\<forall>(k, v)\<in>set en. CHR ''='' \<notin> set k \<and> (has_prefix k environmentPrefix \<longrightarrow> isKnownEnvironment k)"
  shows "Resolve (concat (map option_arguments cl)) (map environment_entry en) = Inr c \<longleftrightarrow>
     listenable (listenAddress c)
     \<and> chosen (map snd cl) en optionListenAddress environmentListenAddress ''127.0.0.1''
         = addr_string (listenAddress c)
     \<and> decimal_port (chosen (map snd cl) en optionListenPort environmentListenPort ''8080'')
         (listenPort c)
     \<and> chosen (map snd cl) en optionAllowNonLoopback environmentAllowNonLoopback ''false''
         = (if allowNonLoopback c then ''true'' else ''false'')
     \<and> chosen (map snd cl) en optionLogLevel environmentLogLevel ''info'' = log_level_text (logLevel c)
     \<and> (addr_is_loopback (listenAddress c) \<or> allowNonLoopback c)"
proof -
  have cl: "parseCommandLine (concat (map option_arguments cl)) = Inr (Map.empty ++ map_of (map snd cl))"
    unfolding parseCommandLine_def using assms(1,2) by (intro parseCommandLine_options) auto
  obtain m where m: "parseEnvironment (map environment_entry en) = Inr m"
    "\<forall>k. isKnownEnvironment k \<longrightarrow> m k = (Map.empty ++ map_of (rev en)) k"
    using parseEnvironment_entries [OF assms(3), of Map.empty] unfolding parseEnvironment_def by blast
  have chosen: "isKnownEnvironment k \<Longrightarrow>
      selectValue (Map.empty ++ map_of (map snd cl)) n m k d = chosen (map snd cl) en n k d" for n k d
    using m(2) by (intro selectValue_chosen) blast
  show ?thesis
    unfolding Resolve_Inr_iff cl m(1)
    by (simp only: parse_not_help [OF cl] sum.inject chosen known_environment parseAddress_iff
        parsePort_iff parseBoolean_iff parseLogLevel_iff defaultListenAddress_def defaultListenPort_def
        defaultAllowNonLoopback_def defaultLogLevel_def ex_simps simp_thms) blast
qed

text \<open>Both syntaxes on one command line, each over its environment variable or default.\<close>

theorem resolve_precedence_witness:
  "Resolve [''--log-level=warn'', ''--allow-non-loopback'', ''true''] [''JOY_PI_HEALTH_LOG_LEVEL=error''] =
     Inr (default_config\<lparr>logLevel := LogLevelWarn, allowNonLoopback := True\<rparr>)"
proof -
  let ?cl = "[(Joined, ''log-level'', ''warn''), (Separate, ''allow-non-loopback'', ''true'')]"
    and ?en = "[(''JOY_PI_HEALTH_LOG_LEVEL'', ''error'')]"
  have "concat (map option_arguments ?cl) = [''--log-level=warn'', ''--allow-non-loopback'', ''true'']"
    "map environment_entry ?en = [''JOY_PI_HEALTH_LOG_LEVEL=error'']"
    by (simp_all add: environment_entry_def)
  moreover have "Resolve (concat (map option_arguments ?cl)) (map environment_entry ?en) =
      Inr (default_config\<lparr>logLevel := LogLevelWarn, allowNonLoopback := True\<rparr>)"
    by (subst resolve_precedence)
      (simp_all add: isKnownOption_def chosen_def option_defs environment_defs has_prefix_def
        default_config_def listenable_def isKnownEnvironment_def wire_simps decimal_port_def
        is_digit_def digits_value_def)
  ultimately show ?thesis by (simp only:)
qed

end
