(* ===== verification/HttpServer.thy ===== *)
theory HttpServer
  imports HttpApi Config
begin

text \<open>
  \<open>internal/httpapi/server.go\<close>: the server with its limits and the listener that bounds the
  open connections. The bound listener and \<open>http.Server\<close> are outside the repository: the results
  of their calls are arguments. \<open>Accept\<close> and the \<open>Close\<close> methods of the listener and of its
  connections are sections that a step relation interleaves.
\<close>

section \<open>The server\<close>

abbreviation (input) second :: int where "second \<equiv> 1000000000"

definition maximumConnections :: nat where "maximumConnections = 16"
definition maximumHeaderBytes :: nat where "maximumHeaderBytes = 8 * 1024"
definition headerReadTimeout :: int where "headerReadTimeout = 2 * second"
definition readTimeout :: int where "readTimeout = 2 * second"
definition idleTimeout :: int where "idleTimeout = 15 * second"
definition writeTimeout :: int where "writeTimeout = second"
definition requestDeadline :: int where "requestDeadline = second"

text \<open>
  \<open>limitedListener\<close>: the number of items in the channel \<open>slots\<close>, its capacity, whether
  \<open>closed\<close> is closed, and how often the bound listener was closed.
\<close>

record limitedListener =
  ll_slots :: nat
  ll_limit :: nat
  ll_closed :: bool
  ll_closes :: nat

definition newLimitedListener :: "nat \<Rightarrow> limitedListener" where
  "newLimitedListener limit = \<lparr>ll_slots = 0, ll_limit = limit, ll_closed = False, ll_closes = 0\<rparr>"

record httpServer =
  hs_handler :: requestHandler
  hs_readTimeout :: int
  hs_readHeaderTimeout :: int
  hs_writeTimeout :: int
  hs_idleTimeout :: int
  hs_maxHeaderBytes :: nat
  hs_logPrefix :: string
  hs_inShutdown :: bool
  hs_tracked :: bool

record Server =
  srv_http :: httpServer
  srv_listener :: limitedListener
  srv_endpoint :: string

definition newServer :: "string \<Rightarrow> requestHandler \<Rightarrow> Server" where
  "newServer endpoint handler =
     \<lparr>srv_http =
        \<lparr>hs_handler = handler, hs_readTimeout = readTimeout, hs_readHeaderTimeout = headerReadTimeout,
         hs_writeTimeout = writeTimeout, hs_idleTimeout = idleTimeout,
         hs_maxHeaderBytes = maximumHeaderBytes, hs_logPrefix = ''joy-pi-health: http: '',
         hs_inShutdown = False, hs_tracked = False\<rparr>,
      srv_listener = newLimitedListener maximumConnections, srv_endpoint = endpoint\<rparr>"

text \<open>\<open>net.JoinHostPort\<close>: a host with a colon or a percent sign is put in brackets.\<close>

definition joinHostPort :: "string \<Rightarrow> string \<Rightarrow> string" where
  "joinHostPort host port =
     (if CHR '':'' \<in> set host \<or> CHR ''%'' \<in> set host then ''['' @ host @ '']:'' @ port
      else host @ '':'' @ port)"

text \<open>
  \<open>bind\<close> is \<open>net.ListenConfig.Listen\<close> on a network and an endpoint: the error, if any.
\<close>

definition Listen ::
    "(string \<Rightarrow> string \<Rightarrow> goerror option) \<Rightarrow> netip \<Rightarrow> u16 \<Rightarrow> bool \<Rightarrow> bool \<Rightarrow> Server go" where
  "Listen bind address port providerNil fatalNil =
     go_bind (newRequestHandler providerNil fatalNil requestDeadline) (\<lambda>handler.
       let endpoint = joinHostPort (addr_string address) (dec (unat port))
       in case bind ''tcp4'' endpoint of
            Some e \<Rightarrow> Inl e
          | None \<Rightarrow> Inr (newServer endpoint handler))"

section \<open>The limited listener\<close>

text \<open>
  The two cases of the \<open>select\<close> of \<open>Accept\<close>: \<open>None\<close> when the case is not ready. A receive from
  an empty channel blocks, so releasing a slot is partial too.
\<close>

definition takeSlot :: "limitedListener \<Rightarrow> limitedListener option" where
  "takeSlot l = (if ll_slots l < ll_limit l then Some (l\<lparr>ll_slots := Suc (ll_slots l)\<rparr>) else None)"

definition refuseClosed :: "limitedListener \<Rightarrow> goerror option" where
  "refuseClosed l = (if ll_closed l then Some NetErrClosed else None)"

definition dropSlot :: "limitedListener \<Rightarrow> limitedListener option" where
  "dropSlot l = (if ll_slots l = 0 then None else Some (l\<lparr>ll_slots := ll_slots l - 1\<rparr>))"

text \<open>The rest of \<open>Accept\<close>, on the result of the bound listener.\<close>

definition acceptInner ::
    "goerror option \<Rightarrow> limitedListener \<Rightarrow> (limitedListener \<times> goerror option) option" where
  "acceptInner err l =
     (case err of
        Some e \<Rightarrow> (case dropSlot l of None \<Rightarrow> None | Some l' \<Rightarrow> Some (l', Some e))
      | None \<Rightarrow> Some (l, None))"

definition closeListener :: "goerror option \<Rightarrow> limitedListener \<Rightarrow> limitedListener \<times> goerror option" where
  "closeListener err l = (l\<lparr>ll_closed := True, ll_closes := Suc (ll_closes l)\<rparr>, err)"

text \<open>
  \<open>limitedConnection\<close>: the flag of its \<open>releaseOnce\<close>. \<open>Close\<close> closes the connection itself
  (with a result that is an argument) and releases the slot the first time.
\<close>

record limitedConnection =
  lc_released :: bool

definition closeConnection ::
    "goerror option \<Rightarrow> limitedConnection \<Rightarrow> limitedListener
     \<Rightarrow> (limitedConnection \<times> limitedListener \<times> goerror option) option" where
  "closeConnection err c l =
     (if lc_released c then Some (c, l, err)
      else (case dropSlot l of
              None \<Rightarrow> None
            | Some l' \<Rightarrow> Some (c\<lparr>lc_released := True\<rparr>, l', err)))"

text \<open>
  Calls of \<open>Accept\<close> and connections, interleaved. \<open>li_closed\<close> is no state of the code: it notes
  for each connection whether a call of its \<open>Close\<close> has completed, whatever the code did in it.
  That call is one step, at its \<open>releaseOnce\<close>: the close of the connection itself, before it,
  touches nothing of the listener.
\<close>

datatype acceptPhase = AcceptWaiting | Accepting | AcceptDone "goerror option"

record listening =
  li_listener :: limitedListener
  li_accepts :: "acceptPhase list"
  li_connections :: "limitedConnection list"
  li_closed :: "bool list"

inductive listen_step :: "listening \<Rightarrow> listening \<Rightarrow> bool" where
  accept_called:
    "listen_step s (s\<lparr>li_accepts := li_accepts s @ [AcceptWaiting]\<rparr>)"
| slot_taken:
    "i < length (li_accepts s) \<Longrightarrow> li_accepts s ! i = AcceptWaiting \<Longrightarrow>
     takeSlot (li_listener s) = Some l \<Longrightarrow>
     listen_step s (s\<lparr>li_listener := l, li_accepts := (li_accepts s)[i := Accepting]\<rparr>)"
| accept_refused:
    "i < length (li_accepts s) \<Longrightarrow> li_accepts s ! i = AcceptWaiting \<Longrightarrow>
     refuseClosed (li_listener s) = Some e \<Longrightarrow>
     listen_step s (s\<lparr>li_accepts := (li_accepts s)[i := AcceptDone (Some e)]\<rparr>)"
| accept_failed:
    "i < length (li_accepts s) \<Longrightarrow> li_accepts s ! i = Accepting \<Longrightarrow>
     acceptInner (Some e) (li_listener s) = Some (l, r) \<Longrightarrow>
     listen_step s (s\<lparr>li_listener := l, li_accepts := (li_accepts s)[i := AcceptDone r]\<rparr>)"
| accept_done:
    "i < length (li_accepts s) \<Longrightarrow> li_accepts s ! i = Accepting \<Longrightarrow>
     acceptInner None (li_listener s) = Some (l, r) \<Longrightarrow>
     listen_step s (s\<lparr>li_listener := l, li_accepts := (li_accepts s)[i := AcceptDone r],
                      li_connections := li_connections s @ [\<lparr>lc_released = False\<rparr>],
                      li_closed := li_closed s @ [False]\<rparr>)"
| connection_closed:
    "j < length (li_connections s) \<Longrightarrow>
     closeConnection err (li_connections s ! j) (li_listener s) = Some (c, l, r) \<Longrightarrow>
     listen_step s (s\<lparr>li_listener := l, li_connections := (li_connections s)[j := c],
                      li_closed := (li_closed s)[j := True]\<rparr>)"
| listener_closed:
    "closeListener err (li_listener s) = (l, r) \<Longrightarrow> listen_step s (s\<lparr>li_listener := l\<rparr>)"

definition listening_new :: "nat \<Rightarrow> listening" where
  "listening_new limit =
     \<lparr>li_listener = newLimitedListener limit, li_accepts = [], li_connections = [],
      li_closed = []\<rparr>"

inductive listen_reachable :: "nat \<Rightarrow> listening \<Rightarrow> bool" for limit where
  listening_none: "listen_reachable limit (listening_new limit)"
| listening_next: "listen_reachable limit s \<Longrightarrow> listen_step s t \<Longrightarrow> listen_reachable limit t"

section \<open>Serving and closing\<close>

text \<open>
  \<open>http.Server\<close> closes the listeners it tracks, and it tracks a listener from the beginning of
  its \<open>Serve\<close>. That \<open>Serve\<close> refuses to start after a shutdown began, and closes the listener
  it was given when it returns. \<open>hs_tracked\<close> says whether the server's listener is tracked.
\<close>

definition closeOwnListener :: "Server \<Rightarrow> Server" where
  "closeOwnListener s = s\<lparr>srv_listener := fst (closeListener None (srv_listener s))\<rparr>"

definition setTracked :: "bool \<Rightarrow> Server \<Rightarrow> Server" where
  "setTracked b s = s\<lparr>srv_http := (srv_http s)\<lparr>hs_tracked := b\<rparr>\<rparr>"

definition setShutdown :: "Server \<Rightarrow> Server" where
  "setShutdown s = s\<lparr>srv_http := (srv_http s)\<lparr>hs_inShutdown := True\<rparr>\<rparr>"

text \<open>The start of \<open>http.Server.Serve\<close>: the error with which it returns at once, if any.\<close>

definition beginServe :: "Server \<Rightarrow> Server \<times> goerror option" where
  "beginServe s =
     (if hs_inShutdown (srv_http s) then (closeOwnListener s, Some ErrServerClosed)
      else (setTracked True s, None))"

text \<open>\<open>Serve\<close>, on the error that \<open>http.Server.Serve\<close> returned.\<close>

definition Serve :: "goerror option \<Rightarrow> goerror option" where
  "Serve err =
     (case err of
        None \<Rightarrow> None
      | Some e \<Rightarrow> if errors_is e ErrServerClosed \<or> errors_is e NetErrClosed then None else Some e)"

text \<open>
  \<open>Close\<close>, and \<open>Shutdown\<close> as far as the listener goes; \<open>err\<close> is the error of closing the
  connections, or of waiting for them.
\<close>

definition CloseServer :: "goerror option \<Rightarrow> Server \<Rightarrow> Server \<times> goerror option" where
  "CloseServer err s =
     (let s1 = setShutdown s
      in (if hs_tracked (srv_http s1) then setTracked False (closeOwnListener s1) else s1, err))"

definition ShutdownServer :: "goerror option \<Rightarrow> Server \<Rightarrow> Server \<times> goerror option" where
  "ShutdownServer err s =
     (let s1 = setShutdown s
      in (if hs_tracked (srv_http s1) then setTracked False (closeOwnListener s1) else s1, err))"

lemma server_simps [simp]:
  "srv_http (closeOwnListener s) = srv_http s" "ll_closed (srv_listener (closeOwnListener s))"
  "srv_listener (setTracked b s) = srv_listener s" "srv_listener (setShutdown s) = srv_listener s"
  "hs_inShutdown (srv_http (setShutdown s))" "hs_tracked (srv_http (setShutdown s)) = hs_tracked (srv_http s)"
  "hs_inShutdown (srv_http (setTracked b s)) = hs_inShutdown (srv_http s)"
  "hs_tracked (srv_http (setTracked b s)) = b"
  by (simp_all add: closeOwnListener_def setTracked_def setShutdown_def closeListener_def)

section \<open>The slots are the pending and the open connections\<close>

definition pending :: "listening \<Rightarrow> nat" where
  "pending s = length (filter (\<lambda>a. a = Accepting) (li_accepts s))"

definition opened :: "listening \<Rightarrow> nat" where
  "opened s = length (filter (\<lambda>closed. \<not> closed) (li_closed s))"

definition listen_inv :: "nat \<Rightarrow> listening \<Rightarrow> bool" where
  "listen_inv limit s \<longleftrightarrow>
     ll_limit (li_listener s) = limit \<and> ll_slots (li_listener s) = pending s + opened s
     \<and> ll_slots (li_listener s) \<le> limit \<and> li_closed s = map lc_released (li_connections s)
     \<and> (0 < ll_closes (li_listener s) \<longleftrightarrow> ll_closed (li_listener s))"

lemma pending_pos: "i < length (li_accepts s) \<Longrightarrow> li_accepts s ! i = Accepting \<Longrightarrow> 0 < pending s"
  unfolding pending_def using nth_mem by (fastforce simp: filter_empty_conv)

lemma opened_pos:
  "j < length (li_closed s) \<Longrightarrow> \<not> li_closed s ! j \<Longrightarrow> 0 < opened s"
  unfolding opened_def using nth_mem by (fastforce simp: filter_empty_conv)

lemma pending_update:
  "i < length (li_accepts s) \<Longrightarrow>
     length (filter (\<lambda>a. a = Accepting) ((li_accepts s)[i := a])) + of_bool (li_accepts s ! i = Accepting)
       = pending s + of_bool (a = Accepting)"
  unfolding pending_def by (rule filter_update_length)

lemma opened_update:
  "j < length (li_closed s) \<Longrightarrow>
     length (filter (\<lambda>closed. \<not> closed) ((li_closed s)[j := b])) + of_bool (\<not> li_closed s ! j)
       = opened s + of_bool (\<not> b)"
  unfolding opened_def by (rule filter_update_length)

text \<open>A step that changes the listener's slots and one of the lists.\<close>

lemma listen_invI:
  assumes "listen_inv limit s" "ll_limit l = limit" "ll_slots l = pending t + opened t"
    "ll_slots l \<le> limit" "ll_closed l = ll_closed (li_listener s)"
    "ll_closes l = ll_closes (li_listener s)" "li_listener t = l"
    "li_closed t = map lc_released (li_connections t)"
  shows "listen_inv limit t"
  using assms by (simp add: listen_inv_def)

lemma dropSlot_Some:
  "dropSlot l = Some l' \<Longrightarrow> ll_slots l = Suc (ll_slots l') \<and> ll_limit l' = ll_limit l
     \<and> ll_closed l' = ll_closed l \<and> ll_closes l' = ll_closes l"
  by (auto simp: dropSlot_def split: if_splits)

lemma listen_inv_step:
  assumes "listen_inv limit s" "listen_step s t"
  shows "listen_inv limit t"
  using assms(2)
proof cases
  case accept_called
  then show ?thesis using assms(1) by (auto simp: listen_inv_def pending_def opened_def)
next
  case (slot_taken i l)
  then show ?thesis using assms(1) pending_update [OF slot_taken(2), of Accepting]
    by (auto simp: listen_inv_def pending_def opened_def takeSlot_def split: if_splits)
next
  case (accept_refused i e)
  then show ?thesis using assms(1) pending_update [OF accept_refused(2), of "AcceptDone (Some e)"]
    by (auto simp: listen_inv_def pending_def opened_def)
next
  case (accept_failed i e l r)
  have drop: "dropSlot (li_listener s) = Some l"
    using accept_failed(4) by (auto simp: acceptInner_def split: option.splits)
  have "pending s = Suc (pending t)" "opened t = opened s"
    using pending_update [OF accept_failed(2), of "AcceptDone r"] accept_failed(1,3)
    by (simp_all add: pending_def opened_def)
  then show ?thesis using assms(1) dropSlot_Some [OF drop] accept_failed(1)
    by (intro listen_invI [OF assms(1), of l]) (simp_all add: listen_inv_def)
next
  case (accept_done i l r)
  then show ?thesis using assms(1) pending_update [OF accept_done(2), of "AcceptDone r"]
    by (auto simp: listen_inv_def pending_def opened_def acceptInner_def)
next
  case (connection_closed j err c l r)
  have log: "li_closed s = map lc_released (li_connections s)"
    using assms(1) by (simp add: listen_inv_def)
  have pending: "pending t = pending s" using connection_closed(1) by (simp add: pending_def)
  have opened: "opened t + of_bool (\<not> lc_released (li_connections s ! j)) = opened s"
    using opened_update [of j s True] connection_closed(1,2) log by (simp add: opened_def)
  have c: "lc_released c"
    using connection_closed(3) by (auto simp: closeConnection_def split: if_splits option.splits)
  have log': "li_closed t = map lc_released (li_connections t)"
    using connection_closed(1) log c by (simp add: map_update)
  show ?thesis
  proof (cases "lc_released (li_connections s ! j)")
    case True
    then have "l = li_listener s" using connection_closed(3) by (simp add: closeConnection_def)
    then show ?thesis using True assms(1) opened pending connection_closed(1) log'
      by (intro listen_invI [OF assms(1), of l]) (simp_all add: listen_inv_def)
  next
    case False
    then have drop: "dropSlot (li_listener s) = Some l"
      using connection_closed(3) by (auto simp: closeConnection_def split: option.splits)
    then show ?thesis
      using assms(1) dropSlot_Some [OF drop] opened False pending connection_closed(1) log'
      by (intro listen_invI [OF assms(1), of l]) (simp_all add: listen_inv_def)
  qed
next
  case (listener_closed err l r)
  then show ?thesis using assms(1)
    by (auto simp: listen_inv_def pending_def opened_def closeListener_def)
qed

lemma listen_invariant: "listen_reachable limit s \<Longrightarrow> listen_inv limit s"
proof (induction rule: listen_reachable.induct)
  case listening_none
  then show ?case
    by (simp add: listen_inv_def listening_new_def newLimitedListener_def pending_def opened_def)
next
  case (listening_next s t)
  then show ?case using listen_inv_step by blast
qed

lemma close_never_blocks:
  assumes "listen_inv limit s" "j < length (li_connections s)"
  shows "\<exists>c l r. closeConnection err (li_connections s ! j) (li_listener s) = Some (c, l, r)"
  using assms opened_pos [of j s]
  by (cases "lc_released (li_connections s ! j)")
    (auto simp: closeConnection_def dropSlot_def listen_inv_def)

lemma accept_never_blocks:
  assumes "listen_inv limit s" "i < length (li_accepts s)" "li_accepts s ! i = Accepting"
  shows "\<exists>l r. acceptInner err (li_listener s) = Some (l, r)"
  using assms pending_pos [OF assms(2,3)]
  by (auto simp: acceptInner_def dropSlot_def listen_inv_def split: option.splits)

section \<open>Properties\<close>

text \<open>A connection that was closed, and one accepted after it that is open.\<close>

definition example_listening :: listening where
  "example_listening =
     \<lparr>li_listener = \<lparr>ll_slots = 1, ll_limit = 16, ll_closed = False, ll_closes = 0\<rparr>,
      li_accepts = [AcceptDone None, AcceptDone None],
      li_connections = [\<lparr>lc_released = True\<rparr>, \<lparr>lc_released = False\<rparr>],
      li_closed = [True, False]\<rparr>"

lemma example_listening_reachable: "listen_reachable 16 example_listening"
proof -
  let ?l = "\<lambda>slots. \<lparr>ll_slots = slots, ll_limit = 16, ll_closed = False, ll_closes = 0\<rparr>"
  let ?s = "\<lambda>slots accepts connections closed.
    \<lparr>li_listener = ?l slots, li_accepts = accepts, li_connections = connections, li_closed = closed\<rparr>"
  let ?one = "\<lparr>lc_released = True\<rparr>"
  note step = listen_reachable.listening_next
  have "listen_reachable 16 (?s 0 [] [] [])"
    using listen_reachable.listening_none [of 16]
    by (simp add: listening_new_def newLimitedListener_def)
  from step [OF this accept_called] have "listen_reachable 16 (?s 0 [AcceptWaiting] [] [])" by simp
  from step [OF this slot_taken [where i = 0 and l = "?l 1"]]
  have "listen_reachable 16 (?s 1 [Accepting] [] [])" by (simp add: takeSlot_def)
  from step [OF this accept_done [where i = 0 and l = "?l 1" and r = None]]
  have "listen_reachable 16 (?s 1 [AcceptDone None] [\<lparr>lc_released = False\<rparr>] [False])"
    by (simp add: acceptInner_def)
  from step [OF this connection_closed [where j = 0 and c = ?one and l = "?l 0" and err = None and r = None]]
  have "listen_reachable 16 (?s 0 [AcceptDone None] [?one] [True])"
    by (simp add: closeConnection_def dropSlot_def)
  from step [OF this accept_called]
  have "listen_reachable 16 (?s 0 [AcceptDone None, AcceptWaiting] [?one] [True])" by simp
  from step [OF this slot_taken [where i = 1 and l = "?l 1"]]
  have "listen_reachable 16 (?s 1 [AcceptDone None, Accepting] [?one] [True])"
    by (simp add: takeSlot_def)
  from step [OF this accept_done [where i = 1 and l = "?l 1" and r = None]]
  show ?thesis by (simp add: acceptInner_def example_listening_def)
qed

text \<open>
  C21 (connections_bounded): whatever the interleaving of accepts, failures of the bound listener,
  closes of connections (repeated closes included) and closes of the listener, the slots taken
  are exactly the accepts on the bound listener plus the accepted connections on which no call of
  \<open>Close\<close> has completed, and never more than sixteen.
\<close>

theorem connections_bounded:
  assumes "listen_reachable (ll_limit (srv_listener (newServer endpoint handler))) s"
  shows "ll_slots (li_listener s) = pending s + opened s \<and> pending s + opened s \<le> 16"
  using listen_invariant [OF assms]
  by (simp add: listen_inv_def newServer_def newLimitedListener_def maximumConnections_def)

theorem connections_bounded_witness:
  "ll_slots (li_listener example_listening) = 1 \<and> length (li_connections example_listening) = 2
   \<and> pending example_listening + opened example_listening = 1"
proof -
  have slots: "ll_slots (li_listener example_listening) = 1"
    "length (li_connections example_listening) = 2"
    by (simp_all add: example_listening_def)
  have "listen_reachable (ll_limit (srv_listener (newServer [] handler_new))) example_listening"
    using example_listening_reachable
    by (simp add: newServer_def newLimitedListener_def maximumConnections_def)
  from connections_bounded [OF this] slots show ?thesis by simp
qed

text \<open>
  A call of \<open>Accept\<close> waits for a slot only while the
  listener is not closed and all slots belong to accepts under way or open connections; releasing
  a slot never blocks, neither in an accept that failed nor in the close of a connection, and
  after that close a slot is free.
\<close>

theorem accept_waits_only_when_full:
  assumes "listen_reachable limit s"
  shows "(takeSlot (li_listener s) = None \<and> refuseClosed (li_listener s) = None
           \<longleftrightarrow> \<not> ll_closed (li_listener s) \<and> pending s + opened s = limit)
    \<and> (\<forall>i<length (li_accepts s). li_accepts s ! i = Accepting
         \<longrightarrow> (\<forall>err. acceptInner err (li_listener s) \<noteq> None))
    \<and> (\<forall>j<length (li_connections s). \<forall>err.
         \<exists>c l r. closeConnection err (li_connections s ! j) (li_listener s) = Some (c, l, r)
           \<and> lc_released c \<and> (\<not> lc_released (li_connections s ! j) \<longrightarrow> takeSlot l \<noteq> None))"
proof -
  note inv = listen_invariant [OF assms]
  have full: "takeSlot (li_listener s) = None \<and> refuseClosed (li_listener s) = None
      \<longleftrightarrow> \<not> ll_closed (li_listener s) \<and> pending s + opened s = limit"
    using inv by (auto simp: takeSlot_def refuseClosed_def listen_inv_def)
  have close: "\<exists>c l r. closeConnection err (li_connections s ! j) (li_listener s) = Some (c, l, r)
      \<and> lc_released c \<and> (\<not> lc_released (li_connections s ! j) \<longrightarrow> takeSlot l \<noteq> None)"
    if "j < length (li_connections s)" for j err
    using close_never_blocks [OF inv that, of err] inv
    by (auto simp: closeConnection_def dropSlot_def takeSlot_def listen_inv_def split: if_splits)
  show ?thesis using full close accept_never_blocks [OF inv] by blast
qed

lemma listening_one_open:
  "listen_reachable 1
     \<lparr>li_listener = \<lparr>ll_slots = 1, ll_limit = 1, ll_closed = False, ll_closes = 0\<rparr>,
      li_accepts = [AcceptDone None], li_connections = [\<lparr>lc_released = False\<rparr>],
      li_closed = [False]\<rparr>"
proof -
  let ?l = "\<lparr>ll_slots = 1, ll_limit = 1, ll_closed = False, ll_closes = 0\<rparr>"
  have "listen_reachable 1 (listening_new 1)" by (rule listening_none)
  from listening_next [OF this accept_called]
  have "listen_reachable 1 (listening_new 1\<lparr>li_accepts := [AcceptWaiting]\<rparr>)"
    by (simp add: listening_new_def)
  from listening_next [OF this slot_taken [where i = 0 and l = ?l]]
  have "listen_reachable 1 \<lparr>li_listener = ?l, li_accepts = [Accepting], li_connections = [], li_closed = []\<rparr>"
    by (simp add: listening_new_def newLimitedListener_def takeSlot_def)
  from listening_next [OF this accept_done [where i = 0 and l = ?l and r = None]]
  show ?thesis by (simp add: acceptInner_def)
qed

theorem accept_waits_only_when_full_witness:
  "takeSlot \<lparr>ll_slots = 1, ll_limit = 1, ll_closed = False, ll_closes = 0\<rparr> = None"
  using accept_waits_only_when_full [OF listening_one_open]
  by (simp add: pending_def opened_def refuseClosed_def)

text \<open>
  \<open>Listen\<close> succeeds exactly when both dependencies are given and the
  endpoint can be bound; it binds the configured address and port over \<open>tcp4\<close>, and the
  server starts with no slot taken and a handler that has not failed. The endpoint of a resolved
  configuration is its dotted address, a colon and its port.
\<close>

theorem listen_exact:
  shows "Listen bind address port providerNil fatalNil = Inr server \<longleftrightarrow>
    \<not> providerNil \<and> \<not> fatalNil
    \<and> bind ''tcp4'' (joinHostPort (addr_string address) (dec (unat port))) = None
    \<and> server = newServer (joinHostPort (addr_string address) (dec (unat port))) handler_new"
proof (cases "providerNil \<or> fatalNil")
  case True
  then show ?thesis by (auto simp: Listen_def newRequestHandler_def)
next
  case False
  have "newRequestHandler False False requestDeadline = Inr handler_new"
    by (simp add: newRequestHandler_new requestDeadline_def)
  then show ?thesis using False by (auto simp: Listen_def Let_def split: option.splits)
qed

text \<open>
  A server whose \<open>Serve\<close> runs at all does not keep its listener:
  closed or shut down after \<open>Serve\<close> began, or before it begins, the listener ends closed, and in
  the second case \<open>Serve\<close> returns nil without accepting. \<open>Close\<close> alone, on a server that was
  never served, leaves the bound listener open.
\<close>

theorem server_close_order:
  fixes address :: netip and port :: u16
  assumes "Listen bind address port False False = Inr server"
  shows "ll_closed (srv_listener (fst (CloseServer err (fst (beginServe server)))))
    \<and> ll_closed (srv_listener (fst (ShutdownServer err (fst (beginServe server)))))
    \<and> ll_closed (srv_listener (fst (beginServe (fst (CloseServer err server)))))
    \<and> Serve (snd (beginServe (fst (CloseServer err server)))) = None
    \<and> Serve (snd (beginServe (fst (ShutdownServer err server)))) = None
    \<and> \<not> ll_closed (srv_listener (fst (CloseServer err server)))"
proof -
  obtain endpoint handler where "server = newServer endpoint handler"
    using assms by (auto simp: Listen_def Let_def go_bind_Inr_iff split: option.splits)
  then have "\<not> hs_inShutdown (srv_http server)" "\<not> hs_tracked (srv_http server)"
    "\<not> ll_closed (srv_listener server)"
    by (simp_all add: newServer_def newLimitedListener_def)
  then show ?thesis
    by (simp add: beginServe_def CloseServer_def ShutdownServer_def Serve_def Let_def)
qed

theorem server_close_order_witness:
  "\<not> ll_closed (srv_listener (fst (CloseServer None (newServer ''127.0.0.1:8080'' handler_new))))"
proof -
  have "addr_string (Addr4 127 0 0 1) = ''127.0.0.1''" by (simp add: wire_simps)
  moreover have "dec (unat (8080 :: u16)) = ''8080''" by (simp add: wire_simps)
  ultimately have "Listen (\<lambda>_ _. None) (Addr4 127 0 0 1) 8080 False False
      = Inr (newServer ''127.0.0.1:8080'' handler_new)"
    by (simp add: Listen_def Let_def newRequestHandler_new requestDeadline_def joinHostPort_def
        go_bind_Inr_iff)
  from server_close_order [OF this] show ?thesis by blast
qed

end
