(* ===== verification/Readiness.thy ===== *)
theory Readiness
  imports GoStrings
begin

text \<open>
  \<open>internal/app/readiness.go\<close> and \<open>readiness_linux.go\<close>: the gate that sends the readiness
  notification at most once and refuses once a fatal error is detected, and the notification of
  systemd. The operations of the gate are interleaved by a step relation that splits \<open>notify\<close> at
  every access of the atomic flag, which is set outside the mutex; the socket is a parameter.
\<close>

section \<open>Notifying systemd\<close>

definition systemdNotificationSocket :: string where "systemdNotificationSocket = ''NOTIFY_SOCKET''"
definition readyPayload :: string where "readyPayload = ''READY=1''"
definition readinessWriteTimeout :: int where "readinessWriteTimeout = 100 * 1000000"

fun effectiveValueFrom :: "string \<Rightarrow> string list \<Rightarrow> string \<Rightarrow> string" where
  "effectiveValueFrom v [] key = v"
| "effectiveValueFrom v (entry # rest) key =
     (let (name, candidate, found) = cut CHR ''='' entry
      in effectiveValueFrom (if found \<and> name = key then candidate else v) rest key)"

definition effectiveEnvironmentValue :: "string list \<Rightarrow> string \<Rightarrow> string" where
  "effectiveEnvironmentValue environment key = effectiveValueFrom [] environment key"

definition systemdSocketAddress :: "string \<Rightarrow> string" where
  "systemdSocketAddress socket =
     (if has_prefix socket ''@'' then CHR 0x00 # trim_prefix socket ''@'' else socket)"

type_synonym readinessSender = "string \<Rightarrow> string \<Rightarrow> int \<Rightarrow> goerror option"

definition notifySystemdReadyWith :: "string list \<Rightarrow> readinessSender \<Rightarrow> goerror option" where
  "notifySystemdReadyWith environment send =
     (let socket = effectiveEnvironmentValue environment systemdNotificationSocket
      in if socket = [] then None
         else send (systemdSocketAddress socket) readyPayload readinessWriteTimeout)"

text \<open>
  \<open>sendSystemdDatagram\<close>, on the answers of the socket: dialling, setting the deadline, and
  writing the payload (the number of bytes written).
\<close>

record systemdSocket =
  sk_dial :: "string \<Rightarrow> goerror option"
  sk_deadline :: "int \<Rightarrow> goerror option"
  sk_write :: "string \<Rightarrow> nat go"

definition sendSystemdDatagram :: "systemdSocket \<Rightarrow> readinessSender" where
  "sendSystemdDatagram sock name payload timeout =
     (case sk_dial sock name of
        Some e \<Rightarrow> Some e
      | None \<Rightarrow>
          (case sk_deadline sock timeout of
             Some e \<Rightarrow> Some e
           | None \<Rightarrow>
               (case sk_write sock payload of
                  Inl e \<Rightarrow> Some e
                | Inr n \<Rightarrow> if n \<noteq> length payload then Some IoErrShortWrite else None)))"

definition notifySystemdReady :: "systemdSocket \<Rightarrow> string list \<Rightarrow> goerror option" where
  "notifySystemdReady sock environment =
     notifySystemdReadyWith environment (sendSystemdDatagram sock)"

section \<open>The gate\<close>

record readinessGate =
  rg_attempted :: bool
  rg_ready :: bool
  rg_fatal :: bool
  rg_result :: "goerror option"
  rg_detected :: bool

definition newReadinessGate :: readinessGate where
  "newReadinessGate =
     \<lparr>rg_attempted = False, rg_ready = False, rg_fatal = False, rg_result = None, rg_detected = False\<rparr>"

text \<open>\<open>markFatal\<close> stores the flag first, then enters the mutex.\<close>

definition markDetected :: "readinessGate \<Rightarrow> readinessGate" where
  "markDetected gate = gate\<lparr>rg_detected := True\<rparr>"

definition markFatal :: "readinessGate \<Rightarrow> readinessGate" where
  "markFatal gate = gate\<lparr>rg_fatal := True\<rparr>"

definition hasFatal :: "readinessGate \<Rightarrow> bool" where
  "hasFatal gate = rg_detected gate"

definition fatalPreventsReadiness :: goerror where
  "fatalPreventsReadiness = New ''fatal lifecycle transition prevents readiness''"

text \<open>
  \<open>notify\<close> under the mutex, in its sections between the accesses of what other goroutines can
  change: the first load of the flag, the checks of the context and of an earlier attempt, the
  second load of the flag once \<open>send\<close> has returned, and the stores of the result.
\<close>

definition flagsRefuse :: "readinessGate \<Rightarrow> bool" where
  "flagsRefuse gate \<longleftrightarrow> rg_fatal gate \<or> rg_detected gate"

definition claimAttempt ::
    "goerror option \<Rightarrow> readinessGate \<Rightarrow> (goerror option) + readinessGate" where
  "claimAttempt ctxErr gate =
     (if ctxErr \<noteq> None then Inl ctxErr
      else if rg_attempted gate then Inl (rg_result gate)
      else Inr (gate\<lparr>rg_attempted := True\<rparr>))"

definition settleResult :: "goerror option \<Rightarrow> readinessGate \<Rightarrow> goerror option" where
  "settleResult sent gate = (if rg_detected gate then Some fatalPreventsReadiness else sent)"

definition recordResult :: "goerror option \<Rightarrow> readinessGate \<Rightarrow> readinessGate" where
  "recordResult result gate = gate\<lparr>rg_result := result, rg_ready := (result = None)\<rparr>"

text \<open>
  The same without interruption: until the call of \<open>send\<close> (\<open>Inr\<close>) or its return (\<open>Inl\<close>), and
  after \<open>send\<close> has returned.
\<close>

definition enterNotify ::
    "goerror option \<Rightarrow> readinessGate \<Rightarrow> (goerror option) + readinessGate" where
  "enterNotify ctxErr gate =
     (if flagsRefuse gate then Inl (Some fatalPreventsReadiness) else claimAttempt ctxErr gate)"

definition leaveNotify :: "goerror option \<Rightarrow> readinessGate \<Rightarrow> readinessGate \<times> goerror option" where
  "leaveNotify sent gate =
     (let result = settleResult sent gate in (recordResult result gate, result))"

lemmas gate_defs =
  newReadinessGate_def markDetected_def markFatal_def flagsRefuse_def claimAttempt_def
  settleResult_def recordResult_def enterNotify_def leaveNotify_def

section \<open>Interleaving\<close>

text \<open>
  The point the call of \<open>notify\<close> that holds the mutex has reached; calls that wait for the mutex
  have no state. \<open>SendDone\<close> and \<open>Settled\<close> carry whether a fatal error had been detected when \<open>send\<close>
  returned, with what it returned; \<open>Settled\<close> also the result to be stored.
\<close>

datatype notifyPhase =
    Unlocked | Locked | Passed | Claimed | InSend
  | SendDone bool "goerror option"
  | Settled bool "goerror option" "goerror option"

text \<open>
  A finished call: whether a fatal error had been detected when it took the mutex, whether it sent
  (with the flag at the return of \<open>send\<close> and what \<open>send\<close> returned), and what it returned. The
  system keeps these calls and the number of sends beside the gate; \<open>gs_late\<close> is the flag when the
  call under way took the mutex, \<open>gs_marks\<close> counts the calls of \<open>markFatal\<close> between their two
  sections.
\<close>

record notifyCall =
  nc_late :: bool
  nc_sent :: "(bool \<times> goerror option) option"
  nc_result :: "goerror option"

record gateSystem =
  gs_gate :: readinessGate
  gs_phase :: notifyPhase
  gs_late :: bool
  gs_marks :: nat
  gs_sends :: nat
  gs_calls :: "notifyCall list"

definition finishCall ::
    "(bool \<times> goerror option) option \<Rightarrow> goerror option \<Rightarrow> gateSystem \<Rightarrow> gateSystem" where
  "finishCall sent r s =
     s\<lparr>gs_phase := Unlocked,
       gs_calls := gs_calls s @ [\<lparr>nc_late = gs_late s, nc_sent = sent, nc_result = r\<rparr>]\<rparr>"

inductive gate_step :: "gateSystem \<Rightarrow> gateSystem \<Rightarrow> bool" where
  notify_locks:
    "gs_phase s = Unlocked \<Longrightarrow>
     gate_step s (s\<lparr>gs_phase := Locked, gs_late := rg_detected (gs_gate s)\<rparr>)"
| notify_refused:
    "gs_phase s = Locked \<Longrightarrow> flagsRefuse (gs_gate s) \<Longrightarrow>
     gate_step s (finishCall None (Some fatalPreventsReadiness) s)"
| notify_passes:
    "gs_phase s = Locked \<Longrightarrow> \<not> flagsRefuse (gs_gate s) \<Longrightarrow>
     gate_step s (s\<lparr>gs_phase := Passed\<rparr>)"
| notify_unclaimed:
    "gs_phase s = Passed \<Longrightarrow> claimAttempt ctxErr (gs_gate s) = Inl r \<Longrightarrow>
     gate_step s (finishCall None r s)"
| notify_claims:
    "gs_phase s = Passed \<Longrightarrow> claimAttempt ctxErr (gs_gate s) = Inr gate \<Longrightarrow>
     gate_step s (s\<lparr>gs_gate := gate, gs_phase := Claimed\<rparr>)"
| notify_sends:
    "gs_phase s = Claimed \<Longrightarrow>
     gate_step s (s\<lparr>gs_phase := InSend, gs_sends := Suc (gs_sends s)\<rparr>)"
| send_returns:
    "gs_phase s = InSend \<Longrightarrow>
     gate_step s (s\<lparr>gs_phase := SendDone (rg_detected (gs_gate s)) sent\<rparr>)"
| notify_settles:
    "gs_phase s = SendDone d sent \<Longrightarrow>
     gate_step s (s\<lparr>gs_phase := Settled d sent (settleResult sent (gs_gate s))\<rparr>)"
| notify_returns:
    "gs_phase s = Settled d sent r \<Longrightarrow>
     gate_step s (finishCall (Some (d, sent)) r (s\<lparr>gs_gate := recordResult r (gs_gate s)\<rparr>))"
| fatal_detected:
    "gate_step s (s\<lparr>gs_gate := markDetected (gs_gate s), gs_marks := Suc (gs_marks s)\<rparr>)"
| fatal_marked:
    "gs_phase s = Unlocked \<Longrightarrow> 0 < gs_marks s \<Longrightarrow>
     gate_step s (s\<lparr>gs_gate := markFatal (gs_gate s), gs_marks := gs_marks s - 1\<rparr>)"

definition newGateSystem :: gateSystem where
  "newGateSystem =
     \<lparr>gs_gate = newReadinessGate, gs_phase = Unlocked, gs_late = False, gs_marks = 0, gs_sends = 0,
      gs_calls = []\<rparr>"

inductive gate_reachable :: "gateSystem \<Rightarrow> bool" where
  gate_new: "gate_reachable newGateSystem"
| gate_next: "gate_reachable s \<Longrightarrow> gate_step s t \<Longrightarrow> gate_reachable t"

text \<open>
  What a finished call can have done, given whether some call has sent with success: it is the
  conclusion of the property below, for one call.
\<close>

definition sent_well :: "notifyCall list \<Rightarrow> bool" where
  "sent_well cs \<longleftrightarrow> (\<exists>c\<in>set cs. nc_sent c = Some (False, None))"

definition call_ok :: "nat \<Rightarrow> bool \<Rightarrow> notifyCall \<Rightarrow> bool" where
  "call_ok sends well c \<longleftrightarrow>
     (nc_late c \<longrightarrow> nc_sent c = None \<and> nc_result c = Some fatalPreventsReadiness)
     \<and> (\<forall>sent. nc_sent c = Some (True, sent) \<longrightarrow> nc_result c = Some fatalPreventsReadiness)
     \<and> (nc_result c = None \<longrightarrow> sends = 1 \<and> well)"

definition calls_ok :: "nat \<Rightarrow> notifyCall list \<Rightarrow> bool" where
  "calls_ok sends cs \<longleftrightarrow> (\<forall>c\<in>set cs. call_ok sends (sent_well cs) c)"

lemma calls_ok_Nil [simp]: "calls_ok sends []"
  by (simp add: calls_ok_def)

lemma sent_well_snoc [simp]:
  "sent_well (cs @ [c]) \<longleftrightarrow> sent_well cs \<or> nc_sent c = Some (False, None)"
  by (auto simp: sent_well_def)

lemma calls_ok_snoc:
  "calls_ok sends cs \<Longrightarrow> call_ok sends (sent_well (cs @ [c])) c \<Longrightarrow> calls_ok sends (cs @ [c])"
  by (auto simp: calls_ok_def call_ok_def)

text \<open>Before the first send no call has returned nil.\<close>

lemma calls_ok_first: "calls_ok 0 cs \<Longrightarrow> calls_ok sends cs"
  by (auto simp: calls_ok_def call_ok_def)

definition phase_ok :: "notifyPhase \<Rightarrow> bool \<Rightarrow> readinessGate \<Rightarrow> bool \<Rightarrow> bool" where
  "phase_ok phase late gate well \<longleftrightarrow>
     (case phase of
        Unlocked \<Rightarrow> rg_attempted gate \<and> rg_result gate = None \<longrightarrow> well
      | Locked \<Rightarrow> (late \<longrightarrow> rg_detected gate) \<and> (rg_attempted gate \<and> rg_result gate = None \<longrightarrow> well)
      | Passed \<Rightarrow> \<not> late \<and> (rg_attempted gate \<and> rg_result gate = None \<longrightarrow> well)
      | Claimed \<Rightarrow> \<not> late \<and> rg_attempted gate
      | InSend \<Rightarrow> \<not> late \<and> rg_attempted gate
      | SendDone d sent \<Rightarrow> \<not> late \<and> rg_attempted gate \<and> (d \<longrightarrow> rg_detected gate)
      | Settled d sent r \<Rightarrow>
          \<not> late \<and> rg_attempted gate \<and> (d \<longrightarrow> r = Some fatalPreventsReadiness)
          \<and> (r = None \<longrightarrow> sent = None))"

definition gate_inv :: "gateSystem \<Rightarrow> bool" where
  "gate_inv s \<longleftrightarrow>
     (rg_fatal (gs_gate s) \<or> 0 < gs_marks s \<longrightarrow> rg_detected (gs_gate s))
     \<and> gs_sends s = of_bool (rg_attempted (gs_gate s) \<and> gs_phase s \<noteq> Claimed)
     \<and> phase_ok (gs_phase s) (gs_late s) (gs_gate s) (sent_well (gs_calls s))
     \<and> calls_ok (gs_sends s) (gs_calls s)"

lemma gate_inv_step:
  assumes "gate_inv s" "gate_step s t"
  shows "gate_inv t"
  using assms(2)
proof cases
  case notify_refused
  then show ?thesis using assms(1)
    by (auto simp: gate_inv_def phase_ok_def finishCall_def call_ok_def intro!: calls_ok_snoc)
next
  case (notify_unclaimed ctxErr r)
  then show ?thesis using assms(1)
    by (auto simp: gate_inv_def phase_ok_def finishCall_def call_ok_def claimAttempt_def
        intro!: calls_ok_snoc split: if_splits)
next
  case (notify_claims ctxErr gate)
  then show ?thesis using assms(1)
    by (auto simp: gate_inv_def phase_ok_def claimAttempt_def split: if_splits)
next
  case notify_sends
  then have "calls_ok 0 (gs_calls s)" using assms(1) by (auto simp: gate_inv_def)
  then have "calls_ok (Suc 0) (gs_calls s)" by (rule calls_ok_first)
  then show ?thesis using assms(1) notify_sends by (simp add: gate_inv_def phase_ok_def)
next
  case (notify_settles d sent)
  then show ?thesis using assms(1) by (auto simp: gate_inv_def phase_ok_def settleResult_def)
next
  case (notify_returns d sent r)
  then show ?thesis using assms(1)
    by (auto simp: gate_inv_def phase_ok_def finishCall_def call_ok_def recordResult_def
        intro!: calls_ok_snoc)
qed (use assms(1) in \<open>auto simp: gate_inv_def phase_ok_def flagsRefuse_def markDetected_def
       markFatal_def split: notifyPhase.splits\<close>)

lemma gate_invariant: "gate_reachable s \<Longrightarrow> gate_inv s"
proof (induction rule: gate_reachable.induct)
  case gate_new
  then show ?case by (simp add: gate_inv_def newGateSystem_def newReadinessGate_def phase_ok_def)
next
  case (gate_next s t)
  then show ?case using gate_inv_step by blast
qed

section \<open>Properties\<close>

text \<open>
  C20 (readiness_at_most_once): in every interleaving of calls of \<open>notify\<close> with fatal errors, readiness
  is sent at most once. A call that takes the mutex after a fatal error was detected sends nothing
  and fails; one whose \<open>send\<close> returns after a fatal error was detected fails too, although its
  notification may be out: the flag can be set between the check and the send. A call returns nil
  only when the one send was made, succeeded and returned with no fatal error detected.
\<close>

theorem readiness_at_most_once:
  assumes "gate_reachable s"
  shows "gs_sends s \<le> 1
    \<and> (gs_late s \<longrightarrow> gs_phase s = Unlocked \<or> gs_phase s = Locked)
    \<and> (\<forall>c\<in>set (gs_calls s).
         (nc_late c \<longrightarrow> nc_sent c = None \<and> nc_result c = Some fatalPreventsReadiness)
         \<and> (\<forall>sent. nc_sent c = Some (True, sent) \<longrightarrow> nc_result c = Some fatalPreventsReadiness)
         \<and> (nc_result c = None \<longrightarrow>
              gs_sends s = 1 \<and> (\<exists>c'\<in>set (gs_calls s). nc_sent c' = Some (False, None))))"
proof -
  note inv = gate_invariant [OF assms]
  have "gs_late s \<longrightarrow> gs_phase s = Unlocked \<or> gs_phase s = Locked"
    using inv by (cases "gs_phase s") (simp_all add: gate_inv_def phase_ok_def)
  moreover have "gs_sends s \<le> 1" using inv by (simp add: gate_inv_def)
  moreover have "\<forall>c\<in>set (gs_calls s). call_ok (gs_sends s) (sent_well (gs_calls s)) c"
    using inv unfolding gate_inv_def calls_ok_def by blast
  ultimately show ?thesis by (simp add: call_ok_def sent_well_def)
qed

text \<open>A call that sends with success, a fatal error, and a call after it.\<close>

definition example_gate :: gateSystem where
  "example_gate =
     \<lparr>gs_gate = \<lparr>rg_attempted = True, rg_ready = True, rg_fatal = False, rg_result = None,
                 rg_detected = True\<rparr>,
      gs_phase = Unlocked, gs_late = True, gs_marks = 1, gs_sends = 1,
      gs_calls =
        [\<lparr>nc_late = False, nc_sent = Some (False, None), nc_result = None\<rparr>,
         \<lparr>nc_late = True, nc_sent = None, nc_result = Some fatalPreventsReadiness\<rparr>]\<rparr>"

lemma example_gate_reachable: "gate_reachable example_gate"
proof -
  let ?s = "\<lambda>attempted phase sends.
    \<lparr>gs_gate = newReadinessGate\<lparr>rg_attempted := attempted\<rparr>, gs_phase = phase, gs_late = False,
     gs_marks = 0, gs_sends = sends, gs_calls = []\<rparr>"
  let ?first = "\<lparr>nc_late = False, nc_sent = Some (False, None), nc_result = None\<rparr>"
  let ?t = "\<lambda>detected phase late marks.
    \<lparr>gs_gate = newReadinessGate\<lparr>rg_attempted := True, rg_ready := True, rg_detected := detected\<rparr>,
     gs_phase = phase, gs_late = late, gs_marks = marks, gs_sends = 1, gs_calls = [?first]\<rparr>"
  have "gate_reachable (?s False Locked 0)"
    using gate_next [OF gate_new notify_locks] by (simp add: newGateSystem_def gate_defs)
  then have "gate_reachable (?s False Passed 0)"
    by (rule gate_next) (use notify_passes [of "?s False Locked 0"] in \<open>simp add: gate_defs\<close>)
  then have "gate_reachable (?s True Claimed 0)"
    by (rule gate_next)
      (use notify_claims [of "?s False Passed 0" None "newReadinessGate\<lparr>rg_attempted := True\<rparr>"]
        in \<open>simp add: gate_defs\<close>)
  then have "gate_reachable (?s True InSend 1)"
    by (rule gate_next) (use notify_sends [of "?s True Claimed 0"] in simp)
  then have "gate_reachable (?s True (SendDone False None) 1)"
    by (rule gate_next) (use send_returns [of "?s True InSend 1" None] in \<open>simp add: gate_defs\<close>)
  then have "gate_reachable (?s True (Settled False None None) 1)"
    by (rule gate_next)
      (use notify_settles [of "?s True (SendDone False None) 1" False None] in \<open>simp add: gate_defs\<close>)
  then have "gate_reachable (?t False Unlocked False 0)"
    by (rule gate_next)
      (use notify_returns [of "?s True (Settled False None None) 1" False None None]
        in \<open>simp add: gate_defs finishCall_def\<close>)
  then have "gate_reachable (?t True Unlocked False 1)"
    by (rule gate_next)
      (use fatal_detected [of "?t False Unlocked False 0"] in \<open>simp add: gate_defs\<close>)
  then have "gate_reachable (?t True Locked True 1)"
    by (rule gate_next) (use notify_locks [of "?t True Unlocked False 1"] in simp)
  then show ?thesis
    by (rule gate_next)
      (use notify_refused [of "?t True Locked True 1"]
        in \<open>simp add: gate_defs finishCall_def example_gate_def\<close>)
qed

theorem readiness_at_most_once_witness:
  "gs_sends example_gate = 1
   \<and> (\<exists>c\<in>set (gs_calls example_gate). nc_late c \<and> nc_sent c = None)
   \<and> (\<exists>c\<in>set (gs_calls example_gate). nc_result c = None \<and> nc_sent c = Some (False, None))"
proof -
  have calls: "gs_calls example_gate =
      [\<lparr>nc_late = False, nc_sent = Some (False, None), nc_result = None\<rparr>,
       \<lparr>nc_late = True, nc_sent = None, nc_result = Some fatalPreventsReadiness\<rparr>]"
    by (simp add: example_gate_def)
  show ?thesis
    using readiness_at_most_once [OF example_gate_reachable] unfolding calls by auto
qed

section \<open>The socket of the notification\<close>

lemma effectiveValueFrom_last:
  assumes "\<forall>e\<in>set later. fst (cut CHR ''='' e) \<noteq> key \<or> \<not> snd (snd (cut CHR ''='' e))"
    and "CHR ''='' \<notin> set key"
  shows "effectiveValueFrom v (earlier @ (key @ CHR ''='' # s) # later) key = s"
proof -
  have skip: "effectiveValueFrom w later key = w" for w
    using assms(1) by (induction later arbitrary: w) (auto split: prod.split)
  show ?thesis
    by (induction earlier arbitrary: v) (auto simp: skip cut_append assms(2) split: prod.split)
qed

text \<open>
  Readiness goes to the last \<open>NOTIFY_SOCKET\<close> entry of the environment that has a value, with a
  leading \<open>@\<close> turned into the NUL of an abstract address; it succeeds exactly when the socket is
  dialled, given its deadline and written the whole payload.
\<close>

lemma notifySystemdReady_last:
  assumes "\<forall>e\<in>set later. fst (cut CHR ''='' e) \<noteq> ''NOTIFY_SOCKET'' \<or> \<not> snd (snd (cut CHR ''='' e))"
    and "path \<noteq> []"
  shows "notifySystemdReady sock (earlier @ (''NOTIFY_SOCKET'' @ CHR ''='' # path) # later) = None
    \<longleftrightarrow> sk_dial sock (if hd path = CHR ''@'' then CHR 0x00 # tl path else path) = None
      \<and> sk_deadline sock 100000000 = None \<and> sk_write sock ''READY=1'' = Inr 7"
proof -
  have "systemdSocketAddress path = (if hd path = CHR ''@'' then CHR 0x00 # tl path else path)"
    using assms(2) by (cases path) (auto simp: systemdSocketAddress_def has_prefix_def trim_prefix_def)
  then show ?thesis
    using effectiveValueFrom_last [OF assms(1), of "[]" earlier path] assms(2)
    by (simp add: notifySystemdReady_def notifySystemdReadyWith_def effectiveEnvironmentValue_def
        systemdNotificationSocket_def readyPayload_def readinessWriteTimeout_def
        sendSystemdDatagram_def split: option.split sum.split)
qed

lemma notifySystemdReady_silent:
  "\<forall>e\<in>set environment. fst (cut CHR ''='' e) \<noteq> ''NOTIFY_SOCKET'' \<Longrightarrow>
     notifySystemdReady sock environment = None"
proof -
  assume none: "\<forall>e\<in>set environment. fst (cut CHR ''='' e) \<noteq> ''NOTIFY_SOCKET''"
  have "effectiveValueFrom v environment ''NOTIFY_SOCKET'' = v" for v
    using none by (induction environment arbitrary: v) (auto split: prod.split)
  then show ?thesis
    by (simp add: notifySystemdReady_def notifySystemdReadyWith_def effectiveEnvironmentValue_def
        systemdNotificationSocket_def)
qed

end
