(* ===== verification/Logger.thy ===== *)
theory Logger
  imports Config Degradation
begin

text \<open>
  \<open>internal/app/logger.go\<close>: one record per line, with the time, the severity and the message. The
  output is the list of the writes made on it, \<open>None\<close> for a nil writer; the clock is a function
  of the number of times it was read. The mutex makes every write atomic.
\<close>

section \<open>The logger\<close>

type_synonym logSeverity = u8

abbreviation (input) logInfo :: logSeverity where "logInfo \<equiv> 1"
abbreviation (input) logWarn :: logSeverity where "logWarn \<equiv> 2"
abbreviation (input) logError :: logSeverity where "logError \<equiv> 3"

record lineLogger =
  lg_output :: "string list option"
  lg_minimum :: logSeverity
  lg_clock :: "nat \<Rightarrow> gotime"
  lg_reads :: nat

definition newLineLoggerWith ::
    "string list option \<Rightarrow> LogLevel \<Rightarrow> (nat \<Rightarrow> gotime) \<Rightarrow> lineLogger" where
  "newLineLoggerWith output level clock =
     \<lparr>lg_output = output,
      lg_minimum = (case level of LogLevelWarn \<Rightarrow> logWarn | LogLevelError \<Rightarrow> logError | _ \<Rightarrow> logInfo),
      lg_clock = clock, lg_reads = 0\<rparr>"

text \<open>\<open>strings.ReplaceAll\<close> of one character by another.\<close>

definition replaceChar :: "char \<Rightarrow> char \<Rightarrow> string \<Rightarrow> string" where
  "replaceChar a b s = map (\<lambda>c. if c = a then b else c) s"

definition severityLabel :: "logSeverity \<Rightarrow> string" where
  "severityLabel severity =
     (if severity = logWarn then ''WARN'' else if severity = logError then ''ERROR'' else ''INFO'')"

definition writeAt :: "gotime \<Rightarrow> logSeverity \<Rightarrow> string \<Rightarrow> lineLogger \<Rightarrow> lineLogger" where
  "writeAt t severity message logger =
     (case lg_output logger of
        None \<Rightarrow> logger
      | Some output \<Rightarrow>
          if severity < lg_minimum logger then logger
          else
            (let message = replaceChar (CHR 0x0A) (CHR '' '') (trim_space message);
                 message = replaceChar (CHR 0x0D) (CHR '' '') message
             in logger\<lparr>lg_output := Some (output @
                  [format_rfc3339 t @ '' '' @ severityLabel severity @ '' '' @ message @ [CHR 0x0A]])\<rparr>))"

text \<open>A call that reads the clock first.\<close>

definition writeNow :: "logSeverity \<Rightarrow> string \<Rightarrow> lineLogger \<Rightarrow> lineLogger" where
  "writeNow severity message logger =
     writeAt (lg_clock logger (lg_reads logger)) severity message
       (logger\<lparr>lg_reads := Suc (lg_reads logger)\<rparr>)"

definition loggerInfo :: "string \<Rightarrow> lineLogger \<Rightarrow> lineLogger" where
  "loggerInfo message = writeNow logInfo message"

definition loggerWarn :: "string \<Rightarrow> lineLogger \<Rightarrow> lineLogger" where
  "loggerWarn message = writeNow logWarn message"

definition loggerError :: "string \<Rightarrow> lineLogger \<Rightarrow> lineLogger" where
  "loggerError message = writeNow logError message"

definition logDegradation :: "DegradationRecord \<Rightarrow> lineLogger \<Rightarrow> lineLogger" where
  "logDegradation r logger =
     (let severity = (if RecSeverity r = DegradationInfo then logInfo else logWarn);
          message = ''metric unavailable metric='' @ RecMetric r @ '' reason='' @ RecReason r;
          message = (if RecCleared r
                     then ''metric degradation cleared metric='' @ RecMetric r @ '' reason='' @ RecReason r
                     else message)
      in writeAt (RecAt r) severity message logger)"

text \<open>The writer that \<open>errorWriter\<close> gives to the HTTP server.\<close>

fun writeLines :: "logSeverity \<Rightarrow> string list \<Rightarrow> lineLogger \<Rightarrow> lineLogger" where
  "writeLines severity [] logger = logger"
| "writeLines severity (line # rest) logger =
     writeLines severity rest (if line \<noteq> [] then writeNow severity line logger else logger)"

definition lineLogWriterWrite :: "string \<Rightarrow> lineLogger \<Rightarrow> lineLogger \<times> nat go" where
  "lineLogWriterWrite data logger =
     (writeLines logError (split_on (CHR 0x0A) (trim_space data)) logger, Inr (length data))"

section \<open>Lines\<close>

text \<open>A record of the log: one line with its time, its severity and its message.\<close>

definition plain :: "string \<Rightarrow> bool" where
  "plain s \<longleftrightarrow> CHR 0x0A \<notin> set s \<and> CHR 0x0D \<notin> set s"

definition log_record :: "string \<Rightarrow> bool" where
  "log_record l \<longleftrightarrow>
     (\<exists>t severity message. l = t @ '' '' @ severity @ '' '' @ message @ [CHR 0x0A]
        \<and> severity \<in> {''INFO'', ''WARN'', ''ERROR''} \<and> plain t \<and> CHR '' '' \<notin> set t \<and> plain message)"

lemma plain_simps [simp]:
  "plain []" "plain (s @ t) \<longleftrightarrow> plain s \<and> plain t"
  "plain (c # s) \<longleftrightarrow> c \<noteq> CHR 0x0A \<and> c \<noteq> CHR 0x0D \<and> plain s"
  by (auto simp: plain_def)

lemma digits_no_blank:
  assumes "list_all is_digit s"
  shows "plain s \<and> CHR '' '' \<notin> set s"
  using assms by (auto simp: plain_def list_all_iff is_digit_def)

lemma list_all_pad: "list_all is_digit (pad w n)"
  by (auto simp: pad_def list_all_iff dec_digits)

lemma pad_int_plain: "plain (pad_int w n) \<and> CHR '' '' \<notin> set (pad_int w n)"
  using digits_no_blank [OF list_all_pad] by (simp add: pad_int_def)

lemma format_rfc3339_plain: "plain (format_rfc3339 t) \<and> CHR '' '' \<notin> set (format_rfc3339 t)"
  using pad_int_plain digits_no_blank [OF list_all_trim_zeros [OF list_all_pad]]
  by (simp add: format_rfc3339_def Let_def split: prod.split)

lemma replaceChar_not_mem: "a \<noteq> b \<Longrightarrow> a \<notin> set (replaceChar a b s)"
  by (induction s) (auto simp: replaceChar_def)

lemma replaceChar_keeps: "c \<notin> set s \<Longrightarrow> c \<noteq> b \<Longrightarrow> c \<notin> set (replaceChar a b s)"
  by (induction s) (auto simp: replaceChar_def)

definition clean :: "string \<Rightarrow> string" where
  "clean message =
     replaceChar (CHR 0x0D) (CHR '' '') (replaceChar (CHR 0x0A) (CHR '' '') (trim_space message))"

lemma clean_plain: "plain (clean message)"
proof -
  let ?m = "replaceChar (CHR 0x0A) (CHR '' '') (trim_space message)"
  have "CHR 0x0A \<notin> set ?m" by (rule replaceChar_not_mem) simp
  then have "CHR 0x0A \<notin> set (clean message)"
    unfolding clean_def by (rule replaceChar_keeps) simp
  moreover have "CHR 0x0D \<notin> set (clean message)"
    unfolding clean_def by (rule replaceChar_not_mem) simp
  ultimately show ?thesis by (simp add: plain_def)
qed

section \<open>The log as a list of entries\<close>

text \<open>
  An entry is a time, a severity and a message; the specification of the log is the list of the
  entries at or above the logger's minimum, each rendered as one line.
\<close>

type_synonym logEntry = "gotime \<times> logSeverity \<times> string"

definition entry_line :: "logEntry \<Rightarrow> string" where
  "entry_line entry =
     (case entry of (t, severity, message) \<Rightarrow>
        format_rfc3339 t @ '' '' @ severityLabel severity @ '' '' @ clean message @ [CHR 0x0A])"

lemma entry_line_record: "log_record (entry_line entry)"
proof -
  obtain t severity message where e: "entry = (t, severity, message)" by (cases entry) auto
  have "severityLabel severity \<in> {''INFO'', ''WARN'', ''ERROR''}" by (simp add: severityLabel_def)
  then show ?thesis unfolding log_record_def e entry_line_def
    using format_rfc3339_plain [of t] clean_plain [of message] by auto
qed

lemma entry_line_plain: "\<exists>l. entry_line entry = l @ [CHR 0x0A] \<and> CHR 0x0A \<notin> set l"
proof -
  obtain t severity message where e: "entry = (t, severity, message)" by (cases entry) auto
  have "CHR 0x0A \<notin> set (severityLabel severity)" by (simp add: severityLabel_def)
  then show ?thesis unfolding e entry_line_def
    using format_rfc3339_plain [of t] clean_plain [of message]
    by (auto simp: plain_def intro!: exI [of _
        "format_rfc3339 t @ '' '' @ severityLabel severity @ '' '' @ clean message"])
qed

datatype logCall =
    CallInfo string | CallWarn string | CallError string
  | CallDegradation DegradationRecord | CallWrite string

fun logCallRun :: "logCall \<Rightarrow> lineLogger \<Rightarrow> lineLogger" where
  "logCallRun (CallInfo m) logger = loggerInfo m logger"
| "logCallRun (CallWarn m) logger = loggerWarn m logger"
| "logCallRun (CallError m) logger = loggerError m logger"
| "logCallRun (CallDegradation r) logger = logDegradation r logger"
| "logCallRun (CallWrite data) logger = fst (lineLogWriterWrite data logger)"

text \<open>The entries of a call, and how often it reads the clock.\<close>

fun now_entries :: "(nat \<Rightarrow> gotime) \<Rightarrow> nat \<Rightarrow> logSeverity \<Rightarrow> string list \<Rightarrow> logEntry list" where
  "now_entries clock n severity [] = []"
| "now_entries clock n severity (m # ms) =
     (clock n, severity, m) # now_entries clock (Suc n) severity ms"

fun call_messages :: "logCall \<Rightarrow> string list" where
  "call_messages (CallInfo m) = [m]"
| "call_messages (CallWarn m) = [m]"
| "call_messages (CallError m) = [m]"
| "call_messages (CallDegradation r) = []"
| "call_messages (CallWrite data) = filter (\<lambda>l. l \<noteq> []) (split_on (CHR 0x0A) (trim_space data))"

fun call_entries :: "(nat \<Rightarrow> gotime) \<Rightarrow> nat \<Rightarrow> logCall \<Rightarrow> logEntry list" where
  "call_entries clock n (CallInfo m) = [(clock n, logInfo, m)]"
| "call_entries clock n (CallWarn m) = [(clock n, logWarn, m)]"
| "call_entries clock n (CallError m) = [(clock n, logError, m)]"
| "call_entries clock n (CallDegradation r) =
     [(RecAt r, if RecSeverity r = DegradationInfo then logInfo else logWarn,
       (if RecCleared r then ''metric degradation cleared metric='' else ''metric unavailable metric='')
         @ RecMetric r @ '' reason='' @ RecReason r)]"
| "call_entries clock n (CallWrite data) = now_entries clock n logError (call_messages (CallWrite data))"

fun log_entries :: "(nat \<Rightarrow> gotime) \<Rightarrow> nat \<Rightarrow> logCall list \<Rightarrow> logEntry list" where
  "log_entries clock n [] = []"
| "log_entries clock n (c # cs) =
     call_entries clock n c @ log_entries clock (n + length (call_messages c)) cs"

definition written :: "logSeverity \<Rightarrow> logEntry list \<Rightarrow> string list" where
  "written minimum entries = map entry_line (filter (\<lambda>(t, severity, m). minimum \<le> severity) entries)"

lemma written_append [simp]: "written m (xs @ ys) = written m xs @ written m ys"
  by (simp add: written_def)

text \<open>How a call advances a logger: its reads and the lines it adds.\<close>

definition advances :: "lineLogger \<Rightarrow> nat \<Rightarrow> logEntry list \<Rightarrow> lineLogger \<Rightarrow> bool" where
  "advances logger k entries logger' \<longleftrightarrow>
     lg_minimum logger' = lg_minimum logger \<and> lg_clock logger' = lg_clock logger
     \<and> lg_reads logger' = lg_reads logger + k
     \<and> lg_output logger' = map_option (\<lambda>out. out @ written (lg_minimum logger) entries) (lg_output logger)"

lemma advances_none [simp]: "advances logger 0 [] logger"
  by (cases "lg_output logger") (simp_all add: advances_def written_def)

lemma advances_trans:
  "advances l j xs l' \<Longrightarrow> advances l' k ys l'' \<Longrightarrow> advances l (j + k) (xs @ ys) l''"
  by (cases "lg_output l") (auto simp: advances_def)

lemma writeAt_advances: "advances logger 0 [(t, severity, message)] (writeAt t severity message logger)"
  by (auto simp: advances_def writeAt_def written_def entry_line_def clean_def Let_def not_le not_less
      split: option.split)

lemma writeNow_advances:
  "advances logger 1 [(lg_clock logger (lg_reads logger), severity, message)] (writeNow severity message logger)"
proof -
  have "advances logger 1 [] (logger\<lparr>lg_reads := Suc (lg_reads logger)\<rparr>)"
    by (cases "lg_output logger") (simp_all add: advances_def written_def)
  from advances_trans [OF this writeAt_advances] show ?thesis by (simp add: writeNow_def)
qed

lemma advances_clock: "advances l k xs l' \<Longrightarrow> lg_clock l' = lg_clock l \<and> lg_reads l' = lg_reads l + k"
  by (simp add: advances_def)

lemma writeLines_advances:
  "advances logger (length (filter (\<lambda>l. l \<noteq> []) ls))
     (now_entries (lg_clock logger) (lg_reads logger) severity (filter (\<lambda>l. l \<noteq> []) ls))
     (writeLines severity ls logger)"
proof (induction ls arbitrary: logger)
  case (Cons l ls)
  show ?case
  proof (cases "l = []")
    case True
    then show ?thesis using Cons.IH by simp
  next
    case False
    let ?next = "writeNow severity l logger"
    note first = writeNow_advances [of logger severity l]
    have "advances logger (1 + length (filter (\<lambda>l. l \<noteq> []) ls))
      ([(lg_clock logger (lg_reads logger), severity, l)]
        @ now_entries (lg_clock ?next) (lg_reads ?next) severity (filter (\<lambda>l. l \<noteq> []) ls))
      (writeLines severity ls ?next)"
      by (rule advances_trans [OF first Cons.IH])
    then show ?thesis using False advances_clock [OF first] by simp
  qed
qed simp

lemma logCallRun_advances:
  "advances logger (length (call_messages c)) (call_entries (lg_clock logger) (lg_reads logger) c)
     (logCallRun c logger)"
proof (cases c)
  case (CallDegradation r)
  then show ?thesis using writeAt_advances [of logger "RecAt r"]
    by (auto simp: logDegradation_def Let_def)
next
  case (CallWrite data)
  then show ?thesis using writeLines_advances by (simp add: lineLogWriterWrite_def)
qed (simp_all add: loggerInfo_def loggerWarn_def loggerError_def writeNow_advances [simplified])

fun logCallsRun :: "logCall list \<Rightarrow> lineLogger \<Rightarrow> lineLogger" where
  "logCallsRun [] logger = logger"
| "logCallsRun (c # cs) logger = logCallsRun cs (logCallRun c logger)"

lemma logCallsRun_append [simp]: "logCallsRun (xs @ ys) logger = logCallsRun ys (logCallsRun xs logger)"
  by (induction xs arbitrary: logger) simp_all

lemma logCallsRun_advances:
  "\<exists>k. advances logger k (log_entries (lg_clock logger) (lg_reads logger) cs) (logCallsRun cs logger)"
proof (induction cs arbitrary: logger)
  case Nil
  show ?case using advances_none [of logger] by (intro exI [of _ 0]) simp
next
  case (Cons c cs)
  note first = logCallRun_advances [of logger c]
  obtain k where "advances (logCallRun c logger) k
      (log_entries (lg_clock (logCallRun c logger)) (lg_reads (logCallRun c logger)) cs)
      (logCallsRun cs (logCallRun c logger))"
    using Cons.IH by blast
  from advances_trans [OF first this] show ?case using advances_clock [OF first] by auto
qed

text \<open>An error record reaches the output at every level, whatever else is written.\<close>

lemma error_entry:
  "CallError m \<in> set calls \<Longrightarrow> \<exists>t. (t, logError, m) \<in> set (log_entries clock n calls)"
proof (induction calls arbitrary: n)
  case (Cons c calls)
  then show ?case by (cases "c = CallError m") auto
qed simp

lemma error_written:
  assumes "CallError m \<in> set calls"
  shows "\<exists>lines t. lg_output (logCallsRun calls (newLineLoggerWith (Some []) level clock)) = Some lines
    \<and> entry_line (t, logError, m) \<in> set lines"
proof -
  let ?new = "newLineLoggerWith (Some []) level clock"
  have new: "lg_clock ?new = clock" "lg_reads ?new = 0" "lg_output ?new = Some []"
    by (simp_all add: newLineLoggerWith_def)
  obtain t where t: "(t, logError, m) \<in> set (log_entries clock 0 calls)"
    using error_entry [OF assms] by blast
  have "lg_minimum ?new \<le> logError" by (cases level) (simp_all add: newLineLoggerWith_def)
  with t have "entry_line (t, logError, m) \<in> set (written (lg_minimum ?new) (log_entries clock 0 calls))"
    by (force simp: written_def)
  moreover have "lg_output (logCallsRun calls ?new)
      = Some (written (lg_minimum ?new) (log_entries clock 0 calls))"
    using logCallsRun_advances [of ?new calls] new by (auto simp: advances_def)
  ultimately show ?thesis by blast
qed

lemma split_on_records:
  "split_on (CHR 0x0A) (concat (map entry_line es)) = map (\<lambda>e. butlast (entry_line e)) es @ [[]]"
proof (induction es)
  case (Cons e es)
  obtain l where "entry_line e = l @ [CHR 0x0A]" "CHR 0x0A \<notin> set l"
    using entry_line_plain [of e] by blast
  then show ?case using Cons split_on_append [of "CHR 0x0A" l] by simp
qed simp

section \<open>Properties\<close>

fun level_minimum :: "LogLevel \<Rightarrow> logSeverity" where
  "level_minimum LogLevelDebug = logInfo"
| "level_minimum LogLevelInfo = logInfo"
| "level_minimum LogLevelWarn = logWarn"
| "level_minimum LogLevelError = logError"

text \<open>
  Whatever calls are made on a new logger, what it wrote is the list of
  their entries at or above the configured level, in order, one line for each: nothing at or above
  the level is lost, nothing below it is written, and a less verbose level only removes lines.
\<close>

theorem log_refines_entries:
  shows "lg_output (logCallsRun calls (newLineLoggerWith (Some []) level clock)) =
    Some (map entry_line
      (filter (\<lambda>(t, severity, m). level_minimum level \<le> severity) (log_entries clock 0 calls)))"
proof -
  let ?new = "newLineLoggerWith (Some []) level clock"
  have minimum: "lg_minimum ?new = level_minimum level"
    by (cases level) (simp_all add: newLineLoggerWith_def)
  obtain k where "advances ?new k (log_entries (lg_clock ?new) (lg_reads ?new) calls) (logCallsRun calls ?new)"
    using logCallsRun_advances by blast
  then show ?thesis
    unfolding advances_def written_def minimum by (simp add: newLineLoggerWith_def)
qed

text \<open>
  C36 (log_one_record_per_line): no message, from wherever it comes, can forge a record. Every write is
  one line of time, severity and message, and splitting the whole output at its newlines gives
  back exactly the records written.
\<close>

theorem log_one_record_per_line:
  shows "case lg_output (logCallsRun calls (newLineLoggerWith (Some []) level clock)) of
      None \<Rightarrow> False
    | Some out \<Rightarrow> list_all log_record out
        \<and> split_on (CHR 0x0A) (concat out) = map butlast out @ [[]]"
proof -
  obtain es where "lg_output (logCallsRun calls (newLineLoggerWith (Some []) level clock)) =
      Some (map entry_line es)"
    using logCallsRun_advances [of "newLineLoggerWith (Some []) level clock" calls]
    by (auto simp: advances_def written_def newLineLoggerWith_def)
  then show ?thesis by (simp add: split_on_records entry_line_record list_all_iff del: split_on.simps)
qed

end
