(* ===== verification/FirmwareExecutor.thy ===== *)
theory FirmwareExecutor
  imports RaspberryPi FirmwareProtocol
begin

text \<open>
  \<open>internal/observe/firmware_executor.go\<close>: the executor that runs at most one firmware
  transaction at a time and admits no queue. Its operations are the sections of the code between
  two blocking points; a step relation interleaves the callers of \<open>Observe\<close>, the worker and
  \<open>Close\<close>. A cycle token is a number and a request is the number of its admission.
\<close>

section \<open>State\<close>

type_synonym firmwareResult = "nat \<times> firmwareHealth outcome"

text \<open>A request with the contents of its result channel, which has room for one result.\<close>

record firmwareRequest =
  rq_token :: nat
  rq_result :: "firmwareResult option"

text \<open>
  The worker between two sections: waiting in its outer \<open>select\<close>, inside the transaction of a
  request, with the result sent and the slot not yet released, or in its deferred function after
  a panic (before sending the defect, then before notifying).
\<close>

datatype firmwareWorker =
    Unstarted | Selecting | Transacting nat | Delivered nat
  | Panicking nat goerror | Notifying goerror | Stopped

record FirmwareExecutor =
  fe_started :: bool
  fe_stopping :: bool
  fe_busy :: bool
  fe_failed :: "goerror option"
  fe_stop :: bool
  fe_done :: bool
  fe_sending :: "nat list"
  fe_channel :: "nat list"
  fe_requests :: "nat \<rightharpoonup> firmwareRequest"
  fe_next :: nat
  fe_worker :: firmwareWorker
  fe_fatal :: "goerror list"

definition newFirmwareExecutor :: FirmwareExecutor where
  "newFirmwareExecutor =
     \<lparr>fe_started = False, fe_stopping = False, fe_busy = False, fe_failed = None, fe_stop = False,
      fe_done = False, fe_sending = [], fe_channel = [], fe_requests = Map.empty, fe_next = 0,
      fe_worker = Unstarted, fe_fatal = []\<rparr>"

section \<open>Operations of the callers\<close>

definition StartFirmware :: "FirmwareExecutor \<Rightarrow> FirmwareExecutor \<times> goerror option" where
  "StartFirmware fe =
     (if fe_started fe \<or> fe_stopping fe \<or> fe_failed fe \<noteq> None
      then (fe, Some (New ''firmware executor cannot be started''))
      else (fe\<lparr>fe_started := True, fe_worker := Selecting\<rparr>, None))"

definition ReadyFirmware :: "FirmwareExecutor \<Rightarrow> goerror option" where
  "ReadyFirmware fe =
     (if \<not> fe_started fe \<or> fe_stopping fe \<or> fe_busy fe \<or> fe_failed fe \<noteq> None
      then Some (New ''firmware executor is not ready'') else None)"

text \<open>
  \<open>Observe\<close> up to its send: an answer at once, or the admitted request. A nil context or token
  is \<open>None\<close>.
\<close>

definition admitObservation ::
    "nat option \<Rightarrow> FirmwareExecutor \<Rightarrow> FirmwareExecutor \<times> (firmwareHealth outcome + nat)" where
  "admitObservation token fe =
     (case token of
        None \<Rightarrow>
          (fe, Inl (defect (Some (New ''firmware observation requires a context and cycle identity''))))
      | Some t \<Rightarrow>
          (case fe_failed fe of
             Some failed \<Rightarrow> (fe, Inl (defect (Some failed)))
           | None \<Rightarrow>
               if \<not> fe_started fe \<or> fe_stopping fe
               then (fe, Inl (defect (Some (New ''firmware executor is not running''))))
               else if fe_busy fe
               then (fe, Inl (unavailable reasonTemporarilyUnavailable
                               (Some (New ''firmware executor is busy''))))
               else (fe\<lparr>fe_busy := True, fe_sending := fe_next fe # fe_sending fe,
                        fe_requests := (fe_requests fe)(fe_next fe \<mapsto>
                          \<lparr>rq_token = t, rq_result = None\<rparr>),
                        fe_next := Suc (fe_next fe)\<rparr>, Inr (fe_next fe))))"

text \<open>The send on the channel of requests, which has room for one.\<close>

definition sendRequest :: "nat \<Rightarrow> FirmwareExecutor \<Rightarrow> FirmwareExecutor option" where
  "sendRequest i fe =
     (if length (fe_channel fe) < 1
      then Some (fe\<lparr>fe_sending := remove1 i (fe_sending fe), fe_channel := fe_channel fe @ [i]\<rparr>)
      else None)"

text \<open>
  The final \<open>select\<close> of \<open>Observe\<close>, with the error of its context when that case is chosen;
  \<open>None\<close> while it blocks.
\<close>

definition awaitObservation ::
    "nat \<Rightarrow> nat \<Rightarrow> goerror option \<Rightarrow> FirmwareExecutor \<Rightarrow> firmwareHealth outcome option" where
  "awaitObservation token i ctxDone fe =
     (case ctxDone of
        Some e \<Rightarrow> Some (unavailable reasonTemporarilyUnavailable (Some e))
      | None \<Rightarrow>
          (case fe_requests fe i of
             None \<Rightarrow> None
           | Some request \<Rightarrow>
               (case rq_result request of
                  None \<Rightarrow> None
                | Some (t, result) \<Rightarrow>
                    Some (if t \<noteq> token
                          then defect (Some (New ''firmware result has the wrong cycle identity''))
                          else result))))"

text \<open>\<open>Close\<close> up to its wait; the boolean is whether it waits for the worker.\<close>

definition CloseFirmware :: "bool \<Rightarrow> FirmwareExecutor \<Rightarrow> FirmwareExecutor \<times> (goerror option \<times> bool)" where
  "CloseFirmware ctxNil fe =
     (if ctxNil then (fe, Some (New ''firmware executor close context is nil''), False)
      else if \<not> fe_started fe then (fe, None, False)
      else (fe\<lparr>fe_stopping := True, fe_stop := True\<rparr>, None, True))"

section \<open>Operations of the worker\<close>

definition transactionOutcome :: "u32 go \<Rightarrow> firmwareHealth outcome" where
  "transactionOutcome r =
     (case r of
        Inl e \<Rightarrow> acquisitionFailure (Some e) reasonUnsupported
      | Inr m \<Rightarrow> present (firmwareHealthFromMask m))"

text \<open>A send on a result channel with room for one; the worker's \<open>select\<close> has a default.\<close>

definition sendResult :: "nat \<Rightarrow> firmwareHealth outcome \<Rightarrow> FirmwareExecutor \<Rightarrow> FirmwareExecutor" where
  "sendResult i result fe =
     (case fe_requests fe i of
        None \<Rightarrow> fe
      | Some request \<Rightarrow>
          (case rq_result request of
             None \<Rightarrow> fe\<lparr>fe_requests := (fe_requests fe)(i \<mapsto>
                       request\<lparr>rq_result := Some (rq_token request, result)\<rparr>)\<rparr>
           | Some r \<Rightarrow> fe))"

definition receiveRequest :: "FirmwareExecutor \<Rightarrow> FirmwareExecutor" where
  "receiveRequest fe =
     (case fe_channel fe of
        [] \<Rightarrow> fe
      | i # rest \<Rightarrow> fe\<lparr>fe_channel := rest, fe_worker := Transacting i\<rparr>)"

definition stopWorker :: "FirmwareExecutor \<Rightarrow> FirmwareExecutor" where
  "stopWorker fe = fe\<lparr>fe_worker := Stopped, fe_done := True\<rparr>"

text \<open>The end of \<open>GetThrottled\<close>: its result is sent, or its panic recovered.\<close>

definition endTransaction :: "nat \<Rightarrow> (u32 go) call \<Rightarrow> FirmwareExecutor \<Rightarrow> FirmwareExecutor" where
  "endTransaction i answer fe =
     (case answer of
        Return r \<Rightarrow> sendResult i (transactionOutcome r) fe\<lparr>fe_worker := Delivered i\<rparr>
      | Panic e \<Rightarrow>
          (let err = internalDefect (Some (Formatv ''firmware executor panic: %v'' e))
           in fe\<lparr>fe_failed := Some err, fe_worker := Panicking i err\<rparr>))"

definition releaseSlot :: "FirmwareExecutor \<Rightarrow> FirmwareExecutor" where
  "releaseSlot fe = fe\<lparr>fe_busy := False, fe_worker := Selecting\<rparr>"

definition sendDefect :: "nat \<Rightarrow> goerror \<Rightarrow> FirmwareExecutor \<Rightarrow> FirmwareExecutor" where
  "sendDefect i err fe = sendResult i (defect (Some err)) fe\<lparr>fe_worker := Notifying err\<rparr>"

definition notifyWorkerFatal :: "goerror \<Rightarrow> FirmwareExecutor \<Rightarrow> FirmwareExecutor" where
  "notifyWorkerFatal err fe =
     fe\<lparr>fe_fatal := fe_fatal fe @ [err], fe_worker := Stopped, fe_done := True\<rparr>"

section \<open>Interleaving\<close>

text \<open>
  \<open>yields i answer\<close>: the transaction run for the request of number i can end with that answer. Each
  request has its own transaction, at its own time, so the answers of two requests are unrelated.
\<close>

inductive firmware_step ::
    "(nat \<Rightarrow> (u32 go) call \<Rightarrow> bool) \<Rightarrow> FirmwareExecutor \<Rightarrow> FirmwareExecutor \<Rightarrow> bool" for yields where
  start: "firmware_step yields fe (fst (StartFirmware fe))"
| admit: "firmware_step yields fe (fst (admitObservation token fe))"
| send: "i \<in> set (fe_sending fe) \<Longrightarrow> sendRequest i fe = Some fe' \<Longrightarrow> firmware_step yields fe fe'"
| close: "firmware_step yields fe (fst (CloseFirmware ctxNil fe))"
| receive: "fe_worker fe = Selecting \<Longrightarrow> fe_channel fe \<noteq> [] \<Longrightarrow>
    firmware_step yields fe (receiveRequest fe)"
| stop: "fe_worker fe = Selecting \<Longrightarrow> fe_stop fe \<Longrightarrow> firmware_step yields fe (stopWorker fe)"
| transacted: "fe_worker fe = Transacting i \<Longrightarrow> yields i answer \<Longrightarrow>
    firmware_step yields fe (endTransaction i answer fe)"
| release: "fe_worker fe = Delivered i \<Longrightarrow> firmware_step yields fe (releaseSlot fe)"
| panicked: "fe_worker fe = Panicking i err \<Longrightarrow> firmware_step yields fe (sendDefect i err fe)"
| notified: "fe_worker fe = Notifying err \<Longrightarrow> firmware_step yields fe (notifyWorkerFatal err fe)"

inductive firmware_reachable :: "(nat \<Rightarrow> (u32 go) call \<Rightarrow> bool) \<Rightarrow> FirmwareExecutor \<Rightarrow> bool" for yields where
  initial: "firmware_reachable yields newFirmwareExecutor"
| step: "firmware_reachable yields fe \<Longrightarrow> firmware_step yields fe fe' \<Longrightarrow>
    firmware_reachable yields fe'"

section \<open>The slot\<close>

text \<open>The requests between their admission and the release of the slot.\<close>

fun worker_holds :: "firmwareWorker \<Rightarrow> nat list" where
  "worker_holds (Transacting i) = [i]"
| "worker_holds (Delivered i) = [i]"
| "worker_holds (Panicking i e) = [i]"
| "worker_holds _ = []"

definition holders :: "FirmwareExecutor \<Rightarrow> nat list" where
  "holders fe = fe_sending fe @ fe_channel fe @ worker_holds (fe_worker fe)"

fun worker_failure :: "firmwareWorker \<Rightarrow> goerror option" where
  "worker_failure (Panicking i e) = Some e"
| "worker_failure (Notifying e) = Some e"
| "worker_failure _ = None"

definition slot_inv :: "FirmwareExecutor \<Rightarrow> bool" where
  "slot_inv fe \<longleftrightarrow>
     length (holders fe) \<le> 1 \<and> (holders fe \<noteq> [] \<longrightarrow> fe_busy fe)
     \<and> (fe_worker fe = Unstarted \<longleftrightarrow> \<not> fe_started fe) \<and> (fe_busy fe \<longrightarrow> fe_started fe)
     \<and> (\<forall>i\<in>set (holders fe). fe_requests fe i \<noteq> None)
     \<and> (\<forall>i. fe_next fe \<le> i \<longrightarrow> fe_requests fe i = None)
     \<and> (\<forall>i\<in>set (holders fe). fe_worker fe \<noteq> Delivered i \<longrightarrow>
          rq_result (the (fe_requests fe i)) = None)"

definition result_ok ::
    "(nat \<Rightarrow> (u32 go) call \<Rightarrow> bool) \<Rightarrow> goerror option \<Rightarrow> nat \<Rightarrow> firmwareHealth outcome \<Rightarrow> bool" where
  "result_ok yields failed i v \<longleftrightarrow>
     (\<exists>r. yields i (Return r) \<and> v = transactionOutcome r) \<or> (\<exists>e. failed = Some e \<and> v = defect (Some e))"

definition results_ok ::
    "(nat \<Rightarrow> (u32 go) call \<Rightarrow> bool) \<Rightarrow> goerror option \<Rightarrow> (nat \<rightharpoonup> firmwareRequest) \<Rightarrow> bool" where
  "results_ok yields failed requests \<longleftrightarrow>
     (\<forall>i request t v. requests i = Some request \<and> rq_result request = Some (t, v) \<longrightarrow>
        t = rq_token request \<and> result_ok yields failed i v)"

definition answers_inv :: "(nat \<Rightarrow> (u32 go) call \<Rightarrow> bool) \<Rightarrow> FirmwareExecutor \<Rightarrow> bool" where
  "answers_inv yields fe \<longleftrightarrow>
     results_ok yields (fe_failed fe) (fe_requests fe)
     \<and> (fe_failed fe \<noteq> None \<longrightarrow>
          fe_worker fe = Stopped \<or> worker_failure (fe_worker fe) = fe_failed fe)
     \<and> (worker_failure (fe_worker fe) \<noteq> None \<longrightarrow> fe_failed fe = worker_failure (fe_worker fe))
     \<and> (fe_failed fe \<noteq> None \<longrightarrow> (\<exists>i e. yields i (Panic e)))
     \<and> (fe_fatal fe \<noteq> [] \<longrightarrow> fe_worker fe = Stopped \<and> fe_fatal fe = [the (fe_failed fe)] \<and> fe_failed fe \<noteq> None)
     \<and> (\<forall>e. fe_failed fe = Some e \<longrightarrow> isInternalDefect e)"

lemma new_slot_inv: "slot_inv newFirmwareExecutor"
  by (simp add: slot_inv_def newFirmwareExecutor_def holders_def)

lemma new_answers_inv: "answers_inv yields newFirmwareExecutor"
  by (simp add: answers_inv_def results_ok_def newFirmwareExecutor_def)

lemma sendResult_simps [simp]:
  "fe_sending (sendResult i v fe) = fe_sending fe" "fe_channel (sendResult i v fe) = fe_channel fe"
  "fe_worker (sendResult i v fe) = fe_worker fe" "fe_busy (sendResult i v fe) = fe_busy fe"
  "fe_started (sendResult i v fe) = fe_started fe" "fe_next (sendResult i v fe) = fe_next fe"
  "fe_failed (sendResult i v fe) = fe_failed fe" "fe_fatal (sendResult i v fe) = fe_fatal fe"
  "fe_requests (sendResult i v fe) j = None \<longleftrightarrow> fe_requests fe j = None"
  "j \<noteq> i \<Longrightarrow> fe_requests (sendResult i v fe) j = fe_requests fe j"
  by (auto simp: sendResult_def split: option.splits)

lemma single_holder:
  "length (xs @ ys @ zs) \<le> 1 \<Longrightarrow> i \<in> set xs \<Longrightarrow> xs = [i] \<and> ys = [] \<and> zs = []"
  by (cases xs) auto

lemma slot_step:
  assumes "firmware_step yields fe fe'" "slot_inv fe"
  shows "slot_inv fe'"
  using assms(1)
proof (cases rule: firmware_step.cases)
  case start
  then show ?thesis
    using assms(2) by (auto simp: StartFirmware_def slot_inv_def holders_def)
next
  case (admit token)
  show ?thesis
  proof (cases "fe' = fe")
    case False
    then obtain t where a: "token = Some t" "\<not> fe_busy fe" "fe_started fe"
      using admit by (auto simp: admitObservation_def split: option.splits if_splits)
    then have "holders fe = []" using assms(2) by (auto simp: slot_inv_def)
    then have "fe_sending fe = []" "fe_channel fe = []" "worker_holds (fe_worker fe) = []"
      by (simp_all add: holders_def)
    then show ?thesis
      using admit a False assms(2)
      by (auto simp: admitObservation_def slot_inv_def holders_def split: option.splits if_splits)
  qed (use assms(2) in simp)
next
  case (send i)
  have "fe_sending fe = [i] \<and> fe_channel fe = [] \<and> worker_holds (fe_worker fe) = []"
    using assms(2) send(1) unfolding slot_inv_def holders_def by (intro single_holder) simp_all
  then show ?thesis
    using send assms(2) by (auto simp: sendRequest_def slot_inv_def holders_def)
next
  case (close ctxNil)
  then show ?thesis using assms(2) by (auto simp: CloseFirmware_def slot_inv_def holders_def)
next
  case receive
  then show ?thesis
    using assms(2)
    by (cases "fe_channel fe") (auto simp: receiveRequest_def slot_inv_def holders_def)
next
  case stop
  then show ?thesis using assms(2) by (auto simp: stopWorker_def slot_inv_def holders_def)
next
  case (transacted i answer)
  then have "fe_sending fe = []" "fe_channel fe = []"
    using assms(2) by (auto simp: slot_inv_def holders_def)
  then show ?thesis
    using transacted assms(2)
    by (cases answer) (auto simp: endTransaction_def Let_def slot_inv_def holders_def)
next
  case (release i)
  then have "fe_sending fe = []" "fe_channel fe = []"
    using assms(2) by (auto simp: slot_inv_def holders_def)
  then show ?thesis
    using release assms(2) by (auto simp: releaseSlot_def slot_inv_def holders_def)
next
  case (panicked i err)
  then have "fe_sending fe = []" "fe_channel fe = []"
    using assms(2) by (auto simp: slot_inv_def holders_def)
  then show ?thesis
    using panicked assms(2) by (auto simp: sendDefect_def slot_inv_def holders_def)
next
  case (notified err)
  then show ?thesis using assms(2) by (auto simp: notifyWorkerFatal_def slot_inv_def holders_def)
qed

lemma results_ok_send:
  assumes "results_ok yields failed (fe_requests fe)" "result_ok yields failed i v"
  shows "results_ok yields failed (fe_requests (sendResult i v fe))"
  using assms by (auto simp: results_ok_def sendResult_def split: option.splits if_splits)

lemma results_ok_new:
  "results_ok yields failed requests \<Longrightarrow>
   results_ok yields failed (requests(i \<mapsto> \<lparr>rq_token = t, rq_result = None\<rparr>))"
  by (auto simp: results_ok_def)

lemma results_ok_failed: "results_ok yields None requests \<Longrightarrow> results_ok yields failed requests"
  by (auto simp: results_ok_def result_ok_def)

lemma answers_frame:
  assumes "fe_requests fe' = fe_requests fe" "fe_failed fe' = fe_failed fe"
    "fe_worker fe' = fe_worker fe" "fe_fatal fe' = fe_fatal fe"
  shows "answers_inv yields fe' = answers_inv yields fe"
  using assms by (simp add: answers_inv_def)

text \<open>While the worker is not in its deferred function, a running executor has not failed.\<close>

lemma answers_running:
  assumes "answers_inv yields fe" "worker_failure (fe_worker fe) = None" "fe_worker fe \<noteq> Stopped"
  shows "fe_failed fe = None" "fe_fatal fe = []" "results_ok yields None (fe_requests fe)"
  using assms by (auto simp: answers_inv_def)

lemma answers_failing:
  assumes "answers_inv yields fe" "worker_failure (fe_worker fe) = Some err"
  shows "fe_failed fe = Some err" "fe_fatal fe = []" "results_ok yields (Some err) (fe_requests fe)"
    "isInternalDefect err" "\<exists>i e. yields i (Panic e)"
proof -
  show failed: "fe_failed fe = Some err" using assms by (simp add: answers_inv_def)
  have "fe_worker fe \<noteq> Stopped" using assms(2) by auto
  then show "fe_fatal fe = []" using assms(1) by (simp add: answers_inv_def)
  show "results_ok yields (Some err) (fe_requests fe)" "isInternalDefect err" "\<exists>i e. yields i (Panic e)"
    using assms(1) failed by (simp_all add: answers_inv_def)
qed

lemma answers_intro:
  "results_ok yields None (fe_requests fe) \<Longrightarrow> fe_failed fe = None \<Longrightarrow> fe_fatal fe = [] \<Longrightarrow>
   worker_failure (fe_worker fe) = None \<Longrightarrow> answers_inv yields fe"
  by (simp add: answers_inv_def)

lemma answers_step:
  assumes "firmware_step yields fe fe'" "slot_inv fe" "answers_inv yields fe"
  shows "answers_inv yields fe'"
  using assms(1)
proof (cases rule: firmware_step.cases)
  case start
  show ?thesis
  proof (cases "fe' = fe")
    case False
    then have "fe_failed fe = None" and fe': "fe' = fe\<lparr>fe_started := True, fe_worker := Selecting\<rparr>"
      using start by (auto simp: StartFirmware_def split: if_splits)
    then have "fe_fatal fe = []" using assms(3) by (simp add: answers_inv_def)
    with \<open>fe_failed fe = None\<close> assms(3) show ?thesis by (simp add: fe' answers_inv_def)
  qed (use assms(3) in simp)
next
  case (admit token)
  then have same: "fe_failed fe' = fe_failed fe" "fe_worker fe' = fe_worker fe"
      "fe_fatal fe' = fe_fatal fe"
    and "fe_requests fe' = fe_requests fe
      \<or> (\<exists>i t. fe_requests fe' = (fe_requests fe)(i \<mapsto> \<lparr>rq_token = t, rq_result = None\<rparr>))"
    by (auto simp: admitObservation_def split: option.splits)
  moreover have "results_ok yields (fe_failed fe) (fe_requests fe)"
    using assms(3) by (simp add: answers_inv_def)
  ultimately have "results_ok yields (fe_failed fe) (fe_requests fe')"
    using results_ok_new by (elim disjE exE) simp_all
  with same assms(3) show ?thesis by (simp add: answers_inv_def)
next
  case (send i)
  then have "answers_inv yields fe' = answers_inv yields fe"
    by (intro answers_frame) (auto simp: sendRequest_def split: if_splits)
  with assms(3) show ?thesis by simp
next
  case (close ctxNil)
  then have "answers_inv yields fe' = answers_inv yields fe"
    by (intro answers_frame) (simp_all add: CloseFirmware_def)
  with assms(3) show ?thesis by simp
next
  case receive
  then show ?thesis
    using answers_running [OF assms(3)]
    by (cases "fe_channel fe") (auto simp: receiveRequest_def intro!: answers_intro)
next
  case stop
  then show ?thesis
    using answers_running [OF assms(3)] by (auto simp: stopWorker_def intro!: answers_intro)
next
  case (transacted i answer)
  then have running: "fe_failed fe = None" "fe_fatal fe = []" "results_ok yields None (fe_requests fe)"
    using answers_running [OF assms(3)] by simp_all
  show ?thesis
  proof (cases answer)
    case (Panic e)
    then show ?thesis
      using transacted running results_ok_failed
      by (auto simp: endTransaction_def Let_def answers_inv_def)
  next
    case (Return r)
    then have "result_ok yields None i (transactionOutcome r)"
      using transacted by (auto simp: result_ok_def)
    with running show ?thesis
      unfolding transacted Return endTransaction_def call.case
      by (intro answers_intro) (simp_all add: results_ok_send)
  qed
next
  case (release i)
  then show ?thesis
    using answers_running [OF assms(3)] by (auto simp: releaseSlot_def intro!: answers_intro)
next
  case (panicked i err)
  then have failed: "fe_failed fe = Some err" "fe_fatal fe = []"
    "results_ok yields (Some err) (fe_requests fe)" "isInternalDefect err" "\<exists>i e. yields i (Panic e)"
    using answers_failing [OF assms(3)] by simp_all
  then have "results_ok yields (Some err) (fe_requests (sendResult i (defect (Some err)) fe))"
    by (intro results_ok_send) (simp_all add: result_ok_def)
  with failed show ?thesis
    unfolding panicked sendDefect_def by (simp add: answers_inv_def)
next
  case (notified err)
  then have "fe_failed fe = Some err" "fe_fatal fe = []"
    "results_ok yields (Some err) (fe_requests fe)" "isInternalDefect err" "\<exists>i e. yields i (Panic e)"
    using answers_failing [OF assms(3)] by simp_all
  then show ?thesis unfolding notified notifyWorkerFatal_def by (simp add: answers_inv_def)
qed

lemma firmware_invariants: "firmware_reachable yields fe \<Longrightarrow> slot_inv fe \<and> answers_inv yields fe"
  by (induction rule: firmware_reachable.induct)
    (auto intro: new_slot_inv new_answers_inv slot_step answers_step)

section \<open>Transactions that do not panic\<close>

text \<open>
  What the executor relies on: the firmware transaction returns. The production transaction is
  \<open>GetThrottled\<close> on any device.
\<close>

locale firmware_transaction =
  fixes yields :: "nat \<Rightarrow> (u32 go) call \<Rightarrow> bool"
  assumes total: "yields i answer \<Longrightarrow> \<exists>r. answer = Return r"
begin

lemma never_fails:
  assumes "firmware_reachable yields fe"
  shows "fe_failed fe = None" and "fe_fatal fe = []"
proof -
  have inv: "answers_inv yields fe" using firmware_invariants [OF assms] by blast
  show "fe_failed fe = None"
  proof (rule ccontr)
    assume "fe_failed fe \<noteq> None"
    then obtain i e where "yields i (Panic e)" using inv unfolding answers_inv_def by blast
    from total [OF this] show False by simp
  qed
  with inv show "fe_fatal fe = []" by (simp add: answers_inv_def)
qed

lemma awaited_answer:
  assumes "firmware_reachable yields fe" "fe_requests fe i = Some request"
    and "awaitObservation (rq_token request) i None fe = Some v"
  shows "\<exists>r. yields i (Return r) \<and> v = transactionOutcome r"
proof -
  obtain t w where "rq_result request = Some (t, w)" "t = rq_token request \<longrightarrow> v = w"
    using assms(2,3) by (auto simp: awaitObservation_def split: option.splits if_splits)
  moreover have "results_ok yields None (fe_requests fe)"
    using firmware_invariants [OF assms(1)] never_fails(1) [OF assms(1)] by (simp add: answers_inv_def)
  ultimately show ?thesis using assms(2) by (auto simp: results_ok_def result_ok_def)
qed

lemma answers_valid:
  assumes "firmware_reachable yields fe" "fe_requests fe i = Some request"
    and "awaitObservation (rq_token request) i ctxDone fe = Some v"
  shows "valid_outcome v"
proof (cases ctxDone)
  case None
  then obtain r where "v = transactionOutcome r" using awaited_answer [OF assms(1,2)] assms(3) by blast
  then show ?thesis by (cases r) (simp_all add: transactionOutcome_def)
next
  case (Some e)
  then have "v = unavailable reasonTemporarilyUnavailable (Some e)"
    using assms(3) by (simp add: awaitObservation_def)
  then show ?thesis by simp
qed

end

text \<open>The devices as the transaction of each request finds them: they change between requests.\<close>

definition firmware_yields :: "(nat \<Rightarrow> firmware_devices) \<Rightarrow> nat \<Rightarrow> (u32 go) call \<Rightarrow> bool" where
  "firmware_yields d i answer \<longleftrightarrow> answer = GetThrottled (d i)"

interpretation production_firmware: firmware_transaction "firmware_yields d" for d
  by unfold_locales (use GetThrottled_returns in \<open>auto simp: firmware_yields_def returns_def\<close>)

section \<open>A run of the executor\<close>

text \<open>Started, with request 0 admitted for the cycle of token 7, then received by the worker.\<close>

definition example_admitted :: FirmwareExecutor where
  "example_admitted = fst (admitObservation (Some 7) (fst (StartFirmware newFirmwareExecutor)))"

definition example_transacting :: FirmwareExecutor where
  "example_transacting = receiveRequest (the (sendRequest 0 example_admitted))"

lemma example_admitted_eq:
  "example_admitted =
     \<lparr>fe_started = True, fe_stopping = False, fe_busy = True, fe_failed = None, fe_stop = False,
      fe_done = False, fe_sending = [0], fe_channel = [],
      fe_requests = Map.empty(0 \<mapsto> \<lparr>rq_token = 7, rq_result = None\<rparr>), fe_next = 1,
      fe_worker = Selecting, fe_fatal = []\<rparr>"
  by (simp add: example_admitted_def admitObservation_def StartFirmware_def newFirmwareExecutor_def)

lemma example_admitted: "firmware_reachable yields example_admitted"
  "fe_requests example_admitted 0 = Some \<lparr>rq_token = 7, rq_result = None\<rparr>"
proof -
  have "firmware_reachable yields (fst (StartFirmware newFirmwareExecutor))"
    by (rule firmware_reachable.step [OF firmware_reachable.initial firmware_step.start])
  then show "firmware_reachable yields example_admitted"
    unfolding example_admitted_def by (rule firmware_reachable.step [OF _ firmware_step.admit])
  show "fe_requests example_admitted 0 = Some \<lparr>rq_token = 7, rq_result = None\<rparr>"
    by (simp add: example_admitted_eq)
qed

lemma example_transacting:
  "firmware_reachable yields example_transacting"
  "fe_worker example_transacting = Transacting 0" "holders example_transacting = [0]"
  "fe_requests example_transacting 0 = Some \<lparr>rq_token = 7, rq_result = None\<rparr>"
proof -
  let ?sent = "the (sendRequest 0 example_admitted)"
  have "firmware_step yields example_admitted ?sent"
    by (rule firmware_step.send [of 0]) (simp_all add: example_admitted_eq sendRequest_def)
  with example_admitted(1) have "firmware_reachable yields ?sent"
    by (rule firmware_reachable.step)
  moreover have "firmware_step yields ?sent (receiveRequest ?sent)"
    by (rule firmware_step.receive) (simp_all add: example_admitted_eq sendRequest_def)
  ultimately show "firmware_reachable yields example_transacting"
    unfolding example_transacting_def by (rule firmware_reachable.step)
qed (simp_all add: example_transacting_def example_admitted_eq sendRequest_def receiveRequest_def
      holders_def)

lemma example_ended:
  "yields 0 answer \<Longrightarrow> firmware_reachable yields (endTransaction 0 answer example_transacting)"
  by (rule firmware_reachable.step [OF example_transacting(1)
        firmware_step.transacted [OF example_transacting(2)]])

section \<open>Properties\<close>

text \<open>
  C19 (firmware_single_flight): whatever the interleaving, at most one request is between its
  admission and the release of the slot; no other is admitted meanwhile, and the send of an
  admitted request on the channel never blocks.
\<close>

theorem firmware_single_flight:
  assumes "firmware_reachable yields fe"
  shows "length (holders fe) \<le> 1
    \<and> (holders fe \<noteq> [] \<longrightarrow> (\<forall>token. \<nexists>i. snd (admitObservation token fe) = Inr i))
    \<and> (\<forall>i\<in>set (fe_sending fe). sendRequest i fe \<noteq> None)"
proof -
  have inv: "slot_inv fe" using firmware_invariants [OF assms] by blast
  have "snd (admitObservation token fe) \<noteq> Inr i" if "holders fe \<noteq> []" for token i
    using inv that by (auto simp: slot_inv_def admitObservation_def split: option.splits)
  moreover have "sendRequest i fe \<noteq> None" if "i \<in> set (fe_sending fe)" for i
  proof -
    have "fe_sending fe = [i] \<and> fe_channel fe = [] \<and> worker_holds (fe_worker fe) = []"
      using inv that unfolding slot_inv_def holders_def by (intro single_holder) simp_all
    then show ?thesis by (simp add: sendRequest_def)
  qed
  ultimately show ?thesis using inv by (auto simp: slot_inv_def)
qed

theorem firmware_single_flight_witness:
  "holders example_transacting = [0] \<and> snd (admitObservation (Some 8) example_transacting) \<noteq> Inr 1"
  using firmware_single_flight [OF example_transacting(1) [of "\<lambda>i a. True"]] example_transacting(3)
  by simp

text \<open>
  C25 (firmware_answer_sound): an observer that waits for its request gets the outcome of the
  transaction run for that very request, on the devices as that transaction found them, or, when
  its context ends first, a temporary unavailability; over the production devices the answer always
  passes the coordinator's validation and the executor never fails.
\<close>

theorem firmware_answer_sound:
  assumes "firmware_reachable (firmware_yields d) fe" "fe_requests fe i = Some request"
    and "awaitObservation (rq_token request) i ctxDone fe = Some v"
  shows "validateOutcome v = None \<and> fe_failed fe = None \<and> fe_fatal fe = []
    \<and> (case ctxDone of
         None \<Rightarrow> \<exists>r. GetThrottled (d i) = Return r \<and> v = transactionOutcome r
       | Some e \<Rightarrow> v = unavailable reasonTemporarilyUnavailable (Some e))"
proof -
  have "\<exists>r. GetThrottled (d i) = Return r \<and> v = transactionOutcome r" if "ctxDone = None"
    using production_firmware.awaited_answer [OF assms(1,2)] assms(3) that
    by (metis firmware_yields_def)
  moreover have "v = unavailable reasonTemporarilyUnavailable (Some e)" if "ctxDone = Some e" for e
    using assms(3) that by (simp add: awaitObservation_def)
  ultimately show ?thesis
    using production_firmware.answers_valid [OF assms] production_firmware.never_fails [OF assms(1)]
    by (simp add: validateOutcome_None_iff split: option.split)
qed

text \<open>A transaction whose result was delivered: what the first request's devices answered.\<close>

theorem firmware_answer_sound_witness:
  "\<exists>r fe. firmware_reachable (firmware_yields (\<lambda>i. if i = 0 then example_devices else missing_devices)) fe
     \<and> GetThrottled example_devices = Return r
     \<and> awaitObservation 7 0 None fe = Some (transactionOutcome r)
     \<and> validateOutcome (transactionOutcome r) = None"
proof -
  let ?d = "\<lambda>i :: nat. if i = 0 then example_devices else missing_devices"
  obtain r where r: "GetThrottled example_devices = Return r"
    using GetThrottled_returns [of example_devices] by (auto simp: returns_def)
  let ?fe = "endTransaction 0 (Return r) example_transacting"
  have reach: "firmware_reachable (firmware_yields ?d) ?fe"
    by (rule example_ended) (simp add: firmware_yields_def r)
  have request: "fe_requests ?fe 0 = Some \<lparr>rq_token = 7, rq_result = Some (7, transactionOutcome r)\<rparr>"
    by (simp add: endTransaction_def sendResult_def example_transacting(4))
  then have await: "awaitObservation (rq_token \<lparr>rq_token = 7,
      rq_result = Some (7, transactionOutcome r)\<rparr>) 0 None ?fe = Some (transactionOutcome r)"
    by (simp add: awaitObservation_def)
  from firmware_answer_sound [OF reach request await] reach r await show ?thesis by auto
qed

text \<open>
  After a panic of the transaction the executor has failed for
  good: every observation is answered with a defect, no transaction starts again, and the fatal
  notifier is called at most once, with the internal defect of that panic.
\<close>

theorem firmware_failure_sticky:
  assumes "firmware_reachable yields fe" "fe_failed fe = Some failed"
  shows "isInternalDefect failed
    \<and> snd (admitObservation (Some t) fe) = Inl (defect (Some failed))
    \<and> (\<forall>i. fe_worker fe \<noteq> Transacting i) \<and> (fe_fatal fe = [] \<or> fe_fatal fe = [failed])
    \<and> (\<forall>fe'. firmware_step yields fe fe' \<longrightarrow> fe_failed fe' = Some failed)"
proof -
  have inv: "answers_inv yields fe" using firmware_invariants [OF assms(1)] by blast
  then have worker: "fe_worker fe = Stopped \<or> worker_failure (fe_worker fe) = Some failed"
    using assms(2) by (simp add: answers_inv_def)
  have "fe_failed fe' = Some failed" if "firmware_step yields fe fe'" for fe'
    using that
  proof (cases rule: firmware_step.cases)
    case start
    then show ?thesis using assms(2) by (simp add: StartFirmware_def)
  next
    case (admit token)
    then show ?thesis using assms(2) by (auto simp: admitObservation_def split: option.splits)
  next
    case (send i)
    then show ?thesis using assms(2) by (auto simp: sendRequest_def split: if_splits)
  next
    case (close ctxNil)
    then show ?thesis using assms(2) by (simp add: CloseFirmware_def)
  qed (use assms(2) worker in
      \<open>auto simp: receiveRequest_def stopWorker_def releaseSlot_def sendDefect_def
        notifyWorkerFatal_def split: list.splits\<close>)
  then show ?thesis
    using inv worker assms(2) by (auto simp: answers_inv_def admitObservation_def)
qed

definition example_panicked :: FirmwareExecutor where
  "example_panicked = endTransaction 0 (Panic (New ''p'')) example_transacting"

lemma example_panicked: "firmware_reachable (\<lambda>i a. True) example_panicked"
  "fe_failed example_panicked =
     Some (internalDefect (Some (Formatv ''firmware executor panic: %v'' (New ''p''))))"
proof -
  show "firmware_reachable (\<lambda>i a. True) example_panicked"
    unfolding example_panicked_def by (rule example_ended) simp
  show "fe_failed example_panicked =
     Some (internalDefect (Some (Formatv ''firmware executor panic: %v'' (New ''p''))))"
    by (simp add: example_panicked_def endTransaction_def Let_def)
qed

theorem firmware_failure_sticky_witness:
  "snd (admitObservation (Some 8) example_panicked) =
     Inl (defect (Some (internalDefect (Some (Formatv ''firmware executor panic: %v'' (New ''p''))))))"
  using firmware_failure_sticky [OF example_panicked, of 8] by blast

end
