(* ===== verification/Lifecycle.thy ===== *)
theory Lifecycle
  imports HttpServer Readiness Logger Validators Cpu FirmwareExecutor SingleFlight
begin

text \<open>
  \<open>internal/app/app.go\<close> and \<open>runtime.go\<close>: the start of the production service with the release of
  what was acquired when a later step fails, and the foreground life of the process from its
  configuration to its exit code. The parts are the models of the other theories; what the
  operating system, the signals and the choices of \<open>select\<close> answer are records of arguments.
\<close>

section \<open>The runtime\<close>

definition shutdownTimeout :: int where "shutdownTimeout = 2 * second"

text \<open>
  \<open>productionRuntime\<close>: the resources the service owns. A resource that was not acquired is
  \<open>None\<close>.
\<close>

record productionRuntime =
  rt_server :: "Server option"
  rt_observer :: "CPUObserver option"
  rt_firmware :: "FirmwareExecutor option"

text \<open>\<open>errors.Join\<close>: nil errors are discarded, and nothing remains of an empty list.\<close>

definition joinErrors :: "goerror option list \<Rightarrow> goerror option" where
  "joinErrors errs =
     (let es = concat (map (\<lambda>e. case e of None \<Rightarrow> [] | Some x \<Rightarrow> [x]) errs)
      in if es = [] then None else Some (JoinError es))"

text \<open>
  The two closes that take a context: a close that has to wait ends with the error of its
  context (\<open>wait\<close>) or with the goroutine.
\<close>

definition closeObserver :: "goerror option \<Rightarrow> CPUObserver \<Rightarrow> CPUObserver \<times> goerror option" where
  "closeObserver wait obs =
     (case CloseCPU obs of (obs', waits) \<Rightarrow> (obs', if waits then wait else None))"

definition closeFirmware :: "goerror option \<Rightarrow> FirmwareExecutor \<Rightarrow> FirmwareExecutor \<times> goerror option" where
  "closeFirmware wait fe =
     (case CloseFirmware False fe of (fe', err, waits) \<Rightarrow> (fe', if waits then wait else err))"

definition runtimeStop ::
    "(Server \<Rightarrow> Server \<times> goerror option) \<Rightarrow> goerror option \<Rightarrow> goerror option
     \<Rightarrow> productionRuntime \<Rightarrow> productionRuntime \<times> goerror option" where
  "runtimeStop stopServer observerWait firmwareWait rt =
     (let (server, serverErr) =
            (case rt_server rt of None \<Rightarrow> (None, None)
             | Some s \<Rightarrow> (case stopServer s of (s', e) \<Rightarrow> (Some s', e)));
          (observer, observerErr) =
            (case rt_observer rt of None \<Rightarrow> (None, None)
             | Some obs \<Rightarrow> (case closeObserver observerWait obs of (obs', e) \<Rightarrow> (Some obs', e)));
          (firmware, firmwareErr) =
            (case rt_firmware rt of None \<Rightarrow> (None, None)
             | Some fe \<Rightarrow> (case closeFirmware firmwareWait fe of (fe', e) \<Rightarrow> (Some fe', e)))
      in (\<lparr>rt_server = server, rt_observer = observer, rt_firmware = firmware\<rparr>,
          joinErrors [serverErr, observerErr, firmwareErr]))"

definition runtimeShutdown ::
    "goerror option \<Rightarrow> goerror option \<Rightarrow> goerror option
     \<Rightarrow> productionRuntime \<Rightarrow> productionRuntime \<times> goerror option" where
  "runtimeShutdown serverErr observerWait firmwareWait rt =
     runtimeStop (ShutdownServer serverErr) observerWait firmwareWait rt"

definition runtimeClose ::
    "goerror option \<Rightarrow> goerror option \<Rightarrow> goerror option
     \<Rightarrow> productionRuntime \<Rightarrow> productionRuntime \<times> goerror option" where
  "runtimeClose serverErr observerWait firmwareWait rt =
     runtimeStop (CloseServer serverErr) observerWait firmwareWait rt"

section \<open>Constructors of the observers\<close>

definition NewCPUObserver :: "bool \<Rightarrow> bool \<Rightarrow> CPUObserver go" where
  "NewCPUObserver sourceNil fatalNil =
     (if sourceNil \<or> fatalNil then Inl (New ''CPU observer dependencies are required'')
      else Inr newCPUObserver)"

definition NewFirmwareExecutor :: "bool \<Rightarrow> bool \<Rightarrow> FirmwareExecutor go" where
  "NewFirmwareExecutor transactionNil fatalNil =
     (if transactionNil then Inl (New ''firmware transaction is required'')
      else if fatalNil then Inl (New ''fatal notifier is required'')
      else Inr newFirmwareExecutor)"

definition NewDegradationReporter :: "bool \<Rightarrow> bool \<Rightarrow> DegradationReporter go" where
  "NewDegradationReporter nowNil emitNil =
     (if nowNil \<or> emitNil then Inl (New ''degradation reporter dependencies are required'')
      else Inr newDegradationReporter)"

text \<open>\<open>anyNil\<close>: one of the five providers is nil.\<close>

definition NewCoordinatorWithRaspberryPi :: "bool \<Rightarrow> bool \<Rightarrow> bool \<Rightarrow> Coordinator go" where
  "NewCoordinatorWithRaspberryPi anyNil lifecycleNil fatalNil =
     (if anyNil then Inl (New ''platform sources and observers are required'')
      else if lifecycleNil then Inl (New ''lifecycle context is required'')
      else if fatalNil then Inl (New ''fatal notifier is required'')
      else Inr newCoordinator)"

section \<open>Starting the service\<close>

record startEnvironment =
  st_bind :: "string \<Rightarrow> string \<Rightarrow> goerror option"
  st_cpuSource :: cpuSource
  st_initialAt :: int
  st_source :: genericSource
  st_probeCtx :: "goerror option \<times> goerror option"
  st_closeErr :: "goerror option"

text \<open>
  The releases of the failure paths: the two observers, or the server before them. The errors of
  the closes are ignored.
\<close>

definition releaseObservers :: "CPUObserver \<Rightarrow> FirmwareExecutor \<Rightarrow> productionRuntime" where
  "releaseObservers obs fe =
     \<lparr>rt_server = None, rt_observer = Some (fst (CloseCPU obs)),
      rt_firmware = Some (fst (CloseFirmware False fe))\<rparr>"

definition releaseAll ::
    "goerror option \<Rightarrow> Server \<Rightarrow> CPUObserver \<Rightarrow> FirmwareExecutor \<Rightarrow> productionRuntime" where
  "releaseAll closeErr server obs fe =
     (releaseObservers obs fe)\<lparr>rt_server := Some (fst (CloseServer closeErr server))\<rparr>"

text \<open>
  \<open>startHTTP\<close>: the runtime on success; on failure the error, with the resources as the
  failure path leaves them.
\<close>

definition startHTTP :: "startEnvironment \<Rightarrow> Config \<Rightarrow> productionRuntime \<times> goerror option" where
  "startHTTP env resolved =
     (case NewCPUObserver False False of
        Inl e \<Rightarrow> (\<lparr>rt_server = None, rt_observer = None, rt_firmware = None\<rparr>, Some e)
      | Inr observer \<Rightarrow>
      (case NewFirmwareExecutor False False of
         Inl e \<Rightarrow> (\<lparr>rt_server = None, rt_observer = Some (fst (CloseCPU observer)),
                  rt_firmware = None\<rparr>, Some e)
       | Inr firmware0 \<Rightarrow>
      (case StartFirmware firmware0 of
         (firmware, Some e) \<Rightarrow>
           (\<lparr>rt_server = None, rt_observer = Some (fst (CloseCPU observer)),
             rt_firmware = Some firmware\<rparr>, Some e)
       | (firmware, None) \<Rightarrow>
      (case NewDegradationReporter False False of
         Inl e \<Rightarrow> (releaseObservers observer firmware, Some e)
       | Inr reporter \<Rightarrow>
      (case NewCoordinatorWithRaspberryPi False False False of
         Inl e \<Rightarrow> (releaseObservers observer firmware, Some e)
       | Inr provider \<Rightarrow>
      (case Listen (st_bind env) (listenAddress resolved) (listenPort resolved) False False of
         Inl e \<Rightarrow> (releaseObservers observer firmware, Some e)
       | Inr server \<Rightarrow>
      (case StartCPU (st_cpuSource env) (st_initialAt env) observer of
         (observer', Some e, deadline) \<Rightarrow>
           (releaseAll (st_closeErr env) server observer' firmware, Some e)
       | (observer', None, deadline) \<Rightarrow>
      (case ProbeReadiness (Some (st_probeCtx env)) (Some (st_source env)) of
         Some e \<Rightarrow> (releaseAll (st_closeErr env) server observer' firmware, Some e)
       | None \<Rightarrow>
      (case ReadyFirmware firmware of
         Some e \<Rightarrow> (releaseAll (st_closeErr env) server observer' firmware, Some e)
       | None \<Rightarrow>
           (\<lparr>rt_server = Some server, rt_observer = Some observer', rt_firmware = Some firmware\<rparr>,
            None))))))))))"

section \<open>The process\<close>

text \<open>The channel that a \<open>select\<close> of \<open>run\<close> receives from.\<close>

datatype lifecycleEvent = Signalled | FatalReceived | ServeReturned "goerror option"

text \<open>
  The answers of the surroundings, in the order \<open>run\<close> reads them: the state of the signal
  context and of the fatal flag at each point, the two selects (the first may take its default),
  and what \<open>Shutdown\<close> and \<open>Serve\<close> return. While the server runs, its parts write on the same
  logger: the degradation reporter of the coordinator and the \<open>ErrorLog\<close> of the HTTP server, both
  set up by \<open>startHTTP\<close>. \<open>lf_others i\<close> are the calls they make after the i-th record of \<open>run\<close> itself
  and before the next one; the logger's mutex orders all calls. Nothing of the service uses the
  logger before \<open>startHTTP\<close> has returned, because only served requests collect.
\<close>

record lifecycle =
  lf_clock :: "nat \<Rightarrow> gotime"
  lf_cancelledEarly :: bool
  lf_start :: "Config \<Rightarrow> goerror option"
  lf_cancelledStarting :: bool
  lf_fatalStarting :: bool
  lf_first :: "lifecycleEvent option"
  lf_fatalBefore :: bool
  lf_notifyCtx :: "goerror option"
  lf_notifyReady :: "(string list \<Rightarrow> goerror option) option"
  lf_fatalDuring :: bool
  lf_cancelledNotifying :: bool
  lf_fatalAfter :: bool
  lf_second :: lifecycleEvent
  lf_shutdown :: "goerror option"
  lf_served :: "goerror option option"
  lf_others :: "nat \<Rightarrow> logCall list"

text \<open>What the other parts write, and an error record of \<open>run\<close>, its i-th, with what follows it.\<close>

definition othersLog :: "lifecycle \<Rightarrow> nat \<Rightarrow> lineLogger \<Rightarrow> lineLogger" where
  "othersLog lf i logger = logCallsRun (lf_others lf i) logger"

definition runError :: "lifecycle \<Rightarrow> nat \<Rightarrow> string \<Rightarrow> lineLogger \<Rightarrow> lineLogger" where
  "runError lf i message logger = othersLog lf i (loggerError message logger)"

section \<open>Stopping\<close>

text \<open>What the process does with its server, its stderr being the output of the logger.\<close>

datatype runtimeAction = Start | NotifyReady | Shutdown | CloseNow

text \<open>
  \<open>lf_shutdown\<close> is the result of \<open>Shutdown\<close>; \<open>lf_served\<close> is the result of \<open>Serve\<close> when it
  comes before the timer. A record written here is the i-th of \<open>run\<close>.
\<close>

definition shutDown ::
    "lifecycle \<Rightarrow> nat \<Rightarrow> lineLogger \<Rightarrow> nat \<times> runtimeAction list \<times> lineLogger" where
  "shutDown lf i logger =
     (let shutdownErr = lf_shutdown lf;
          actions = Shutdown # (if shutdownErr \<noteq> None then [CloseNow] else [])
      in case lf_served lf of
           None \<Rightarrow>
             (1, actions @ [CloseNow],
              runError lf i ''operational error: shutdown exceeded two seconds'' logger)
         | Some serveErr \<Rightarrow>
             if shutdownErr \<noteq> None
             then (1, actions, runError lf i ''operational error: graceful shutdown failed'' logger)
             else if serveErr \<noteq> None
             then (1, actions,
                   runError lf i ''operational error: HTTP server failed during shutdown'' logger)
             else (0, actions, logger))"

definition unexpectedServeExit ::
    "lifecycle \<Rightarrow> goerror option \<Rightarrow> lineLogger \<Rightarrow> nat \<times> runtimeAction list \<times> lineLogger" where
  "unexpectedServeExit lf serveErr logger =
     (1, [CloseNow],
      if serveErr \<noteq> None then runError lf 1 ''operational error: HTTP server failed'' logger
      else runError lf 1 ''operational error: HTTP server stopped unexpectedly'' logger)"

section \<open>The foreground\<close>

definition detectedIf :: "bool \<Rightarrow> readinessGate \<Rightarrow> readinessGate" where
  "detectedIf b gate = (if b then markDetected gate else gate)"

text \<open>The call of the gate, with whether it sent.\<close>

definition notifyGate ::
    "lifecycle \<Rightarrow> string list \<Rightarrow> readinessGate \<Rightarrow> readinessGate \<times> goerror option \<times> bool" where
  "notifyGate lf environment gate =
     (case enterNotify (lf_notifyCtx lf) (detectedIf (lf_fatalBefore lf) gate) of
        Inl r \<Rightarrow> (detectedIf (lf_fatalBefore lf) gate, r, False)
      | Inr gate1 \<Rightarrow>
          (let sent = (case lf_notifyReady lf of None \<Rightarrow> None | Some notify \<Rightarrow> notify environment);
               (gate2, r) = leaveNotify sent (detectedIf (lf_fatalDuring lf) gate1)
           in (gate2, r, True)))"

definition handleEvent ::
    "lifecycle \<Rightarrow> lifecycleEvent \<Rightarrow> lineLogger \<Rightarrow> nat \<times> runtimeAction list \<times> lineLogger" where
  "handleEvent lf event logger =
     (case event of
        Signalled \<Rightarrow> shutDown lf 1 logger
      | FatalReceived \<Rightarrow>
          (let (code, actions, logger') =
                 shutDown lf 2 (runError lf 1 ''operational error: internal service failure'' logger)
           in (1, actions, logger'))
      | ServeReturned serveErr \<Rightarrow> unexpectedServeExit lf serveErr logger)"

text \<open>\<open>run\<close> after the server has started.\<close>

definition runForeground ::
    "lifecycle \<Rightarrow> string list \<Rightarrow> lineLogger \<Rightarrow> nat \<times> runtimeAction list \<times> lineLogger" where
  "runForeground lf environment logger =
     (let logger = othersLog lf 0 logger
      in case lf_first lf of
        Some event \<Rightarrow> handleEvent lf event logger
      | None \<Rightarrow>
          (let (gate, r, sent) = notifyGate lf environment newReadinessGate;
               notified = (if sent then [NotifyReady] else [])
           in if r \<noteq> None then
                (if lf_cancelledNotifying lf
                 then (let (code, actions, logger') = shutDown lf 1 logger
                       in (code, notified @ actions, logger'))
                 else
                   (let logger1 = runError lf 1
                          (if hasFatal (detectedIf (lf_fatalAfter lf) gate)
                           then ''operational error: internal service failure''
                           else ''operational error: readiness notification failed'') logger;
                        (code, actions, logger') = shutDown lf 2 logger1
                    in (1, notified @ actions, logger')))
              else
                (let (code, actions, logger') = handleEvent lf (lf_second lf) logger
                 in (code, notified @ actions, logger'))))"

text \<open>The text of a configuration error; \<open>Resolve\<close> returns no other error but \<open>ErrHelp\<close>.\<close>

fun errorText :: "goerror \<Rightarrow> string" where
  "errorText (New message) = message"
| "errorText e = []"

text \<open>\<open>run\<close>: the exit code, the writes on stdout and on stderr, and the actions on the server.\<close>

definition run ::
    "lifecycle \<Rightarrow> string list \<Rightarrow> string list
     \<Rightarrow> nat \<times> string list \<times> string list option \<times> runtimeAction list" where
  "run lf args environment =
     (case Resolve args environment of
        Inl err \<Rightarrow>
          if errors_is err ErrHelp then (0, [HelpText], Some [], [])
          else (2, [],
                Some [''joy-pi-health: configuration error: '' @ errorText err @ [CHR 0x0A]], [])
      | Inr resolved \<Rightarrow>
          (let logger = newLineLoggerWith (Some []) (logLevel resolved) (lf_clock lf)
           in if lf_cancelledEarly lf then (0, [], lg_output logger, [])
              else (case lf_start lf resolved of
                      Some err \<Rightarrow>
                        if lf_cancelledStarting lf then (0, [], lg_output logger, [])
                        else (1, [], lg_output (loggerError
                               (if lf_fatalStarting lf
                                then ''operational error: internal service failure''
                                else ''operational error: service startup failed'') logger), [])
                    | None \<Rightarrow>
                        (let (code, actions, logger') = runForeground lf environment logger
                         in (code, [], lg_output logger', Start # actions)))))"

section \<open>Starting: what can fail, and what is released\<close>

lemma startHTTP_parts:
  "StartFirmware newFirmwareExecutor =
     (newFirmwareExecutor\<lparr>fe_started := True, fe_worker := FirmwareExecutor.Selecting\<rparr>, None)"
  "ReadyFirmware (newFirmwareExecutor\<lparr>fe_started := True, fe_worker := FirmwareExecutor.Selecting\<rparr>) = None"
  by (simp_all add: StartFirmware_def ReadyFirmware_def newFirmwareExecutor_def)

lemma StartCPU_new:
  "\<exists>obs deadline. StartCPU source initialAt newCPUObserver = (obs, None, Some deadline)
     \<and> obs_started obs \<and> \<not> obs_stopped obs \<and> \<not> obs_cancelled obs \<and> observer_inv obs"
proof -
  have flags: "\<not> obs_started newCPUObserver" "\<not> obs_stopped newCPUObserver"
    "\<not> obs_cancelled newCPUObserver"
    by (simp_all add: newCPUObserver_def storePublication_def)
  let ?obs = "newCPUObserver\<lparr>obs_started := True\<rparr>"
  have "observer_inv ?obs" using newCPUObserver_inv by (simp add: observer_inv_def)
  then obtain obs where "observeCPU source initialAt ?obs = Return obs" "observer_inv obs"
    "obs_started obs = obs_started ?obs" "obs_stopped obs = obs_stopped ?obs"
    "obs_cancelled obs = obs_cancelled ?obs"
    using observeCPU_returns [where t = 0 and source = source and atTime = initialAt] by blast
  then show ?thesis using flags by (simp add: StartCPU_def beginStart_def startBaseline_def)
qed

definition endpoint_of :: "Config \<Rightarrow> string" where
  "endpoint_of resolved =
     joinHostPort (addr_string (listenAddress resolved)) (dec (unat (listenPort resolved)))"

lemma Listen_production:
  "Listen bind (listenAddress resolved) (listenPort resolved) False False =
     (case bind ''tcp4'' (endpoint_of resolved) of
        Some e \<Rightarrow> Inl e | None \<Rightarrow> Inr (newServer (endpoint_of resolved) handler_new))"
  by (simp add: Listen_def Let_def newRequestHandler_new requestDeadline_def endpoint_of_def
      go_bind_Inr_iff [symmetric] newRequestHandler_new [THEN iffD2] split: option.split)

text \<open>What is left of \<open>startHTTP\<close> when the steps that cannot fail are done.\<close>

definition startOutcome ::
    "startEnvironment \<Rightarrow> Config \<Rightarrow> CPUObserver \<Rightarrow> productionRuntime \<times> goerror option" where
  "startOutcome env resolved obs =
       (let fe = newFirmwareExecutor\<lparr>fe_started := True, fe_worker := FirmwareExecutor.Selecting\<rparr>
        in case st_bind env ''tcp4'' (endpoint_of resolved) of
             Some e \<Rightarrow> (releaseObservers newCPUObserver fe, Some e)
           | None \<Rightarrow>
               (let server = newServer (endpoint_of resolved) handler_new
                in case ProbeReadiness (Some (st_probeCtx env)) (Some (st_source env)) of
                     Some e \<Rightarrow> (releaseAll (st_closeErr env) server obs fe, Some e)
                   | None \<Rightarrow> (\<lparr>rt_server = Some server, rt_observer = Some obs,
                               rt_firmware = Some fe\<rparr>, None)))"

lemma startHTTP_production:
  obtains obs where
    "obs_started obs" "\<not> obs_stopped obs" "\<not> obs_cancelled obs" "observer_inv obs"
    "startHTTP env resolved = startOutcome env resolved obs"
proof -
  obtain obs deadline where o: "StartCPU (st_cpuSource env) (st_initialAt env) newCPUObserver
      = (obs, None, Some deadline)" "obs_started obs" "\<not> obs_stopped obs" "\<not> obs_cancelled obs"
      "observer_inv obs"
    using StartCPU_new by blast
  show thesis
    by (rule that [OF o(2-5)])
      (simp add: startHTTP_def NewCPUObserver_def NewFirmwareExecutor_def NewDegradationReporter_def
        NewCoordinatorWithRaspberryPi_def startHTTP_parts Listen_production o(1) startOutcome_def Let_def
        split: option.split)
qed

text \<open>
  C18 (start_exact): the production service starts exactly when the configured endpoint can be bound
  and the readiness probe observes the hostname together with the uptime or the root filesystem;
  CPU, thermal, firmware and network sources never prevent a start. A started service has an
  unused server on the configured endpoint, a running observer whose publication is valid, and a
  ready firmware executor.
\<close>

theorem start_exact:
  assumes "startHTTP env resolved = (rt, err)"
  shows "(err = None \<longleftrightarrow>
      st_bind env ''tcp4'' (endpoint_of resolved) = None
      \<and> is_present (host_hostname (collectHost (fst (st_probeCtx env)) (st_source env)))
      \<and> (is_present (host_uptime (collectHost (fst (st_probeCtx env)) (st_source env)))
         \<or> is_present (collectRootFilesystem (snd (st_probeCtx env)) (st_source env))))
    \<and> (err \<noteq> None \<or>
       (\<exists>obs fe. rt = \<lparr>rt_server = Some (newServer (endpoint_of resolved) handler_new),
                      rt_observer = Some obs, rt_firmware = Some fe\<rparr>
         \<and> obs_started obs \<and> \<not> obs_stopped obs \<and> observer_inv obs \<and> ReadyFirmware fe = None))"
proof -
  obtain obs where obs: "obs_started obs" "\<not> obs_stopped obs" "observer_inv obs" and
    start: "startHTTP env resolved = startOutcome env resolved obs"
    by (rule startHTTP_production)
  note probe = readiness_exact [of "fst (st_probeCtx env)" "snd (st_probeCtx env)" "st_source env", simplified]
  show ?thesis
  proof (cases "st_bind env ''tcp4'' (endpoint_of resolved)")
    case None
    then show ?thesis using assms start obs probe startHTTP_parts(2)
      by (cases "ProbeReadiness (Some (st_probeCtx env)) (Some (st_source env))") (auto simp: startOutcome_def Let_def)
  next
    case (Some e)
    then show ?thesis using assms start by (auto simp: startOutcome_def Let_def)
  qed
qed

text \<open>
  C29 (start_releases): when the start fails, the observer and the firmware executor have been told
  to stop, and a server that was created was closed. That close does not reach the bound
  listener, which no \<open>Serve\<close> tracks yet: it stays open.
\<close>

theorem start_releases:
  assumes "startHTTP env resolved = (rt, Some err)"
  shows "(\<exists>obs. rt_observer rt = Some obs \<and> obs_stopped obs \<and> obs_cancelled obs)
    \<and> (\<exists>fe. rt_firmware rt = Some fe \<and> fe_stopping fe \<and> fe_stop fe)
    \<and> (st_bind env ''tcp4'' (endpoint_of resolved) \<noteq> None \<and> rt_server rt = None
       \<or> (\<exists>server. rt_server rt = Some server \<and> hs_inShutdown (srv_http server)
            \<and> \<not> ll_closed (srv_listener server)))"
proof -
  obtain obs where 
    start: "startHTTP env resolved = startOutcome env resolved obs"
    by (rule startHTTP_production)
  have server: "hs_inShutdown (srv_http (fst (CloseServer e (newServer ep h))))"
      "\<not> ll_closed (srv_listener (fst (CloseServer e (newServer ep h))))" for e ep h
    by (simp_all add: CloseServer_def Let_def newServer_def newLimitedListener_def setShutdown_def)
  show ?thesis using assms start server
    by (auto simp: startOutcome_def Let_def releaseObservers_def releaseAll_def CloseCPU_def CloseFirmware_def
        split: option.splits)
qed

definition example_environment :: "goerror option \<Rightarrow> startEnvironment" where
  "example_environment bindErr =
     \<lparr>st_bind = (\<lambda>_ _. bindErr),
      st_cpuSource = \<lparr>cpu_stat = Inl (Errno 2), cpu_online = Inl (Errno 2), cpu_bootID = Inl (Errno 2),
                      cpu_uptime = Inl (Errno 2)\<rparr>,
      st_initialAt = 0, st_source = example_source, st_probeCtx = (None, None), st_closeErr = None\<rparr>"

lemma example_source_useful:
  "is_present (host_hostname (collectHost None example_source))"
  "is_present (collectRootFilesystem None example_source)"
  by (simp_all add: collectHost_def collectRootFilesystem_def example_source_def Let_def
      valid_utf8_ascii split: sum.split)

theorem start_exact_witness:
  "snd (startHTTP (example_environment None) default_config) = None"
proof -
  obtain rt err where r: "startHTTP (example_environment None) default_config = (rt, err)"
    by (metis prod.collapse)
  have "err = None" using start_exact [OF r] example_source_useful
    by (auto simp: example_environment_def)
  then show ?thesis using r by simp
qed

theorem start_releases_witness:
  "\<exists>obs. rt_observer (fst (startHTTP (example_environment (Some (Errno 98))) default_config)) = Some obs
     \<and> obs_stopped obs"
proof -
  obtain obs where "startHTTP (example_environment (Some (Errno 98))) default_config
      = startOutcome (example_environment (Some (Errno 98))) default_config obs"
    by (rule startHTTP_production)
  then obtain rt where r: "startHTTP (example_environment (Some (Errno 98))) default_config
      = (rt, Some (Errno 98))"
    by (simp add: startOutcome_def example_environment_def Let_def)
  show ?thesis using start_releases [OF r] r by auto
qed

section \<open>The exit code\<close>

text \<open>
  The error records \<open>run\<close> can write, and the calls on the logger when it writes a list of them
  among those of the other parts.
\<close>

definition run_errors :: "string set" where
  "run_errors =
     {''operational error: internal service failure'',
      ''operational error: service startup failed'',
      ''operational error: readiness notification failed'',
      ''operational error: HTTP server failed'',
      ''operational error: HTTP server stopped unexpectedly'',
      ''operational error: shutdown exceeded two seconds'',
      ''operational error: graceful shutdown failed'',
      ''operational error: HTTP server failed during shutdown''}"

fun runCalls :: "(nat \<Rightarrow> logCall list) \<Rightarrow> nat \<Rightarrow> string list \<Rightarrow> logCall list" where
  "runCalls others i [] = others i"
| "runCalls others i (m # own) = others i @ CallError m # runCalls others (Suc i) own"

text \<open>
  The stderr of a process whose own records are \<open>own\<close>. Before the service has started there is no
  other part that writes.
\<close>

definition process_log :: "lifecycle \<Rightarrow> Config \<Rightarrow> bool \<Rightarrow> string list \<Rightarrow> string list option" where
  "process_log lf resolved started own =
     lg_output (logCallsRun (runCalls (if started then lf_others lf else (\<lambda>_. [])) 0 own)
       (newLineLoggerWith (Some []) (logLevel resolved) (lf_clock lf)))"

lemma runCalls_own: "m \<in> set own \<Longrightarrow> CallError m \<in> set (runCalls others i own)"
  by (induction own arbitrary: i) auto

lemma process_log_shows:
  "m \<in> set own \<Longrightarrow>
     \<exists>lines t. process_log lf resolved started own = Some lines \<and> entry_line (t, logError, m) \<in> set lines"
  unfolding process_log_def by (rule error_written [OF runCalls_own])

definition error_line :: "string \<Rightarrow> bool" where
  "error_line l \<longleftrightarrow> (\<exists>t message. l = entry_line (t, logError, message))"

lemma error_line_entry [simp]: "error_line (entry_line (t, logError, message))"
  unfolding error_line_def by blast

lemma loggerError_line:
  "\<exists>line. lg_output (loggerError m (newLineLoggerWith (Some []) level clock)) = Some [line]
     \<and> error_line line"
  using writeNow_advances [of "newLineLoggerWith (Some []) level clock" logError m]
  by (cases level) (auto simp: advances_def written_def loggerError_def newLineLoggerWith_def)

text \<open>What \<open>run\<close> writes from a point on: after each record of its own, those of the other parts.\<close>

fun writtenFrom :: "lifecycle \<Rightarrow> nat \<Rightarrow> string list \<Rightarrow> lineLogger \<Rightarrow> lineLogger" where
  "writtenFrom lf i [] logger = logger"
| "writtenFrom lf i (m # own) logger = writtenFrom lf (Suc i) own (runError lf i m logger)"

lemma runCalls_written:
  "logCallsRun (runCalls (lf_others lf) i own) logger
     = writtenFrom lf (Suc i) own (othersLog lf i logger)"
  by (induction own arbitrary: i logger) (simp_all add: othersLog_def runError_def)

text \<open>
  How a stop can end: an exit code 0 after a clean shutdown with no record of \<open>run\<close>, or the exit
  code 1 with at least one. The last actions close or shut down the server.
\<close>

definition stop_actions :: "runtimeAction list \<Rightarrow> bool" where
  "stop_actions a \<longleftrightarrow>
     a = [CloseNow] \<or> a = [Shutdown] \<or> a = [Shutdown, CloseNow] \<or> a = [Shutdown, CloseNow, CloseNow]"

definition clean_end :: "lifecycle \<Rightarrow> bool" where
  "clean_end lf \<longleftrightarrow> lf_shutdown lf = None \<and> lf_served lf = Some None"

definition ended ::
    "lifecycle \<Rightarrow> nat \<Rightarrow> lineLogger \<Rightarrow> nat \<times> runtimeAction list \<times> lineLogger \<Rightarrow> bool" where
  "ended lf i logger r \<longleftrightarrow>
     (case r of (code, actions, logger') \<Rightarrow>
        stop_actions actions
        \<and> (\<exists>own. set own \<subseteq> run_errors \<and> logger' = writtenFrom lf i own logger
             \<and> (code = 0 \<and> own = [] \<and> actions = [Shutdown] \<and> clean_end lf \<or> code = 1 \<and> own \<noteq> [])))"

lemma ended_clean:
  "clean_end lf \<Longrightarrow> ended lf i logger (0, [Shutdown], logger)"
  by (auto simp: ended_def stop_actions_def intro: exI [of _ "[]"])

lemma ended_error:
  "m \<in> run_errors \<Longrightarrow> stop_actions actions \<Longrightarrow> ended lf i logger (1, actions, runError lf i m logger)"
  by (auto simp: ended_def intro: exI [of _ "[m]"])

lemma shutDown_ended: "ended lf i logger (shutDown lf i logger)"
proof -
  have error: "ended lf i logger (1, actions, runError lf i m logger)"
    if "m \<in> run_errors" "actions \<in> {[Shutdown], [Shutdown, CloseNow], [Shutdown, CloseNow, CloseNow]}"
    for m actions
    using that by (intro ended_error) (auto simp: stop_actions_def)
  show ?thesis
  proof (cases "clean_end lf")
    case True
    then show ?thesis using ended_clean [OF True] by (simp add: shutDown_def clean_end_def)
  next
    case False
    then show ?thesis
      by (cases "lf_served lf"; cases "lf_shutdown lf")
        (simp_all add: shutDown_def clean_end_def error run_errors_def del: One_nat_def)
  qed
qed

text \<open>A stop after a record of its own always ends with 1.\<close>

lemma failed_ended:
  assumes "m \<in> run_errors" "shutDown lf (Suc i) (runError lf i m logger) = (code, actions, logger')"
  shows "ended lf i logger (1, actions, logger')"
proof -
  obtain own where "stop_actions actions" "set own \<subseteq> run_errors"
      "logger' = writtenFrom lf (Suc i) own (runError lf i m logger)"
    using shutDown_ended [of lf "Suc i" "runError lf i m logger"] assms(2) by (auto simp: ended_def)
  with assms(1) show ?thesis
    by (auto simp: ended_def intro!: exI [of _ "m # own"])
qed

lemma handleEvent_ended: "ended lf 1 logger (handleEvent lf event logger)"
proof (cases event)
  case Signalled
  then show ?thesis using shutDown_ended by (simp add: handleEvent_def)
next
  case FatalReceived
  then show ?thesis
    using failed_ended [of "''operational error: internal service failure''" lf 1 logger]
    by (auto simp: handleEvent_def run_errors_def numeral_2_eq_2 split: prod.split)
next
  case (ServeReturned e)
  have "ended lf 1 logger (1, [CloseNow], runError lf 1 m logger)" if "m \<in> run_errors" for m
    using that by (intro ended_error) (simp_all add: stop_actions_def)
  then show ?thesis using ServeReturned
    by (simp add: handleEvent_def unexpectedServeExit_def run_errors_def del: One_nat_def)
qed

lemma runForeground_ended:
  assumes "runForeground lf environment logger = (code, actions, logger')"
  shows "\<exists>notified stop. actions = notified @ stop \<and> notified \<in> {[], [NotifyReady]}
    \<and> ended lf 1 (othersLog lf 0 logger) (code, stop, logger')"
proof (cases "lf_first lf")
  case (Some event)
  then show ?thesis using assms handleEvent_ended [of lf "othersLog lf 0 logger" event]
    by (intro exI [of _ "[]"] exI [of _ actions]) (simp add: runForeground_def)
next
  case None
  obtain gate r sent where n: "notifyGate lf environment newReadinessGate = (gate, r, sent)"
    by (metis prod.collapse)
  let ?logger = "othersLog lf 0 logger"
  let ?message = "if hasFatal (detectedIf (lf_fatalAfter lf) gate)
     then ''operational error: internal service failure''
     else ''operational error: readiness notification failed''"
  have "\<exists>stop. actions = (if sent then [NotifyReady] else []) @ stop
      \<and> ended lf 1 ?logger (code, stop, logger')"
  proof (cases "r \<noteq> None")
    case True
    show ?thesis
    proof (cases "lf_cancelledNotifying lf")
      case True
      then show ?thesis using assms n \<open>r \<noteq> None\<close> None shutDown_ended [of lf 1 ?logger]
        by (auto simp: runForeground_def Let_def split: prod.splits)
    next
      case False
      have m: "?message \<in> run_errors" by (simp add: run_errors_def)
      obtain c a l where s: "shutDown lf 2 (runError lf 1 ?message ?logger) = (c, a, l)"
        by (metis prod.collapse)
      have "ended lf 1 ?logger (1, a, l)"
        by (rule failed_ended [OF m]) (use s in \<open>simp add: numeral_2_eq_2\<close>)
      then show ?thesis using assms n \<open>r \<noteq> None\<close> None False s
        by (cases sent) (auto simp: runForeground_def Let_def)
    qed
  next
    case False
    then show ?thesis using assms n None handleEvent_ended [of lf ?logger "lf_second lf"]
      by (auto simp: runForeground_def Let_def split: prod.splits)
  qed
  then obtain stop where "actions = (if sent then [NotifyReady] else []) @ stop"
      "ended lf 1 ?logger (code, stop, logger')" by blast
  then show ?thesis
    by (intro exI [of _ "if sent then [NotifyReady] else []"] exI [of _ stop]) simp
qed

text \<open>A process that started its server: its log and its exit code.\<close>

lemma run_started:
  assumes "runForeground lf environment (newLineLoggerWith (Some []) (logLevel resolved) (lf_clock lf))
      = (code, actions, logger')"
  shows "\<exists>own. set own \<subseteq> run_errors \<and> lg_output logger' = process_log lf resolved True own
    \<and> (code = 0 \<and> own = [] \<and> clean_end lf \<or> code = 1 \<and> own \<noteq> [])"
  using runForeground_ended [OF assms] runCalls_written [of lf 0]
  by (auto simp: ended_def process_log_def)

text \<open>The errors of \<open>Resolve\<close>: the help request, or a text.\<close>

definition plain_error :: "goerror \<Rightarrow> bool" where
  "plain_error e \<longleftrightarrow> (\<exists>m. e = New m)"

lemma plain_error_New [simp]: "plain_error (New m)" "plain_error (configurationError m)"
  by (simp_all add: plain_error_def configurationError_def)

lemma parse_errors_plain:
  "parseAddress v = Inl e \<Longrightarrow> plain_error e" "parsePort v = Inl e \<Longrightarrow> plain_error e"
  "parseBoolean v = Inl e \<Longrightarrow> plain_error e" "parseLogLevel v = Inl e \<Longrightarrow> plain_error e"
  by (auto simp: parseAddress_def parsePort_def parseBoolean_def parseLogLevel_def
      split: sum.splits if_splits)

lemma parseEnvironmentFrom_plain: "parseEnvironmentFrom values es = Inl e \<Longrightarrow> plain_error e"
  by (induction "values" es rule: parseEnvironmentFrom.induct)
    (auto simp: Let_def split: prod.splits if_splits)

lemma parseCommandLineFrom_plain: "parseCommandLineFrom values args = Inl e \<Longrightarrow> plain_error e"
proof (induction "values" args rule: parseCommandLineFrom.induct)
  case (2 "values" argument rest)
  then show ?case
    by (auto simp: Let_def fun_upd_def split: prod.splits if_splits list.splits)
qed simp

lemma Resolve_errors: "Resolve args environment = Inl e \<Longrightarrow> e = ErrHelp \<or> plain_error e"
  by (auto simp: Resolve_def Let_def go_bind_Inl_iff parseCommandLine_def parseEnvironment_def
      split: if_splits
      dest: parseCommandLineFrom_plain parseEnvironmentFrom_plain parse_errors_plain)

definition example_lifecycle :: lifecycle where
  "example_lifecycle =
     \<lparr>lf_clock = (\<lambda>_. 0), lf_cancelledEarly = False, lf_start = (\<lambda>_. None), lf_cancelledStarting = False,
      lf_fatalStarting = False, lf_first = None, lf_fatalBefore = False, lf_notifyCtx = None,
      lf_notifyReady = Some (\<lambda>_. None), lf_fatalDuring = False, lf_cancelledNotifying = False,
      lf_fatalAfter = False, lf_second = Signalled, lf_shutdown = None, lf_served = Some None,
      lf_others = (\<lambda>_. [])\<rparr>"

lemma example_run: "run example_lifecycle [] [] = (0, [], Some [], [Start, NotifyReady, Shutdown])"
  by (simp add: run_def default_resolves example_lifecycle_def Let_def runForeground_def notifyGate_def
      detectedIf_def gate_defs handleEvent_def shutDown_def
      newLineLoggerWith_def othersLog_def)

text \<open>A service with a fatal error, whose HTTP server also logs an error before and after it.\<close>

definition example_failing :: lifecycle where
  "example_failing =
     example_lifecycle\<lparr>lf_first := Some FatalReceived,
       lf_others := (\<lambda>i. if i < 2 then [CallWrite ''http: Accept error''] else [])\<rparr>"

text \<open>
  C17 (run_exit_code): the exit code is 2 exactly for a configuration error, with one line on stderr
  and nothing else done; otherwise it is 0 or 1. With the exit code 1, stderr has at least one error
  record of \<open>run\<close> itself, whatever the configured log level; with 0 it has none, so that every
  line on it comes from the service's other users of the logger (the degradation reporter and the
  HTTP server's \<open>ErrorLog\<close>), and stderr is empty when the service never started. A started service
  ends with 0 only after a \<open>Shutdown\<close> and a \<open>Serve\<close> that both returned nil in time.
\<close>

theorem run_exit_code:
  assumes "run lf args environment = (code, out, err, actions)"
  shows "(code = 2 \<longleftrightarrow> (\<exists>m. Resolve args environment = Inl (New m)
             \<and> err = Some [''joy-pi-health: configuration error: '' @ m @ [CHR 0x0A]]
             \<and> out = [] \<and> actions = []))
    \<and> code \<le> 2
    \<and> (code = 1 \<longrightarrow> (\<exists>resolved own. Resolve args environment = Inr resolved
          \<and> own \<noteq> [] \<and> set own \<subseteq> run_errors
          \<and> err = process_log lf resolved (actions \<noteq> []) own
          \<and> (\<forall>m\<in>set own. \<exists>lines t. err = Some lines \<and> entry_line (t, logError, m) \<in> set lines)))
    \<and> (code = 0 \<longrightarrow>
          Resolve args environment = Inl ErrHelp \<and> out = [HelpText] \<and> err = Some [] \<and> actions = []
          \<or> (\<exists>resolved. Resolve args environment = Inr resolved
               \<and> err = process_log lf resolved (actions \<noteq> []) []
               \<and> (actions = [] \<longrightarrow> err = Some [])))
    \<and> (code = 0 \<and> actions \<noteq> [] \<longrightarrow> clean_end lf)"
proof (cases "Resolve args environment")
  case (Inl e)
  show ?thesis
  proof (cases "e = ErrHelp")
    case True
    then show ?thesis using assms Inl by (auto simp: run_def)
  next
    case False
    then obtain m where "e = New m" using Resolve_errors [OF Inl] by (auto simp: plain_error_def)
    then show ?thesis using assms Inl by (auto simp: run_def)
  qed
next
  case (Inr resolved)
  let ?logger = "newLineLoggerWith (Some []) (logLevel resolved) (lf_clock lf)"
  have new: "lg_output ?logger = Some []" by (simp add: newLineLoggerWith_def)
  have "\<exists>own. set own \<subseteq> run_errors \<and> err = process_log lf resolved (actions \<noteq> []) own
      \<and> (actions = [] \<and> own = [] \<longrightarrow> err = Some [])
      \<and> (code = 0 \<and> own = [] \<and> (actions = [] \<or> clean_end lf) \<or> code = 1 \<and> own \<noteq> [])"
  proof (cases "lf_cancelledEarly lf \<or> lf_start lf resolved \<noteq> None \<and> lf_cancelledStarting lf")
    case True
    then have "code = 0 \<and> err = lg_output ?logger \<and> actions = []" using assms Inr
      by (cases "lf_cancelledEarly lf"; cases "lf_start lf resolved") (simp_all add: run_def Let_def)
    then show ?thesis using new
      by (intro exI [of _ "[]"]) (simp add: process_log_def)
  next
    case early: False
    show ?thesis
    proof (cases "lf_start lf resolved")
      case (Some e)
      let ?m = "if lf_fatalStarting lf then ''operational error: internal service failure''
        else ''operational error: service startup failed''"
      have "?m \<in> run_errors" by (simp add: run_errors_def)
      then show ?thesis using assms Inr early Some
        by (intro exI [of _ "[?m]"]) (simp add: run_def Let_def process_log_def)
    next
      case None
      obtain c a l where r: "runForeground lf environment ?logger = (c, a, l)" by (metis prod.collapse)
      have "code = c" "err = lg_output l" "actions = Start # a"
        using assms Inr early None r by (simp_all add: run_def Let_def)
      then show ?thesis using run_started [OF r] by auto
    qed
  qed
  then obtain own where own: "set own \<subseteq> run_errors" "err = process_log lf resolved (actions \<noteq> []) own"
      "actions = [] \<and> own = [] \<longrightarrow> err = Some []"
      "code = 0 \<and> own = [] \<and> (actions = [] \<or> clean_end lf) \<or> code = 1 \<and> own \<noteq> []"
    by blast
  have shown: "\<forall>m\<in>set own. \<exists>lines t. err = Some lines \<and> entry_line (t, logError, m) \<in> set lines"
    unfolding own(2) using process_log_shows by blast
  show ?thesis
  proof (cases "own = []")
    case True
    then show ?thesis using own Inr by auto
  next
    case False
    then have "code = 1" using own(4) by simp
    then show ?thesis using own(1,2) False shown Inr by auto
  qed
qed

theorem run_exit_code_witness:
  "\<exists>out actions lines t m. run example_failing [] [] = (1, out, Some lines, actions)
     \<and> m \<in> run_errors \<and> entry_line (t, logError, m) \<in> set lines"
proof -
  obtain code out err actions where r: "run example_failing [] [] = (code, out, err, actions)"
    by (metis prod.collapse)
  have one: "code = 1" using r
    by (auto simp: run_def default_resolves example_failing_def example_lifecycle_def Let_def
        runForeground_def handleEvent_def split: prod.splits)
  obtain own m where "m \<in> set own" "set own \<subseteq> run_errors"
      "\<exists>lines t. err = Some lines \<and> entry_line (t, logError, m) \<in> set lines"
    using run_exit_code [OF r] one by (metis list.set_intros(1) neq_Nil_conv)
  then show ?thesis using r one by blast
qed

text \<open>
  C28 (run_stops_server): the service is started at most once; readiness is notified at most once,
  only while the service runs; and once started, whatever happens, the process ends by shutting
  the server down or closing it.
\<close>

theorem run_stops_server:
  assumes "run lf args environment = (code, out, err, actions)"
  shows "actions = []
    \<or> (\<exists>notified stop. actions = Start # notified @ stop
         \<and> (notified = [] \<or> notified = [NotifyReady]) \<and> stop_actions stop)"
proof (cases "\<exists>resolved. Resolve args environment = Inr resolved \<and> \<not> lf_cancelledEarly lf
    \<and> lf_start lf resolved = None")
  case True
  then obtain resolved where r: "Resolve args environment = Inr resolved" "\<not> lf_cancelledEarly lf"
    "lf_start lf resolved = None" by blast
  let ?logger = "newLineLoggerWith (Some []) (logLevel resolved) (lf_clock lf)"
  obtain c a l where f: "runForeground lf environment ?logger = (c, a, l)" by (metis prod.collapse)
  then have "actions = Start # a" using assms r by (simp add: run_def Let_def)
  then show ?thesis using runForeground_ended [OF f] by (auto simp: ended_def)
next
  case False
  then show ?thesis using assms
    by (auto simp: run_def Let_def split: sum.splits if_splits option.splits)
qed

theorem run_stops_server_witness: "stop_actions [Shutdown]"
  using run_stops_server [OF example_run] by (auto simp: stop_actions_def)

end
