(* ===== verification/PlatformSource.thy ===== *)
theory PlatformSource
  imports Netlink RaspberryPi Cpu Network
begin

text \<open>
  \<open>internal/platform/source_linux.go\<close> and \<open>thermal_linux.go\<close>: the production sources, as bounded
  reads of kernel files, the resolution of device links and the names of thermal zones. The file
  system is a parameter: what opening and reading a path gives, and what a symbolic link holds.
  The file-path functions of the standard library are modelled first.
\<close>

section \<open>File paths of the standard library\<close>

abbreviation (input) slash :: char where "slash \<equiv> CHR ''/''"

text \<open>\<open>filepath.Base\<close>.\<close>

definition path_base :: "string \<Rightarrow> string" where
  "path_base p =
     (if p = [] then ''.''
      else (let q = rev (dropWhile (\<lambda>c. c = slash) (rev p))
            in if q = [] then [slash] else rev (takeWhile (\<lambda>c. c \<noteq> slash) (rev q))))"

definition path_is_abs :: "string \<Rightarrow> bool" where
  "path_is_abs p \<longleftrightarrow> has_prefix p [slash]"

text \<open>
  \<open>filepath.Clean\<close> on an absolute path: empty components and \<open>.\<close> disappear, and \<open>..\<close> takes
  the component before it, if any. The components kept so far are in reverse order.
\<close>

fun clean_parts :: "string list \<Rightarrow> string list \<Rightarrow> string list" where
  "clean_parts kept [] = rev kept"
| "clean_parts kept (p # ps) =
     (if p = [] \<or> p = ''.'' then clean_parts kept ps
      else if p = ''..'' then clean_parts (tl kept) ps
      else clean_parts (p # kept) ps)"

definition path_clean :: "string \<Rightarrow> string" where
  "path_clean p = slash # join slash (clean_parts [] (split_on slash p))"

text \<open>\<open>filepath.Join\<close> on an absolute directory and a non-empty name.\<close>

definition path_join :: "string \<Rightarrow> string \<Rightarrow> string" where
  "path_join dir name = path_clean (dir @ slash # name)"

section \<open>Bounded reads\<close>

definition uptimePath :: string where "uptimePath = ''/proc/uptime''"
definition cpuStatPath :: string where "cpuStatPath = ''/proc/stat''"
definition bootIDPath :: string where "bootIDPath = ''/proc/sys/kernel/random/boot_id''"
definition cpuOnlinePath :: string where "cpuOnlinePath = ''/sys/devices/system/cpu/online''"
definition loadPath :: string where "loadPath = ''/proc/loadavg''"
definition memoryPath :: string where "memoryPath = ''/proc/meminfo''"
definition networkPath :: string where "networkPath = ''/sys/class/net''"

definition maximumUptimeBytes :: nat where "maximumUptimeBytes = 128"
definition maximumCPUStatBytes :: nat where "maximumCPUStatBytes = 512"
definition maximumBootIDBytes :: nat where "maximumBootIDBytes = 128"
definition maximumCPUBytes :: nat where "maximumCPUBytes = 4 * 1024"
definition maximumLoadBytes :: nat where "maximumLoadBytes = 256"
definition maximumMemoryBytes :: nat where "maximumMemoryBytes = 64 * 1024"

text \<open>
  An open file: the bytes it delivers and the error that ends them, \<open>None\<close> for the end of the
  file. A limited reader ends after its limit and does not see what comes after.
\<close>

record fileContent =
  fc_data :: string
  fc_end :: "goerror option"

type_synonym fileSystem = "string \<Rightarrow> fileContent go"

definition limited :: "nat \<Rightarrow> fileContent \<Rightarrow> fileContent" where
  "limited n f =
     (if n \<le> length (fc_data f) then \<lparr>fc_data = take n (fc_data f), fc_end = None\<rparr> else f)"

definition readBounded :: "fileSystem \<Rightarrow> string \<Rightarrow> nat \<Rightarrow> string go" where
  "readBounded fs path maximum =
     (case fs path of
        Inl e \<Rightarrow> Inl e
      | Inr file \<Rightarrow>
          (let f = limited (maximum + 1) file
           in case fc_end f of
                Some e \<Rightarrow> Inl e
              | None \<Rightarrow>
                  if length (fc_data f) > maximum
                  then Inl (Errorf ''%s exceeds %d bytes'' [FStr path, FInt (int maximum)])
                  else Inr (fc_data f)))"

text \<open>\<open>bufio.Reader.ReadBytes\<close> with a newline: up to and with it, or all and the end.\<close>

definition readFirstLineBounded :: "fileSystem \<Rightarrow> string \<Rightarrow> nat \<Rightarrow> string go" where
  "readFirstLineBounded fs path maximum =
     (case fs path of
        Inl e \<Rightarrow> Inl e
      | Inr file \<Rightarrow>
          (let f = limited (maximum + 1) file;
               (data, err) =
                 (if CHR 0x0A \<in> set (fc_data f)
                  then (takeWhile (\<lambda>c. c \<noteq> CHR 0x0A) (fc_data f) @ [CHR 0x0A], None)
                  else (fc_data f, Some (case fc_end f of None \<Rightarrow> IoEOF | Some e \<Rightarrow> e)))
           in if err \<noteq> None \<and> \<not> errors_is (the err) IoEOF then Inl (the err)
              else if length data > maximum \<or> length data = 0
              then Inl (Errorf ''%s first line is empty or exceeds %d bytes''
                          [FStr path, FInt (int maximum)])
              else Inr data))"

section \<open>The root filesystem\<close>

text \<open>The fields of \<open>syscall.Statfs_t\<close> that are read; the sizes are signed.\<close>

record statfs =
  Frsize :: "64 word"
  Bsize :: "64 word"
  Blocks :: u64
  Bavail :: u64

definition RootFilesystem :: "statfs go \<Rightarrow> Filesystem go" where
  "RootFilesystem statfsResult =
     (case statfsResult of
        Inl e \<Rightarrow> Inl e
      | Inr state \<Rightarrow>
          (let blockSize = (if sint (Frsize state) \<le> 0 then Bsize state else Frsize state)
           in if sint blockSize \<le> 0
              then Inl (New ''filesystem reported a non-positive block size'')
              else Inr \<lparr>BlockSize = blockSize, TotalBlocks = Blocks state, AvailableBlocks = Bavail state\<rparr>))"

section \<open>Links\<close>

definition safe_name :: "string \<Rightarrow> bool" where
  "safe_name name \<longleftrightarrow>
     \<not> (name = [] \<or> path_base name \<noteq> name \<or> slash \<in> set name \<or> CHR 0x5C \<in> set name)"

definition resolvePath :: "string \<Rightarrow> string" where
  "resolvePath target =
     (if \<not> path_is_abs target then path_clean (path_join networkPath target) else path_clean target)"

fun resolveLinks :: "(string \<Rightarrow> string go) \<Rightarrow> Link list \<Rightarrow> Link list go" where
  "resolveLinks readlink [] = Inr []"
| "resolveLinks readlink (l # ls) =
     (if \<not> safe_name (LinkName l)
      then Inl (Errorf ''interface name %q cannot be resolved safely'' [FStr (LinkName l)])
      else (case readlink (path_join networkPath (LinkName l)) of
              Inl e \<Rightarrow> Inl (Wrapf ''resolve interface %q: %w'' [FStr (LinkName l)] e)
            | Inr target \<Rightarrow>
                go_bind (resolveLinks readlink ls) (\<lambda>rest.
                  Inr (l\<lparr>DevicePath := resolvePath target\<rparr> # rest))))"

definition Links :: "Link list go \<Rightarrow> (string \<Rightarrow> string go) \<Rightarrow> Link list go" where
  "Links dump readlink =
     (case dump of
        Inl e \<Rightarrow> Inl e
      | Inr links \<Rightarrow>
          if length links > maximumLinks then Inl ErrTooManyLinks else resolveLinks readlink links)"

section \<open>Thermal zones\<close>

definition thermalRoot :: string where "thermalRoot = ''/sys/class/thermal''"
definition maximumThermalZones :: nat where "maximumThermalZones = 64"
definition maximumThermalValue :: nat where "maximumThermalValue = 128"

text \<open>The test both functions make of the number after the prefix.\<close>

definition zone_index_ok :: "string \<Rightarrow> bool" where
  "zone_index_ok name \<longleftrightarrow>
     trim_prefix name ''thermal_zone'' \<noteq> []
     \<and> (case parse_uint 10 31 (trim_prefix name ''thermal_zone'') of Inl e \<Rightarrow> False | Inr n \<Rightarrow> True)"

fun zoneNames :: "string list \<Rightarrow> string list \<Rightarrow> string list go" where
  "zoneNames names [] = Inr names"
| "zoneNames names (entry # rest) =
     (if \<not> has_prefix entry ''thermal_zone'' then zoneNames names rest
      else if \<not> zone_index_ok entry then zoneNames names rest
      else if length (names @ [entry]) > maximumThermalZones
      then Inl (Errorf ''thermal zone count exceeds %d'' [FInt (int maximumThermalZones)])
      else zoneNames (names @ [entry]) rest)"

definition ThermalZoneNames :: "string list go \<Rightarrow> string list go" where
  "ThermalZoneNames entries = (case entries of Inl e \<Rightarrow> Inl e | Inr es \<Rightarrow> zoneNames [] es)"

definition zonePath :: "string \<Rightarrow> string \<Rightarrow> string \<Rightarrow> string go" where
  "zonePath dir name attribute =
     (if \<not> has_prefix name ''thermal_zone'' \<or> path_base name \<noteq> name
         \<or> slash \<in> set name \<or> CHR 0x5C \<in> set name
      then Inl (Errorf ''invalid thermal zone name %q'' [FStr name])
      else if \<not> zone_index_ok name
      then Inl (Errorf ''invalid thermal zone name %q'' [FStr name])
      else Inr (path_clean (dir @ slash # name @ slash # attribute)))"

definition readZone :: "fileSystem \<Rightarrow> string \<Rightarrow> string \<Rightarrow> string \<Rightarrow> string go" where
  "readZone fs dir attribute name =
     go_bind (zonePath dir name attribute) (\<lambda>path. readBounded fs path maximumThermalValue)"

section \<open>The production sources\<close>

text \<open>
  What the operating system answers: the host name, the files, \<open>statfs\<close> of the root, the entries
  of a directory, and the targets of symbolic links.
\<close>

record operatingSystem =
  os_hostname :: "string go"
  os_files :: fileSystem
  os_statfs :: "statfs go"
  os_readDir :: "string \<Rightarrow> string list go"
  os_readlink :: "string \<Rightarrow> string go"

definition linuxSource :: "operatingSystem \<Rightarrow> genericSource" where
  "linuxSource sys =
     \<lparr>src_hostname = os_hostname sys,
      src_uptime = readBounded (os_files sys) uptimePath maximumUptimeBytes,
      src_cpuOnline = readBounded (os_files sys) cpuOnlinePath maximumCPUBytes,
      src_loadAverage = readBounded (os_files sys) loadPath maximumLoadBytes,
      src_memoryInfo = readBounded (os_files sys) memoryPath maximumMemoryBytes,
      src_rootFilesystem = RootFilesystem (os_statfs sys)\<rparr>"

definition linuxCPUSource :: "operatingSystem \<Rightarrow> cpuSource" where
  "linuxCPUSource sys =
     \<lparr>cpu_stat = readFirstLineBounded (os_files sys) cpuStatPath maximumCPUStatBytes,
      cpu_online = readBounded (os_files sys) cpuOnlinePath maximumCPUBytes,
      cpu_bootID = readBounded (os_files sys) bootIDPath maximumBootIDBytes,
      cpu_uptime = readBounded (os_files sys) uptimePath maximumUptimeBytes\<rparr>"

definition linuxThermalSource :: "operatingSystem \<Rightarrow> thermalSource" where
  "linuxThermalSource sys =
     \<lparr>th_names = ThermalZoneNames (os_readDir sys thermalRoot),
      th_type = readZone (os_files sys) thermalRoot ''type'',
      th_temperature = readZone (os_files sys) thermalRoot ''temp''\<rparr>"

section \<open>Clean paths\<close>

definition path_part :: "string \<Rightarrow> bool" where
  "path_part p \<longleftrightarrow> p \<noteq> [] \<and> p \<noteq> ''.'' \<and> p \<noteq> ''..'' \<and> slash \<notin> set p"

text \<open>An absolute path without empty, \<open>.\<close> and \<open>..\<close> components.\<close>

definition clean_path :: "string \<Rightarrow> bool" where
  "clean_path s \<longleftrightarrow> (\<exists>parts. s = slash # join slash parts \<and> list_all path_part parts)"

lemma clean_parts_parts:
  "list_all path_part kept \<Longrightarrow> \<forall>p\<in>set ps. slash \<notin> set p \<Longrightarrow> list_all path_part (clean_parts kept ps)"
proof (induction kept ps rule: clean_parts.induct)
  case (1 kept)
  then show ?case by (auto simp: list_all_iff)
next
  case (2 kept p ps)
  have "list_all path_part (tl kept)" using 2(4) by (cases kept) auto
  moreover have "path_part p" if "p \<noteq> []" "p \<noteq> ''.''" "p \<noteq> ''..''"
    using that 2(5) by (simp add: path_part_def)
  ultimately show ?case using 2 by simp
qed

lemma path_clean_clean: "clean_path (path_clean p)"
  unfolding clean_path_def path_clean_def
  using clean_parts_parts [of "[]" "split_on slash p"] split_on_no_sep by (intro exI conjI refl) auto

lemma clean_parts_id: "list_all path_part ps \<Longrightarrow> clean_parts kept ps = rev kept @ ps"
  by (induction kept ps rule: clean_parts.induct) (auto simp: path_part_def)

lemma path_clean_parts:
  "ps \<noteq> [] \<Longrightarrow> \<forall>p\<in>set ps. slash \<notin> set p \<Longrightarrow>
     path_clean (slash # join slash ps) = slash # join slash (clean_parts [] ps)"
  by (simp add: path_clean_def split_on_join)

text \<open>A path whose parts are already clean is unchanged.\<close>

lemma path_clean_join:
  assumes "ps \<noteq> []" "list_all path_part ps"
  shows "path_clean (slash # join slash ps) = slash # join slash ps"
  using assms path_clean_parts [OF assms(1)] by (simp add: clean_parts_id list_all_iff path_part_def)

lemma resolvePath_clean: "clean_path (resolvePath target)"
  by (simp add: resolvePath_def path_clean_clean)

section \<open>Thermal zones: a listed zone has a path\<close>

lemma zone_name_shape:
  assumes "has_prefix name ''thermal_zone''" "zone_index_ok name"
  obtains ds where "name = ''thermal_zone'' @ ds" "ds \<noteq> []" "\<forall>c\<in>set ds. is_digit c"
proof -
  let ?ds = "trim_prefix name ''thermal_zone''"
  have n: "name = ''thermal_zone'' @ ?ds"
    using assms(1) append_take_drop_id [of "length ''thermal_zone''" name]
    by (simp add: has_prefix_def trim_prefix_def)
  have "?ds \<noteq> [] \<and> (\<forall>c\<in>set ?ds. is_digit c)"
    using assms(2) by (auto simp: zone_index_ok_def parse_uint_iff split: sum.splits)
  then show thesis using that n by blast
qed

lemma path_base_plain:
  assumes "p \<noteq> []" "slash \<notin> set p"
  shows "path_base p = p"
proof -
  have "dropWhile (\<lambda>c. c = slash) (rev p) = rev p"
    using assms by (cases p rule: rev_cases) auto
  moreover have "takeWhile (\<lambda>c. c \<noteq> slash) (rev p) = rev p"
    using assms(2) by (intro takeWhile_eq_all_conv [THEN iffD2]) auto
  then have "rev (takeWhile (\<lambda>c. c \<noteq> slash) (rev p)) = p" by (metis rev_rev_ident)
  ultimately show ?thesis using assms by (simp add: path_base_def)
qed

lemma zone_name_plain:
  assumes "has_prefix name ''thermal_zone''" "zone_index_ok name"
  shows "slash \<notin> set name" "CHR 0x5C \<notin> set name" "path_base name = name" "path_part name"
proof -
  obtain ds where n: "name = ''thermal_zone'' @ ds" "\<forall>c\<in>set ds. is_digit c"
    using zone_name_shape [OF assms] by blast
  have "slash \<notin> set ds" "CHR 0x5C \<notin> set ds" using n(2) by (auto simp: is_digit_def)
  then show s: "slash \<notin> set name" and "CHR 0x5C \<notin> set name" using n(1) by auto
  then show "path_base name = name" using n(1) by (intro path_base_plain) auto
  show "path_part name" using n(1) s by (auto simp: path_part_def)
qed

lemma zonePath_listed:
  assumes "has_prefix name ''thermal_zone''" "zone_index_ok name" "path_part attribute"
  shows "zonePath thermalRoot name attribute = Inr (thermalRoot @ slash # name @ slash # attribute)"
proof -
  let ?ps = "[''sys'', ''class'', ''thermal'', name, attribute]"
  have "list_all path_part ?ps"
    using zone_name_plain(4) [OF assms(1,2)] assms(3) by (simp add: path_part_def)
  then have "path_clean (slash # join slash ?ps) = slash # join slash ?ps"
    by (intro path_clean_join) simp_all
  moreover have "slash # join slash ?ps = thermalRoot @ slash # name @ slash # attribute"
    by (simp add: thermalRoot_def)
  ultimately have "path_clean (thermalRoot @ slash # name @ slash # attribute)
      = thermalRoot @ slash # name @ slash # attribute" by metis
  then show ?thesis
    using assms(1,2) zone_name_plain(1-3) [OF assms(1,2)] by (simp add: zonePath_def)
qed

definition zone_entry :: "string \<Rightarrow> bool" where
  "zone_entry name \<longleftrightarrow> has_prefix name ''thermal_zone'' \<and> zone_index_ok name"

lemma zoneNames_Inr:
  "zoneNames acc es = Inr names \<Longrightarrow> length acc \<le> maximumThermalZones \<Longrightarrow>
     names = acc @ filter zone_entry es \<and> length names \<le> maximumThermalZones"
  by (induction acc es rule: zoneNames.induct) (auto simp: zone_entry_def split: if_splits)

lemma zoneNames_total:
  "length (acc @ filter zone_entry es) \<le> maximumThermalZones \<Longrightarrow>
     zoneNames acc es = Inr (acc @ filter zone_entry es)"
  by (induction acc es rule: zoneNames.induct) (auto simp: zone_entry_def)

section \<open>Properties\<close>

text \<open>
  A bounded read gives the whole file or an error, never a truncated value:
  it succeeds exactly when the file opens, is read to its end without an error and has at most the
  maximal length, and then gives all its bytes. The first line is given whole too.
\<close>

theorem reads_complete:
  shows "(readBounded fs path maximum = Inr data \<longleftrightarrow>
      (\<exists>f. fs path = Inr f \<and> fc_data f = data \<and> fc_end f = None \<and> length data \<le> maximum))
    \<and> (case readFirstLineBounded fs path maximum of
         Inl e \<Rightarrow> True
       | Inr line \<Rightarrow> line \<noteq> [] \<and> length line \<le> maximum \<and>
           (case fs path of
              Inl e \<Rightarrow> False
            | Inr f \<Rightarrow> (\<exists>rest. fc_data f = line @ rest)
                \<and> (CHR 0x0A \<in> set line \<and> last line = CHR 0x0A \<and> CHR 0x0A \<notin> set (butlast line)
                   \<or> fc_data f = line)))"
proof
  show "readBounded fs path maximum = Inr data \<longleftrightarrow>
      (\<exists>f. fs path = Inr f \<and> fc_data f = data \<and> fc_end f = None \<and> length data \<le> maximum)"
    by (auto simp: readBounded_def limited_def Let_def split: sum.splits option.splits if_splits)
next
  show "case readFirstLineBounded fs path maximum of
         Inl e \<Rightarrow> True
       | Inr line \<Rightarrow> line \<noteq> [] \<and> length line \<le> maximum \<and>
           (case fs path of
              Inl e \<Rightarrow> False
            | Inr f \<Rightarrow> (\<exists>rest. fc_data f = line @ rest)
                \<and> (CHR 0x0A \<in> set line \<and> last line = CHR 0x0A \<and> CHR 0x0A \<notin> set (butlast line)
                   \<or> fc_data f = line))"
  proof (cases "readFirstLineBounded fs path maximum")
    case (Inr line)
    then obtain f where f: "fs path = Inr f" and bounds: "line \<noteq> []" "length line \<le> maximum"
      by (auto simp: readFirstLineBounded_def Let_def split: sum.splits prod.splits if_splits)
    let ?l = "limited (maximum + 1) f"
    have prefix: "\<exists>rest. fc_data f = fc_data ?l @ rest"
      by (auto simp: limited_def intro: exI [of _ "drop (maximum + 1) (fc_data f)"])
    show ?thesis
    proof (cases "CHR 0x0A \<in> set (fc_data ?l)")
      case True
      then have line: "line = takeWhile (\<lambda>c. c \<noteq> CHR 0x0A) (fc_data ?l) @ [CHR 0x0A]"
        using Inr f by (auto simp: readFirstLineBounded_def Let_def split: if_splits)
      obtain a b where ab: "fc_data ?l = a @ CHR 0x0A # b" "CHR 0x0A \<notin> set a"
        using True split_list_first by fastforce
      then have "takeWhile (\<lambda>c. c \<noteq> CHR 0x0A) (fc_data ?l) = a"
        by (simp add: takeWhile_append)
      then have "line = a @ [CHR 0x0A]" using line by simp
      then show ?thesis using Inr f bounds prefix ab by auto
    next
      case False
      then have "line = fc_data ?l"
        using Inr f by (auto simp: readFirstLineBounded_def Let_def split: if_splits)
      moreover have "fc_data ?l = fc_data f"
        using bounds calculation by (auto simp: limited_def)
      ultimately show ?thesis using Inr f bounds by auto
    qed
  qed simp
qed

text \<open>
  Of a directory's entries exactly those named \<open>thermal_zone\<close> and a
  decimal number below \<open>2^31\<close> are listed, in order, up to 64; each listed name is accepted when its
  attributes are read, and its path stays inside the thermal directory.
\<close>

theorem thermal_zones_listed:
  shows "(ThermalZoneNames (Inr es) = Inr names \<longleftrightarrow>
      names = filter zone_entry es \<and> length (filter zone_entry es) \<le> 64)
    \<and> list_all (\<lambda>name. zonePath thermalRoot name ''type'' = Inr (''/sys/class/thermal/'' @ name @ ''/type'')
        \<and> zonePath thermalRoot name ''temp'' = Inr (''/sys/class/thermal/'' @ name @ ''/temp''))
        (filter zone_entry es)"
proof
  have "zoneNames [] es = Inr names \<longleftrightarrow>
      names = filter zone_entry es \<and> length (filter zone_entry es) \<le> maximumThermalZones"
    using zoneNames_Inr [of "[]" es names] zoneNames_total [of "[]" es] by auto
  then show "ThermalZoneNames (Inr es) = Inr names \<longleftrightarrow>
      names = filter zone_entry es \<and> length (filter zone_entry es) \<le> 64"
    by (simp add: ThermalZoneNames_def maximumThermalZones_def)
  have "path_part ''type''" "path_part ''temp''" by (simp_all add: path_part_def)
  then show "list_all (\<lambda>name. zonePath thermalRoot name ''type'' = Inr (''/sys/class/thermal/'' @ name @ ''/type'')
        \<and> zonePath thermalRoot name ''temp'' = Inr (''/sys/class/thermal/'' @ name @ ''/temp''))
        (filter zone_entry es)"
    using zonePath_listed by (auto simp: list_all_iff zone_entry_def thermalRoot_def)
qed

text \<open>The link of a name, as the code reads it.\<close>

definition link_target :: "(string \<Rightarrow> string go) \<Rightarrow> Link \<Rightarrow> string go" where
  "link_target readlink l = readlink (path_join networkPath (LinkName l))"

text \<open>
  What a resolved link is, independently of the code's path functions. A plain name has no
  separator. A path is walked component by component from a directory, the list of the components
  from the root: an empty component and \<open>.\<close> stay, \<open>..\<close> goes up (and stays at the root).
\<close>

definition plain_name :: "string \<Rightarrow> bool" where
  "plain_name name \<longleftrightarrow> name \<noteq> [] \<and> CHR ''/'' \<notin> set name \<and> CHR 0x5C \<notin> set name"

fun walk :: "string list \<Rightarrow> string list \<Rightarrow> string list" where
  "walk dir [] = dir"
| "walk dir (p # ps) =
     walk (if p = [] \<or> p = ''.'' then dir else if p = ''..'' then butlast dir else dir @ [p]) ps"

definition rooted :: "string list \<Rightarrow> string" where
  "rooted parts = CHR ''/'' # join CHR ''/'' parts"

definition net_directory :: "string list" where
  "net_directory = [''sys'', ''class'', ''net'']"

text \<open>The entry of an interface, and where a target read there leads.\<close>

definition link_entry :: "string \<Rightarrow> string" where
  "link_entry name = rooted (walk net_directory [name])"

definition link_place :: "string \<Rightarrow> string" where
  "link_place target =
     rooted (walk (if has_prefix target ''/'' then [] else net_directory) (split_on CHR ''/'' target))"

definition resolved :: "(string \<Rightarrow> string go) \<Rightarrow> Link \<Rightarrow> Link \<Rightarrow> bool" where
  "resolved readlink l l' \<longleftrightarrow>
     plain_name (LinkName l)
     \<and> (\<exists>target. readlink (link_entry (LinkName l)) = Inr target
          \<and> l' = l\<lparr>DevicePath := link_place target\<rparr>)"

lemma clean_parts_walk: "clean_parts kept ps = walk (rev kept) ps"
  by (induction kept ps rule: clean_parts.induct) (auto simp: butlast_rev)

lemma walk_append: "walk dir (ps @ qs) = walk (walk dir ps) qs"
  by (induction dir ps rule: walk.induct) simp_all

lemma split_on_append_sep: "split_on c (s @ c # t) = split_on c s @ split_on c t"
proof (induction s)
  case (Cons a s)
  then show ?case using split_on_not_Nil [of c s] by (cases "split_on c s") auto
qed simp

lemma walk_root: "walk dir [[]] = dir"
  by simp

lemma path_clean_rooted: "path_clean p = rooted (walk [] (split_on slash p))"
  by (simp add: path_clean_def rooted_def clean_parts_walk)

lemma networkPath_walk: "walk [] (split_on slash networkPath) = net_directory"
  by (simp add: networkPath_def net_directory_def)

lemma path_join_network: "path_join networkPath target = rooted (walk net_directory (split_on slash target))"
  by (simp add: path_join_def path_clean_rooted split_on_append_sep walk_append networkPath_walk)

lemma path_clean_idem: "path_clean (path_clean p) = path_clean p"
proof -
  obtain parts where p: "path_clean p = slash # join slash parts" "list_all path_part parts"
    using path_clean_clean [of p] by (auto simp: clean_path_def)
  show ?thesis
  proof (cases "parts = []")
    case True
    then show ?thesis using p by (simp add: path_clean_def)
  next
    case False
    then show ?thesis using p path_clean_join by simp
  qed
qed

lemma resolvePath_place: "resolvePath target = link_place target"
proof (cases "has_prefix target [slash]")
  case True
  then show ?thesis by (simp add: resolvePath_def path_is_abs_def link_place_def path_clean_rooted)
next
  case False
  have "path_clean (path_join networkPath target) = path_join networkPath target"
    unfolding path_join_def by (rule path_clean_idem)
  then show ?thesis using False
    by (simp add: resolvePath_def path_is_abs_def link_place_def path_join_network)
qed

lemma safe_name_plain: "name \<noteq> [] \<Longrightarrow> slash \<notin> set name \<Longrightarrow> CHR 0x5C \<notin> set name \<Longrightarrow> safe_name name"
  by (simp add: safe_name_def path_base_plain)

lemma safe_name_iff: "safe_name name \<longleftrightarrow> plain_name name"
  using safe_name_plain by (auto simp: safe_name_def plain_name_def)

lemma link_entry_path: "plain_name name \<Longrightarrow> path_join networkPath name = link_entry name"
  by (simp add: path_join_network link_entry_def plain_name_def split_on_single)

lemma resolved_iff:
  "resolved readlink l l' \<longleftrightarrow>
     safe_name (LinkName l)
     \<and> (\<exists>target. link_target readlink l = Inr target \<and> l' = l\<lparr>DevicePath := resolvePath target\<rparr>)"
  unfolding resolved_def safe_name_iff link_target_def resolvePath_place
  using link_entry_path by auto

lemma resolveLinks_Inr_iff:
  "resolveLinks readlink ls = Inr ls' \<longleftrightarrow> list_all2 (resolved readlink) ls ls'"
proof (induction ls arbitrary: ls')
  case Nil
  then show ?case by auto
next
  case (Cons l ls)
  then show ?case
    by (auto simp: resolved_iff link_target_def list_all2_Cons1 go_bind_Inr_iff split: sum.splits)
qed

lemma resolveLinks_vanished:
  assumes "list_all2 (resolved readlink) before ls'" "safe_name (LinkName l)"
    and "link_target readlink l = Inl e"
  shows "resolveLinks readlink (before @ l # ls) = Inl (Wrapf ''resolve interface %q: %w'' [FStr (LinkName l)] e)"
  using assms(1)
proof (induction before arbitrary: ls')
  case Nil
  then show ?case using assms(2,3) by (simp add: link_target_def)
next
  case (Cons b before)
  then show ?case by (auto simp: resolved_iff link_target_def list_all2_Cons1 go_bind_Inl_iff)
qed

text \<open>
  C32 (links_resolved): a dump of links is accepted exactly when it has at most 64 links, every name
  is non-empty and free of slashes and backslashes, and every link's \<open>/sys/class/net\<close> entry can be
  read; every link keeps all its fields but the device path, which is where the entry's target
  leads, walked from the root or, a relative one, from \<open>/sys/class/net\<close>: an absolute path without
  \<open>.\<close>, \<open>..\<close> or empty components.
\<close>

theorem links_resolved:
  shows "(Links (Inr ls) readlink = Inr ls' \<longleftrightarrow>
      length ls \<le> 64 \<and> list_all2 (resolved readlink) ls ls')
    \<and> (\<forall>l l'. \<not> resolved readlink l l'
        \<or> l' = l\<lparr>DevicePath := DevicePath l'\<rparr> \<and> clean_path (DevicePath l'))"
proof
  show "Links (Inr ls) readlink = Inr ls' \<longleftrightarrow> length ls \<le> 64 \<and> list_all2 (resolved readlink) ls ls'"
    by (auto simp: Links_def maximumLinks_def resolveLinks_Inr_iff)
  show "\<forall>l l'. \<not> resolved readlink l l'
      \<or> l' = l\<lparr>DevicePath := DevicePath l'\<rparr> \<and> clean_path (DevicePath l')"
    by (auto simp: resolved_iff resolvePath_clean)
qed

text \<open>A relative target climbs out of \<open>/sys/class/net\<close>; a name with a slash is refused.\<close>

theorem links_resolved_witness:
  "Links (Inr [empty_link\<lparr>LinkName := ''eth0''\<rparr>])
      (\<lambda>p. if p = ''/sys/class/net/eth0'' then Inr ''../../devices/platform/eth/net/eth0'' else Inl (Errno 2))
   = Inr [empty_link\<lparr>LinkName := ''eth0'', DevicePath := ''/sys/devices/platform/eth/net/eth0''\<rparr>]
   \<and> (\<forall>readlink ls'. Links (Inr [empty_link\<lparr>LinkName := ''a/b''\<rparr>]) readlink \<noteq> Inr ls')"
proof
  let ?l = "empty_link\<lparr>LinkName := ''eth0''\<rparr>"
  let ?readlink = "\<lambda>p. if p = ''/sys/class/net/eth0'' then Inr ''../../devices/platform/eth/net/eth0''
      else Inl (Errno 2)"
  have entry: "link_entry ''eth0'' = ''/sys/class/net/eth0''"
    by (simp add: link_entry_def net_directory_def rooted_def)
  let ?parts = "[''..'', ''..'', ''devices'', ''platform'', ''eth'', ''net'', ''eth0'']"
  have target: "''../../devices/platform/eth/net/eth0'' = join CHR ''/'' ?parts" by simp
  have parts: "split_on CHR ''/'' (join CHR ''/'' ?parts) = ?parts"
    by (rule split_on_join) simp_all
  have "link_place ''../../devices/platform/eth/net/eth0'' = ''/sys/devices/platform/eth/net/eth0''"
    unfolding target link_place_def parts by (simp add: net_directory_def rooted_def has_prefix_def)
  then have "resolved ?readlink ?l (?l\<lparr>DevicePath := ''/sys/devices/platform/eth/net/eth0''\<rparr>)"
    by (simp add: resolved_def entry plain_name_def)
  then show "Links (Inr [?l]) ?readlink
      = Inr [empty_link\<lparr>LinkName := ''eth0'', DevicePath := ''/sys/devices/platform/eth/net/eth0''\<rparr>]"
    using links_resolved [THEN conjunct1, of "[?l]" ?readlink
        "[?l\<lparr>DevicePath := ''/sys/devices/platform/eth/net/eth0''\<rparr>]"] by simp
  show "\<forall>readlink ls'. Links (Inr [empty_link\<lparr>LinkName := ''a/b''\<rparr>]) readlink \<noteq> Inr ls'"
    using links_resolved [THEN conjunct1, of "[empty_link\<lparr>LinkName := ''a/b''\<rparr>]"]
    by (auto simp: list_all2_Cons1 resolved_def plain_name_def)
qed

text \<open>
  C40 (vanished_interface_unsupported): when an interface disappears between the netlink dump and the
  read of its \<open>/sys/class/net\<close> entry, the network observation is reported as unsupported, the
  reason of an absent capability, and not as temporarily unavailable.
\<close>

theorem vanished_interface_unsupported:
  assumes "length (before @ l # later) \<le> 64"
    and "list_all2 (resolved readlink) before ls'" "safe_name (LinkName l)"
    and "link_target readlink l = Inl (PathError ''readlink'' path (Errno 2))"
  shows "\<exists>v. collectNetwork None (Links (Inr (before @ l # later)) readlink) = Some (Return v)
    \<and> o_state v = stateUnavailable \<and> o_reason v = reasonUnsupported"
proof -
  have "Links (Inr (before @ l # later)) readlink = Inl (Wrapf ''resolve interface %q: %w''
      [FStr (LinkName l)] (PathError ''readlink'' path (Errno 2)))"
    using assms(1) resolveLinks_vanished [OF assms(2-4), of later]
    by (simp add: Links_def maximumLinks_def)
  then show ?thesis by (simp add: collectNetwork_def acquisitionFailure_def)
qed

theorem vanished_interface_unsupported_witness:
  "\<exists>v. collectNetwork None (Links (Inr [empty_link\<lparr>LinkName := ''eth0''\<rparr>])
        (\<lambda>p. Inl (PathError ''readlink'' p (Errno 2)))) = Some (Return v) \<and> o_reason v = reasonUnsupported"
proof -
  let ?l = "empty_link\<lparr>LinkName := ''eth0''\<rparr>"
  have "safe_name (LinkName ?l)" by (simp add: safe_name_plain)
  then show ?thesis
    using vanished_interface_unsupported [of "[]" ?l "[]" "\<lambda>p. Inl (PathError ''readlink'' p (Errno 2))" "[]"]
    by (auto simp: link_target_def)
qed

end
