(* ===== verification/OtherPlatforms.thy ===== *)
theory OtherPlatforms
  imports Providers Lifecycle PlatformSource
begin

text \<open>
  The files chosen by the operating system and the entry of the process: the stubs of
  \<open>platform/source_other.go\<close>, \<open>thermal_other.go\<close>, \<open>firmware_other.go\<close>, \<open>firmware_ioctl_linux_other.go\<close>
  and \<open>app/readiness_other.go\<close>, the two \<open>newSignalContext\<close> of \<open>app/signals_linux.go\<close> and
  \<open>signals_other.go\<close>, \<open>app.Run\<close> and \<open>main\<close>.
\<close>

section \<open>The stubs\<close>

definition unsupportedSource :: genericSource where
  "unsupportedSource =
     \<lparr>src_hostname = Inl ErrNotExist, src_uptime = Inl ErrNotExist, src_cpuOnline = Inl ErrNotExist,
      src_loadAverage = Inl ErrNotExist, src_memoryInfo = Inl ErrNotExist,
      src_rootFilesystem = Inl ErrNotExist\<rparr>"

definition unsupportedCPUSource :: cpuSource where
  "unsupportedCPUSource =
     \<lparr>cpu_stat = Inl ErrNotExist, cpu_online = Inl ErrNotExist, cpu_bootID = Inl ErrNotExist,
      cpu_uptime = Inl ErrNotExist\<rparr>"

definition unsupportedLinks :: "Link list go" where
  "unsupportedLinks = Inl ErrNotExist"

definition unsupportedThermalSource :: thermalSource where
  "unsupportedThermalSource =
     \<lparr>th_names = Inl ErrNotExist, th_type = (\<lambda>zone. Inl ErrNotExist),
      th_temperature = (\<lambda>zone. Inl ErrNotExist)\<rparr>"

definition unsupportedGetThrottled :: "(u32 go) call" where
  "unsupportedGetThrottled = Return (Inl ErrNotExist)"

text \<open>Linux on another architecture: the device can be opened, the request is never sent.\<close>

definition firmwarePropertyIOCTLOther :: "string \<Rightarrow> string \<Rightarrow> string go" where
  "firmwarePropertyIOCTLOther path buffer = Inl ErrNotExist"

definition GetThrottledOther :: "firmware_devices \<Rightarrow> (u32 go) call" where
  "GetThrottledOther d = askDevices firmwarePropertyIOCTLOther d"

definition sendSystemdDatagramOther :: readinessSender where
  "sendSystemdDatagramOther name payload timeout = None"

section \<open>Signals\<close>

datatype goos = Linux | OtherOS

datatype osSignal = SIGINT | SIGTERM

text \<open>\<open>os.Interrupt\<close> is SIGINT. A signal that is not listed keeps its default action.\<close>

fun notifiedSignals :: "goos \<Rightarrow> osSignal list" where
  "notifiedSignals Linux = [SIGINT, SIGTERM]"
| "notifiedSignals OtherOS = [SIGINT]"

text \<open>\<open>Err()\<close> of the context of \<open>newSignalContext\<close> once \<open>delivered\<close> has arrived.\<close>

definition newSignalContext :: "goos \<Rightarrow> osSignal list \<Rightarrow> goerror option" where
  "newSignalContext goos delivered =
     (if list_ex (\<lambda>s. s \<in> set (notifiedSignals goos)) delivered then Some ContextCanceled else None)"

section \<open>The process\<close>

text \<open>
  What surrounds the process: the environment of the start on Linux, the socket of systemd, and the
  signals delivered before the context is tested, while the service starts, and while systemd is
  notified.
\<close>

record surroundings =
  su_start :: startEnvironment
  su_socket :: systemdSocket
  su_early :: "osSignal list"
  su_starting :: "osSignal list"
  su_notifying :: "osSignal list"

fun platformEnvironment :: "goos \<Rightarrow> startEnvironment \<Rightarrow> startEnvironment" where
  "platformEnvironment Linux env = env"
| "platformEnvironment OtherOS env =
     env\<lparr>st_cpuSource := unsupportedCPUSource, st_source := unsupportedSource\<rparr>"

fun platformSender :: "goos \<Rightarrow> systemdSocket \<Rightarrow> readinessSender" where
  "platformSender Linux sock = sendSystemdDatagram sock"
| "platformSender OtherOS sock = sendSystemdDatagramOther"

text \<open>\<open>Run\<close>: \<open>run\<close> with the production dependencies; the other answers are those of \<open>lf\<close>.\<close>

definition Run ::
    "goos \<Rightarrow> surroundings \<Rightarrow> lifecycle \<Rightarrow> string list \<Rightarrow> string list
     \<Rightarrow> nat \<times> string list \<times> string list option \<times> runtimeAction list" where
  "Run goos su lf args environment =
     run (lf\<lparr>lf_cancelledEarly := newSignalContext goos (su_early su) \<noteq> None,
             lf_start := (\<lambda>cfg. snd (startHTTP (platformEnvironment goos (su_start su)) cfg)),
             lf_cancelledStarting := newSignalContext goos (su_early su @ su_starting su) \<noteq> None,
             lf_notifyReady := Some (\<lambda>e. notifySystemdReadyWith e (platformSender goos (su_socket su))),
             lf_cancelledNotifying :=
               newSignalContext goos (su_early su @ su_starting su @ su_notifying su) \<noteq> None\<rparr>)
       args environment"

text \<open>\<open>main\<close>: \<open>os.Args[1:]\<close> is out of range when there is no program name.\<close>

definition main ::
    "goos \<Rightarrow> surroundings \<Rightarrow> lifecycle \<Rightarrow> string list \<Rightarrow> string list
     \<Rightarrow> (nat \<times> string list \<times> string list option \<times> runtimeAction list) call" where
  "main goos su lf osArgs environ =
     (if osArgs = [] then Panic (New ''slice bounds out of range'')
      else Return (Run goos su lf (tl osArgs) environ))"

section \<open>Without a supported platform\<close>

text \<open>
  The firmware metrics of a build without a firmware interface: unsupported on another operating
  system; on Linux for another architecture unsupported too, unless a device could not be opened.
\<close>

lemma unsupported_firmware:
  "unsupportedGetThrottled = Return r \<Longrightarrow>
   transactionOutcome r = unavailable reasonUnsupported (Some ErrNotExist)"
  by (auto simp: unsupportedGetThrottled_def transactionOutcome_def acquisitionFailure_def)

lemma other_architecture_unsupported:
  assumes "\<And>path e. dev_open d path = Some e \<Longrightarrow> errors_is e ErrNotExist \<and> \<not> errors_is e ErrPermission"
  obtains e where "GetThrottledOther d = Return (Inl e)"
    "transactionOutcome (Inl e) = unavailable reasonUnsupported (Some e)"
proof -
  have "\<exists>e. askRestricted firmwarePropertyIOCTLOther d = Return (Inl e) \<and> errors_is e ErrNotExist
      \<and> \<not> errors_is e ErrPermission"
    using assms by (simp add: askRestricted_def transactFirmware_def command_request_eq
        firmwarePropertyIOCTLOther_def split: option.split)
  moreover have "\<exists>e. askGeneral firmwarePropertyIOCTLOther d = Return (Inl e) \<and> errors_is e ErrNotExist
      \<and> \<not> errors_is e ErrPermission"
    using assms by (simp add: askGeneral_def transactFirmware_def property_request_eq
        firmwarePropertyIOCTLOther_def split: option.split)
  ultimately show thesis
    using that by (auto simp: GetThrottledOther_def askDevices_def transactionOutcome_def acquisitionFailure_def)
qed

lemma unsupported_absent:
  "\<not> is_present (host_hostname (collectHost c unsupportedSource))"
  by (cases c) (simp_all add: collectHost_def unsupportedSource_def acquisitionFailure_def Let_def)

text \<open>The probe of the start needs a hostname.\<close>

lemma unsupported_never_starts:
  obtains e where "snd (startHTTP (platformEnvironment OtherOS env) cfg) = Some e"
proof -
  obtain obs where start: "startHTTP (platformEnvironment OtherOS env) cfg
      = startOutcome (platformEnvironment OtherOS env) cfg obs"
    by (rule startHTTP_production)
  obtain c1 c2 where p: "st_probeCtx env = (c1, c2)" by (rule prod.exhaust)
  have "ProbeReadiness (Some (c1, c2)) (Some unsupportedSource) \<noteq> None"
    using unsupported_absent [of c1]
    by (auto simp: ProbeReadiness_def is_present_def Let_def split: option.split)
  then obtain e where e: "ProbeReadiness (Some (c1, c2)) (Some unsupportedSource) = Some e" by blast
  show thesis
  proof (cases "st_bind env ''tcp4'' (endpoint_of cfg)")
    case None
    then show thesis using start e p that by (simp add: startOutcome_def Let_def)
  next
    case (Some e')
    then show thesis using start that by (simp add: startOutcome_def Let_def)
  qed
qed

text \<open>A signal that arrived before the start ends the process with exit code 0 and nothing done.\<close>

lemma early_signal_exits:
  assumes "Resolve args environ = Inr cfg" "newSignalContext goos (su_early su) \<noteq> None"
  shows "main goos su lf (name # args) environ = Return (0, [], Some [], [])"
  using assms by (simp add: main_def Run_def run_def Let_def newLineLoggerWith_def)

text \<open>The observations of a cycle over the stubs never have a hostname.\<close>

definition otherAnswers ::
    "(nat \<Rightarrow> goerror option) \<Rightarrow> (nat \<Rightarrow> goerror option) \<Rightarrow> platformAnswers" where
  "otherAnswers ctxErr zoneCtx =
     \<lparr>pa_ctxErr = ctxErr, pa_source = unsupportedSource, pa_links = unsupportedLinks,
      pa_zoneCtx = zoneCtx\<rparr>"

definition nameless :: "cycleObservations \<Rightarrow> bool" where
  "nameless ob \<longleftrightarrow> \<not> is_present (host_hostname (cy_host ob))"

lemma stores_keep_nameless: "stores_keep nameless (sourceCollectors (otherAnswers ctxErr zoneCtx) rpi)"
  using unsupported_absent
  by (auto simp: stores_keep_def nameless_def sourceCollectors_def productionCollectors_def
      otherAnswers_def)

lemma nameless_observations:
  assumes "raspberryPi_ok rpi" "cpu_answer_ok latest"
  shows "stage c nameless
    (collectObservations c (sourceCollectors (otherAnswers ctxErr zoneCtx) rpi) latest)"
  by (rule collectObservations_keep [OF sourceCollectors_ok [OF assms(1)] assms(2) stores_keep_nameless])
    (simp_all add: nameless_def unavailableCycle_def)

section \<open>The constructor used by the start\<close>

text \<open>What the start needs of the constructor: which arguments it rejects, and the state it begins with.\<close>

lemma CoordinatorWithRaspberryPi_state:
  "map_sum id sv_shared (CoordinatorWithRaspberryPi lifecycleNil source cpu thermal firmware degradation
       fatalNil now contexts) =
     NewCoordinatorWithRaspberryPi (source = None \<or> cpu = None \<or> thermal = None \<or> firmware = None
       \<or> degradation = None) lifecycleNil fatalNil"
  by (auto simp: CoordinatorWithRaspberryPi_def NewCoordinatorWithRaspberryPi_def coordinatorFrom_def
      split: option.splits)

section \<open>Properties\<close>

text \<open>
  On an operating system other than Linux a cycle of the production
  coordinator ends without a panic, and unless the lifecycle has ended it answers that no useful
  snapshot is available; it never publishes a document.
\<close>

theorem other_platform_unavailable:
  assumes "CoordinatorWithRaspberryPi lifecycleNil (Some (otherAnswers ctxErr zoneCtx)) (Some cpu)
      (Some unsupportedThermalSource) (Some (transactionOutcome (Inl ErrNotExist)))
      (Some (Report now)) fatalNil now contexts = Inr sv"
    and "cpu_answer_ok cpu"
  shows "\<exists>reporter' out res. serviceCycle sv reporter = Return (reporter', out, res)
    \<and> ((\<exists>e i. res = Inl e \<and> ctx_lifecycle contexts i = Some e) \<or> res = Inl ErrNoUsefulSnapshot)"
proof -
  let ?rpi = "productionRaspberryPiCollect zoneCtx (Some unsupportedThermalSource)
    (transactionOutcome (Inl ErrNotExist))"
  let ?cc = "sourceCollectors (otherAnswers ctxErr zoneCtx) ?rpi"
  have rpi: "raspberryPi_ok ?rpi"
    by (rule productionRaspberryPiCollect_ok) (simp add: transactionOutcome_def)
  have cycle: "serviceCycle sv reporter = collect Encode (Report now) now contexts ?cc cpu reporter"
    using assms(1)
    by (auto simp: CoordinatorWithRaspberryPi_def coordinatorFrom_Inr_iff serviceCycle_def otherAnswers_def)
  note ok = collectObservations_stage [OF sourceCollectors_ok [OF rpi] assms(2)]
  show ?thesis
    using nameless_observations [OF rpi assms(2), of contexts ctxErr zoneCtx] unfolding stage_def
  proof (elim disjE exE conjE)
    fix e i
    assume "collectObservations contexts ?cc cpu = Return (Inl e)" "ctx_lifecycle contexts i = Some e"
    then show ?thesis by (auto simp: cycle collect_def)
  next
    fix ob
    assume ob: "collectObservations contexts ?cc cpu = Return (Inr ob)" "nameless ob"
    then have "cycle_ok ob"
      using ok [of contexts "otherAnswers ctxErr zoneCtx"] by (auto simp: stage_def)
    then obtain r' out where
      "finalize Encode (Report now) now reporter ob = Return (r', out, Inl ErrNoUsefulSnapshot)"
      using production.finalize_no_hostname [of ob now reporter now] ob(2) by (auto simp: nameless_def)
    then show ?thesis using ob(1) by (simp add: cycle collect_def)
  qed
qed

theorem other_platform_unavailable_witness:
  "\<exists>sv reporter' out res. CoordinatorWithRaspberryPi False
      (Some (otherAnswers (\<lambda>i. None) (\<lambda>i. None))) (Some unavailableCPULatest)
      (Some unsupportedThermalSource) (Some (transactionOutcome (Inl ErrNotExist)))
      (Some (Report example_time)) False example_time example_contexts = Inr sv
    \<and> serviceCycle sv newDegradationReporter = Return (reporter', out, res)
    \<and> res = Inl ErrNoUsefulSnapshot"
proof -
  obtain sv where sv: "CoordinatorWithRaspberryPi False
      (Some (otherAnswers (\<lambda>i. None) (\<lambda>i. None))) (Some unavailableCPULatest)
      (Some unsupportedThermalSource) (Some (transactionOutcome (Inl ErrNotExist)))
      (Some (Report example_time)) False example_time example_contexts = Inr sv"
    by (simp add: CoordinatorWithRaspberryPi_def coordinatorFrom_def)
  from other_platform_unavailable [OF sv unavailableCPU_answer, of newDegradationReporter] sv
  show ?thesis by (auto simp: example_contexts_def)
qed

text \<open>
  C38 (other_platform_exits): on an operating system other than Linux the program never serves: with
  an accepted configuration and no signal, it ends with exit code 1 and an error on stderr,
  whatever its surroundings answer, and the server is never started.
\<close>

theorem other_platform_exits:
  assumes "Resolve args environ = Inr cfg"
    and "newSignalContext OtherOS (su_early su @ su_starting su) = None"
  shows "\<exists>lines. main OtherOS su lf (name # args) environ = Return (1, [], Some lines, [])
    \<and> lines \<noteq> [] \<and> list_all error_line lines"
proof -
  obtain e where e: "snd (startHTTP (platformEnvironment OtherOS (su_start su)) cfg) = Some e"
    by (rule unsupported_never_starts)
  have early: "newSignalContext OtherOS (su_early su) = None"
    using assms(2) by (simp add: newSignalContext_def split: if_splits)
  let ?logger = "newLineLoggerWith (Some []) (logLevel cfg) (lf_clock lf)"
  have added: "\<exists>lines. lg_output (loggerError m ?logger) = Some lines \<and> lines \<noteq> []
      \<and> list_all error_line lines" for m
    using loggerError_line [of m "logLevel cfg" "lf_clock lf"] by auto
  show ?thesis
    using added assms e early by (simp add: main_def Run_def run_def Let_def)
qed

theorem other_platform_exits_witness:
  "\<exists>lines. main OtherOS
      \<lparr>su_start = example_environment None,
       su_socket = \<lparr>sk_dial = \<lambda>a. None, sk_deadline = \<lambda>t. None, sk_write = \<lambda>p. Inr 7\<rparr>,
       su_early = [], su_starting = [], su_notifying = []\<rparr>
      example_lifecycle [''joy-pi-health''] [] = Return (1, [], Some lines, [])"
proof -
  let ?su = "\<lparr>su_start = example_environment None,
    su_socket = \<lparr>sk_dial = \<lambda>a. None, sk_deadline = \<lambda>t. None, sk_write = \<lambda>p. Inr 7\<rparr>,
    su_early = [], su_starting = [], su_notifying = []\<rparr>"
  have "newSignalContext OtherOS (su_early ?su @ su_starting ?su) = None"
    by (simp add: newSignalContext_def)
  from other_platform_exits [OF default_resolves this, of example_lifecycle "''joy-pi-health''"]
  show ?thesis by blast
qed

end
