(* ===== verification/Spec2Isabelle.thy ===== *)
theory Spec2Isabelle
  imports Degradation FirmwareProtocol Generic Network RaspberryPi Validators Cpu
    FloatShortest JsonReader DocumentSize DocumentReader Coordinator CycleSize Providers SingleFlight
    OtherPlatforms FirmwareExecutor Config HttpApi HttpServer
    Logger Readiness Lifecycle PlatformSource
begin

text \<open>
  Joy Pi Health: a verification library for the snapshot service.

  The program is a daemon for a Raspberry Pi. A CPU observer samples \<open>/proc/stat\<close> once a second and
  publishes a utilization. A request for \<open>GET /v1/snapshot\<close> joins or starts a collection cycle of
  the coordinator; the cycle runs six collectors under their own deadlines, validates what they
  return, assembles one document with an issue for every missing metric, reports the degradations
  to the log, and encodes the document once. The HTTP layer admits at most eight requests over at
  most sixteen connections and answers with the encoded document or one of three prepared errors. An
  internal defect makes the affected part fail for good and calls a fatal notifier, upon which the
  application shuts down.

  \<^bold>\<open>Conventions.\<close> A Go string or byte slice is a list of bytes (\<open>char\<close>), an integer of fixed width
  a word, a duration or a time a number of nanoseconds as \<open>int\<close>, a 64-bit float a datatype with an
  exact rational (\<open>Float64\<close>). An error is a tree with \<open>errors.Is\<close> (\<open>GoPrelude\<close>), where a value formatted
  with \<open>%w\<close> is wrapped and one formatted with \<open>%v\<close>, as recovered panics are, is not; \<open>Inl\<close> is a
  non-nil error, and code that can panic returns a \<open>call\<close>. A read out of bounds is a panic of the model. What
  the operating system, the clock, the contexts and the choices of \<open>select\<close> answer are arguments or
  records of answers; nothing is assumed of them unless a theorem says so. A mutex makes its section
  one step; concurrent code is a step relation over its sections with an invariant by rule induction.

  \<^bold>\<open>Theories and sources\<close> (under \<open>src/internal\<close>).

  \<^item> \<open>GoPrelude\<close>, \<open>GoStrings\<close>, \<open>GoBytes\<close>, \<open>GoTime\<close>, \<open>Float64\<close>, \<open>FloatText\<close>, \<open>Json\<close>: the standard library
    the program uses: errors, \<open>strings\<close> and \<open>strconv\<close>, reads of little-endian words, RFC 3339 times,
    rounding to nearest even with the shortest decimal text, and JSON rendering with escapes.
    \<open>FloatShortest\<close> shows that seventeen digits always suffice, that the text of a float reads back to the
    same float, and how long it can be.
  \<^item> \<open>Snapshot\<close>: \<open>snapshot/snapshot.go\<close>. \<open>Encode\<close> with its validation, the list of expected issue
    paths and the 64 KiB bound; exactly what it accepts, and the discipline of issues. The locale
    \<open>snapshot_encoder\<close> states what the coordinator relies on.
  \<^item> \<open>JsonReader\<close>, \<open>DocumentReader\<close>: a reference reader of RFC 8259 and the schema of
    \<open>docs/http-api-v0.1.md\<close>, which no code of the program corresponds to. What \<open>Encode\<close> accepts is a JSON
    text of that schema, and read field by field it gives every value of the snapshot back.
  \<^item> \<open>DocumentSize\<close>, \<open>CycleSize\<close>: the length of the document from the lengths of its parts. While the
    host name has at most 64 bytes and an interface name less than 16, the limits of Linux, no cycle
    can assemble a document that \<open>Encode\<close> refuses for its size.
  \<^item> \<open>Outcome\<close>, \<open>Validators\<close>: \<open>observe/outcome.go\<close>, the validators of \<open>coordinator.go\<close>, and
    \<open>readiness.go\<close>. Every collector's result passes its validator.
  \<^item> \<open>Degradation\<close>: \<open>observe/degradation.go\<close>. \<open>Report\<close> refines a specification by sets; reminders are
    spaced; the locale \<open>degradation_sink\<close> is the coordinator's view of it.
  \<^item> \<open>Generic\<close>: \<open>observe/generic.go\<close>. The parsers of uptime, CPU lists, load and memory, and exactness
    of the numbers they present.
  \<^item> \<open>Cpu\<close>: \<open>observe/cpu.go\<close>. The utilization of two samples is the correctly rounded percentage; the
    observer as a step relation of starts, rounds and closes.
  \<^item> \<open>Network\<close>: \<open>observe/network.go\<close>. The memoised search with its cycle check against an inductive
    specification of externally capable links.
  \<^item> \<open>RaspberryPi\<close>, \<open>FirmwareExecutor\<close>: \<open>observe/raspberrypi.go\<close> and \<open>firmware_executor.go\<close>. The
    thermal-zone search, the firmware flags, and the single-flight executor as a step relation; its
    locale \<open>firmware_transaction\<close> is interpreted on the devices of \<open>FirmwareProtocol\<close>.
  \<^item> \<open>Coordinator\<close>, \<open>SingleFlight\<close>: \<open>observe/coordinator.go\<close>. The first is one cycle from its
    collectors to its finalization, in the locale \<open>cycle_services\<close> over any encoder and reporter
    that keep their contracts, interpreted on \<open>Encode\<close> and \<open>Report\<close>; the second is the shared state of
    \<open>Snapshot\<close>, \<open>run\<close> and \<open>fail\<close> as a step relation. \<open>Providers\<close> holds the three constructors with the
    collectors, publication, reporter and encoder each of them gives; it interprets \<open>cycle_services\<close>
    once more, on the reporter that does nothing.
  \<^item> \<open>Netlink\<close>, \<open>FirmwareProtocol\<close>, \<open>PlatformSource\<close>: \<open>platform/\<close>. The netlink dump from bytes to
    links, the mailbox and property exchanges, and the bounded reads, link targets and thermal zones
    of the production sources.
  \<^item> \<open>Config\<close>: \<open>config/config.go\<close>. Command line, environment, precedence and validation.
  \<^item> \<open>HttpApi\<close>, \<open>HttpServer\<close>: \<open>httpapi/handler.go\<close> and \<open>server.go\<close>. The handler alone and under
    interleaved requests, with a writer that may panic at any call; the listener of limited
    connections, and which closes reach it.
  \<^item> \<open>Logger\<close>, \<open>Readiness\<close>, \<open>Lifecycle\<close>: \<open>app/\<close>. The line logger as a list of entries, the readiness
    gate and the systemd notification, the start of all parts with its releases, and the process from
    its configuration to its exit code, with the records that the degradation reporter and the HTTP
    server write on the same logger meanwhile.
  \<^item> \<open>OtherPlatforms\<close>: the \<open>*_other.go\<close> stubs, the \<open>signals\<close> files, \<open>Run\<close> and \<open>cmd/joy-pi-health/main.go\<close>.
    On another operating system the start fails on the missing hostname and the program exits with 1.

  This theory composes them: \<open>service_end_to_end\<close> follows a cycle from the answers of the kernel and
  the firmware through the collectors, the coordinator and the encoder to the HTTP response.

  \<^bold>\<open>Bounds and fuel.\<close> The recursive search of \<open>externallyCapable\<close> has fuel, one unit for each link and
  one more: the visiting set grows with every call, so the search ends before; \<open>network_total\<close> proves it.
  The receive loop of the netlink dump consumes a list of rounds and is \<open>None\<close> when it still waits after
  them. All other functions terminate by their structure or by a measure.

  \<^bold>\<open>Atomicity.\<close> A section between two blocking points is one step. In the handler, the test of \<open>failed\<close> and
  the taking of a slot are one step, and so are the calls on one response writer; the sections of
  different requests interleave freely. In the executor and the coordinator a step is a critical
  section or a channel operation. The readiness gate's flag of a fatal error is set outside its mutex, so
  the steps of \<open>notify\<close> are split at every load of that flag and at the start and the end of the send.
  In the listener the close of a connection is one step at its \<open>releaseOnce\<close>.

  \<^bold>\<open>Specifications apart from the code.\<close> Where a property says what the code decides, the statement has its
  own words for it: the values of a snapshot counted field by field (\<open>usable_values\<close>), the literal five
  minutes and records of a report (\<open>log_due\<close>, \<open>warning\<close>), the closed connections (\<open>li_closed\<close>) and the
  finished calls of \<open>notify\<close> (\<open>gs_calls\<close>), which are logs beside the state of the code, the walk of a link's
  target (\<open>walk\<close>), the decimal text of a port (\<open>decimal_port\<close>), the answers of the devices to each request
  of the firmware executor (\<open>firmware_yields\<close>), and the calls that all parts of the process make on the
  one logger of its stderr (\<open>process_log\<close>). Lemmas show that the code's own tests agree with them.

  \<^bold>\<open>Not modelled.\<close> The default action of a signal that the context does not list, and \<open>os.Exit\<close> beyond
  its exit code; the copies of values behind pointers (\<open>copyPointer\<close>, \<open>pointer\<close>), which are the values
  themselves in a model without addresses; the accessor \<open>Server.address\<close>, which only tests call; the texts of
  formatted errors, which no code reads (an error keeps its format and arguments); the transport of
  \<open>net/http\<close> below the handler and the listener, whose answers are arguments; and the fairness of the
  scheduler: a liveness property says that a step is possible and that few remain, not that it is
  taken. Real time enters as the answers of clocks and deadlines only.
\<close>

section \<open>From the kernel's answers to the HTTP response\<close>

text \<open>
  The cycle of the production service on the answers of one operating system: the collectors read
  \<open>linuxSource\<close>, the links of the netlink dump, the thermal zones and the firmware executor's
  answer, and the CPU utilization is the observer's latest publication.
\<close>

definition productionCycle ::
    "operatingSystem \<Rightarrow> (nat \<Rightarrow> goerror option) \<Rightarrow> Link list go \<Rightarrow> (nat \<Rightarrow> goerror option)
     \<Rightarrow> firmwareHealth outcome \<Rightarrow> cycleCollectors" where
  "productionCycle os ctxErr dump zoneCtx firmware =
     productionCollectors ctxErr (linuxSource os) (Links dump (os_readlink os))
       (productionRaspberryPiCollect zoneCtx (Some (linuxThermalSource os)) firmware)"

lemma productionCycle_ok:
  "valid_outcome firmware \<Longrightarrow> collectors_ok (productionCycle os ctxErr dump zoneCtx firmware)"
  unfolding productionCycle_def
  by (intro productionCollectors_ok productionRaspberryPiCollect_ok)

text \<open>The limits Linux keeps on the name of a host and of an interface.\<close>

definition kernel_limits :: "operatingSystem \<Rightarrow> Link list go \<Rightarrow> bool" where
  "kernel_limits os dump \<longleftrightarrow>
     (\<forall>h. os_hostname os = Inr h \<longrightarrow> length h \<le> HOST_NAME_MAX)
     \<and> (\<forall>ls. dump = Inr ls \<longrightarrow> (\<forall>l\<in>set ls. length (LinkName l) < IFNAMSIZ))"

lemma Links_names:
  assumes "Links dump readlink = Inr ls'" "l' \<in> set ls'"
  obtains ls l where "dump = Inr ls" "l \<in> set ls" "LinkName l' = LinkName l"
proof -
  obtain ls where ls: "dump = Inr ls" "list_all2 (resolved readlink) ls ls'"
    using assms(1) by (cases dump) (auto simp: Links_def resolveLinks_Inr_iff split: if_splits)
  then obtain l where "l \<in> set ls" "resolved readlink l l'"
    using assms(2) by (metis in_set_conv_nth list_all2_lengthD list_all2_nthD2)
  with ls(1) show thesis using that by (auto simp: resolved_iff)
qed

lemma productionCycle_sized:
  assumes "kernel_limits os dump"
  shows "collectors_sized (productionCycle os ctxErr dump zoneCtx firmware)"
  unfolding productionCycle_def
proof (rule productionCollectors_sized)
  show "length h \<le> HOST_NAME_MAX" if "src_hostname (linuxSource os) = Inr h" for h
    using that assms by (simp add: linuxSource_def kernel_limits_def)
  show "length (LinkName l) < IFNAMSIZ" if "Links dump (os_readlink os) = Inr ls" "l \<in> set ls" for ls l
    using Links_names [OF that] assms by (metis kernel_limits_def)
  show "when_present is_float64 (rpi_temperature
      (productionRaspberryPiCollect zoneCtx (Some (linuxThermalSource os)) firmware))"
    by (simp add: productionRaspberryPiCollect_def collectSoCTemperature_sized)
qed

text \<open>The lifecycle's own error is a cancellation when the context of the service ends.\<close>

definition cancelled_only :: "cycleContexts \<Rightarrow> bool" where
  "cancelled_only c \<longleftrightarrow> (\<forall>i e. ctx_lifecycle c i = Some e \<longrightarrow> e = ContextCanceled)"

text \<open>The only cycle that makes the service fail: a document that does not fit its bound.\<close>

definition oversized_answer :: "gotime \<Rightarrow> Encoded go \<Rightarrow> bool" where
  "oversized_answer now res \<longleftrightarrow>
     (\<exists>ob e. cycle_ok ob \<and> \<not> encodes_within (assembled ob\<lparr>ObservedAt := now\<rparr>)
        \<and> res = Inl (internalDefect (Some (Wrapf ''finalize snapshot: %w'' [] e))))"

lemma answer_expected:
  assumes "(\<exists>e i. res = Inl e \<and> ctx_lifecycle c i = Some e) \<or> answer_ok encodes_within now res"
    and "cancelled_only c"
  shows "expected_answer res \<or> oversized_answer now res"
  using assms(1)
proof
  assume "\<exists>e i. res = Inl e \<and> ctx_lifecycle c i = Some e"
  then have "res = Inl ContextCanceled" using assms(2) by (auto simp: cancelled_only_def)
  then show ?thesis by (simp add: expected_answer_def)
next
  assume "answer_ok encodes_within now res"
  then show ?thesis by (auto simp: expected_answer_def answer_ok_def oversized_answer_def)
qed

lemma bounded_expected:
  assumes "(\<exists>e i. res = Inl e \<and> ctx_lifecycle c i = Some e) \<or> res = Inl ErrNoUsefulSnapshot
      \<or> (\<exists>e. res = Inr e \<and> encoded_valid e \<and> encoded_len e \<le> MaximumSize)"
    and "cancelled_only c"
  shows "expected_answer res"
  using assms(1)
proof (elim disjE exE conjE)
  fix e i
  assume "res = Inl e" "ctx_lifecycle c i = Some e"
  then have "res = Inl ContextCanceled" using assms(2) by (auto simp: cancelled_only_def)
  then show ?thesis by (simp add: expected_answer_def)
qed (simp_all add: expected_answer_def)

text \<open>
  C1 (service_end_to_end): whatever the files, links, thermal zones, CPU counters and firmware
  devices answer, and wherever the deadlines fall, a cycle of the production service terminates
  without a panic, provided its time is not zero and prints as RFC 3339. Its result is a valid
  document of at most 64 KiB, an error that says that no snapshot is available, or the defect of a
  document that does not fit. That defect never occurs while the host name and the interface names
  keep the kernel's limits, and then the document is a JSON text of the documented schema. Served
  over HTTP, a 200 response carries exactly that document, and only the defect makes the service fail.
\<close>

theorem service_end_to_end:
  assumes "cpu_reachable cpu" "sys_clock cpu \<le> clock"
    and "firmware_reachable (firmware_yields device) fe" "fe_requests fe i = Some rq"
    and "awaitObservation (rq_token rq) i deadline fe = Some firmware"
    and "cancelled_only c" "time_ok now" "http_reachable served" "fresh_response response"
  shows "\<exists>reporter' out res.
      collect Encode (Report now) now c (productionCycle os ctxErr dump zoneCtx firmware)
        (latestCPU clock (sys_observer cpu)) reporter = Return (reporter', out, res)
      \<and> (expected_answer res \<or> oversized_answer now res)
      \<and> (kernel_limits os dump \<longrightarrow> expected_answer res
           \<and> (\<forall>e. res = Inr e \<longrightarrow>
                (\<exists>j. read_json (encoded_body e) = Some j \<and> conforms documentSchema j)))
      \<and> (case ServeHTTP (\<lambda>_. None) request requestErr ctxEnd (Return res) (ex_handler served) response of
           (h, w, p) \<Rightarrow> p = None
             \<and> (expected_answer res \<longrightarrow> h = ex_handler served)
             \<and> (statuses w = [StatusOK] \<longrightarrow>
                  (\<exists>e. res = Inr e \<and> encoded_valid e \<and> encoded_len e \<le> MaximumSize
                     \<and> bodies w = [encoded_body e])))"
proof -
  have firmware: "valid_outcome firmware"
    by (rule production_firmware.answers_valid [OF assms(3-5)])
  obtain reporter' out res where r:
    "collect Encode (Report now) now c (productionCycle os ctxErr dump zoneCtx firmware)
        (latestCPU clock (sys_observer cpu)) reporter = Return (reporter', out, res)"
    "(\<exists>e i. res = Inl e \<and> ctx_lifecycle c i = Some e) \<or> answer_ok encodes_within now res"
    using production.collect_contract [where nowa = now and c = c and r = reporter,
        OF productionCycle_ok [OF firmware, of os ctxErr dump zoneCtx] latestCPU_ok [OF assms(1,2)]
        assms(7)] by (elim exE conjE) (rule that)
  obtain h w p where s: "ServeHTTP (\<lambda>_. None) request requestErr ctxEnd (Return res)
      (ex_handler served) response = (h, w, p)"
    by (metis prod.collapse)
  note shape = ServeHTTP_shape [OF assms(9) s]
  have kept: "expected_answer res \<longrightarrow> h = ex_handler served"
    using ServeHTTP_expected [OF assms(9) _ s] by (simp add: callProvider_def)
  have ok: "\<exists>e. res = Inr e \<and> encoded_valid e \<and> encoded_len e \<le> MaximumSize \<and> bodies w = [encoded_body e]"
    if ok200: "statuses w = [StatusOK]"
  proof -
    have "servable request requestErr ctxEnd (Return res) (ex_handler served)" using shape ok200 by blast
    then obtain e where e: "res = Inr e" "encoded_valid e" "encoded_len e \<le> MaximumSize"
      by (auto simp: servable_def MaximumSize_def)
    obtain e' where "Return res = Return (Inr e')" "bodies w = [encoded_body e']"
      using shape ok200 by blast
    then have "bodies w = [encoded_body e]" using e(1) by simp
    then show ?thesis using e by blast
  qed
  have "case ServeHTTP (\<lambda>_. None) request requestErr ctxEnd (Return res) (ex_handler served) response of
           (h, w, p) \<Rightarrow> p = None \<and> (expected_answer res \<longrightarrow> h = ex_handler served)
             \<and> (statuses w = [StatusOK] \<longrightarrow>
                  (\<exists>e. res = Inr e \<and> encoded_valid e \<and> encoded_len e \<le> MaximumSize
                     \<and> bodies w = [encoded_body e]))"
    unfolding s prod.case using shape kept ok by blast
  moreover have "expected_answer res \<and> (\<forall>e. res = Inr e \<longrightarrow>
      (\<exists>j. read_json (encoded_body e) = Some j \<and> conforms documentSchema j))" if "kernel_limits os dump"
    using bounded_expected [OF collect_fits [OF productionCycle_ok [OF firmware]
          productionCycle_sized [OF that] latestCPU_ok [OF assms(1,2)] assms(7) r(1)] assms(6)]
      collect_schema [OF productionCycle_ok [OF firmware] productionCycle_sized [OF that]
          latestCPU_ok [OF assms(1,2)] assms(7)] r(1) by blast
  ultimately show ?thesis using r(1) answer_expected [OF r(2) assms(6)]
    by (intro exI [of _ reporter'] exI [of _ out] exI [of _ res] conjI) simp_all
qed

theorem service_end_to_end_witness:
  "\<exists>reporter' out res.
     collect Encode (Report example_time) example_time
       \<lparr>ctx_lifecycle = \<lambda>_. None, ctx_cycle = \<lambda>_. None, ctx_domain = \<lambda>_. None\<rparr>
       (productionCycle
          \<lparr>os_hostname = Inr ''pi'', os_files = \<lambda>p. Inl (PathError ''open'' p (Errno 2)),
           os_statfs = Inl (Errno 13), os_readDir = \<lambda>p. Inl (PathError ''open'' p (Errno 2)),
           os_readlink = \<lambda>p. Inl (PathError ''readlink'' p (Errno 2))\<rparr>
          (\<lambda>_. None) (Inr []) (\<lambda>_. None)
          (unavailable reasonTemporarilyUnavailable (Some ContextDeadlineExceeded)))
       (latestCPU 0 (sys_observer newCPUSystem)) newDegradationReporter = Return (reporter', out, res)
     \<and> expected_answer res"
proof -
  have awaited: "awaitObservation (rq_token \<lparr>rq_token = 7, rq_result = None\<rparr>) 0
      (Some ContextDeadlineExceeded) example_admitted
    = Some (unavailable reasonTemporarilyUnavailable (Some ContextDeadlineExceeded))"
    by (simp add: awaitObservation_def)
  have clock: "sys_clock newCPUSystem \<le> 0" by (simp add: newCPUSystem_def)
  have c: "cancelled_only \<lparr>ctx_lifecycle = \<lambda>_. None, ctx_cycle = \<lambda>_. None, ctx_domain = \<lambda>_. None\<rparr>"
    by (simp add: cancelled_only_def)
  let ?os = "\<lparr>os_hostname = Inr ''pi'', os_files = \<lambda>p. Inl (PathError ''open'' p (Errno 2)),
           os_statfs = Inl (Errno 13), os_readDir = \<lambda>p. Inl (PathError ''open'' p (Errno 2)),
           os_readlink = \<lambda>p. Inl (PathError ''readlink'' p (Errno 2))\<rparr>"
  have "kernel_limits ?os (Inr [])" by (simp add: kernel_limits_def HOST_NAME_MAX_def)
  then show ?thesis
    using service_end_to_end [OF cpu_reachable.initial clock example_admitted(1,2) awaited c
        example_time_ok http_reachable_new example_writer_fresh, of ?os] by blast
qed

end
